(* ===== verification/Prelude.thy ===== *)
theory Prelude
  imports Main "HOL-Library.Word"
begin

text \<open>
  Shared vocabulary of the development: the C integer types of the sources, C arrays
  indexed by a signed integer, the linear search \<open>for (i = lo; i < hi; i++)\<close> that most tables
  of the program use, block copies between byte arrays, and the contents of a ring buffer,
  together with the interface of a bounded first-in first-out queue that the listener
  backlog, the condition-variable waiter ring and the NetDev descriptor ring implement.

  Signed C integers are \<open>int\<close>: signed overflow is undefined in C, so the model does not wrap
  them, and the invariants of the components bound every value that is computed. Unsigned C
  integers are words of their width, so that they wrap as in C. A pointer is a 32-bit
  address with 0 for \<open>NULL\<close>.
\<close>

type_synonym int32 = int
type_synonym uint8 = "8 word"
type_synonym uint16 = "16 word"
type_synonym uint32 = "32 word"
type_synonym uint64 = "64 word"
type_synonym ptr = "32 word"

abbreviation (input) NULL :: ptr where
  "NULL \<equiv> 0"

named_theorems array_simps \<open>reading and writing C arrays\<close>

section \<open>C arrays\<close>

definition aget :: "'a list \<Rightarrow> int \<Rightarrow> 'a" where
  "aget xs i = xs ! nat i"

definition aset :: "'a list \<Rightarrow> int \<Rightarrow> 'a \<Rightarrow> 'a list" where
  "aset xs i v = xs[nat i := v]"

definition in_bounds :: "'a list \<Rightarrow> int \<Rightarrow> bool" where
  "in_bounds xs i \<longleftrightarrow> 0 \<le> i \<and> i < int (length xs)"

section \<open>Linear search\<close>

text \<open>
  \<open>c_search P lo hi\<close> is the C loop
  \<open>for (int i = lo; i < hi; i++) if (P(i)) return i; return -1;\<close>.
\<close>

function c_search :: "(int \<Rightarrow> bool) \<Rightarrow> int \<Rightarrow> int \<Rightarrow> int" where
  "c_search P i n = (if i < n then if P i then i else c_search P (i + 1) n else -1)"
  by pat_completeness auto
termination
  by (relation "measure (\<lambda>(P, i, n). nat (n - i))") auto

section \<open>Block copies and rings\<close>

text \<open>\<open>blit dst off src\<close> is \<open>memcpy(dst + off, src, length src)\<close>.\<close>

definition blit :: "'a list \<Rightarrow> nat \<Rightarrow> 'a list \<Rightarrow> 'a list" where
  "blit dst off src = take off dst @ src @ drop (off + length src) dst"

text \<open>\<open>window xs h c\<close> lists the \<open>c\<close> live slots of the ring \<open>xs\<close> from index \<open>h\<close> on.\<close>

definition window :: "'a list \<Rightarrow> nat \<Rightarrow> nat \<Rightarrow> 'a list" where
  "window xs h c = map (\<lambda>k. xs ! ((h + k) mod length xs)) [0..<c]"

section \<open>Lemmas on arrays and search\<close>

lemma length_aset [simp, array_simps]: "length (aset xs i v) = length xs"
  by (simp add: aset_def)

lemma in_bounds_aset [simp, array_simps]: "in_bounds (aset xs i v) j = in_bounds xs j"
  by (simp add: in_bounds_def)

lemma aget_aset_same [simp, array_simps]: "in_bounds xs i \<Longrightarrow> aget (aset xs i v) i = v"
  by (auto simp: aget_def aset_def in_bounds_def)

lemma aget_aset_other [simp, array_simps]:
  "0 \<le> i \<Longrightarrow> 0 \<le> j \<Longrightarrow> i \<noteq> j \<Longrightarrow> aget (aset xs i v) j = aget xs j"
  by (simp add: aget_def aset_def nth_list_update_neq)

lemma aget_aset:
  "in_bounds xs i \<Longrightarrow> 0 \<le> j \<Longrightarrow> aget (aset xs i v) j = (if i = j then v else aget xs j)"
  by (auto simp: in_bounds_def array_simps)

lemma aset_aset [simp, array_simps]: "aset (aset xs i v) i w = aset xs i w"
  by (simp add: aset_def)

lemma aset_id [simp]: "aset xs i (aget xs i) = xs"
  by (simp add: aset_def aget_def)

lemma aset_swap: "0 \<le> i \<Longrightarrow> 0 \<le> j \<Longrightarrow> i \<noteq> j \<Longrightarrow> aset (aset xs i v) j w = aset (aset xs j w) i v"
  by (simp add: aset_def list_update_swap)

declare c_search.simps [simp del]

lemma c_search_hit: "i < n \<Longrightarrow> P i \<Longrightarrow> c_search P i n = i"
  by (simp add: c_search.simps)

lemma c_search_miss: "i < n \<Longrightarrow> \<not> P i \<Longrightarrow> c_search P i n = c_search P (i + 1) n"
  by (subst c_search.simps) simp

lemma c_search_end [simp]: "n \<le> i \<Longrightarrow> c_search P i n = -1"
  by (simp add: c_search.simps)

lemma c_search_cases [case_names none found]:
  obtains "c_search P i n = -1" "\<And>j. i \<le> j \<Longrightarrow> j < n \<Longrightarrow> \<not> P j"
  | k where "c_search P i n = k" "i \<le> k" "k < n" "P k" "\<And>j. i \<le> j \<Longrightarrow> j < k \<Longrightarrow> \<not> P j"
proof (induction P i n arbitrary: thesis rule: c_search.induct)
  case (1 P i n)
  consider "n \<le> i" | "i < n" "P i" | "i < n" "\<not> P i" by linarith
  then show ?case
  proof cases
    case 1
    then show ?thesis by (intro "1.prems"(1)) simp_all
  next
    case 2
    then show ?thesis by (intro "1.prems"(2) [of i]) (simp_all add: c_search_hit)
  next
    case 3
    note eq = c_search_miss [of i n P, OF 3]
    have first: "\<not> P j" if "i \<le> j" "i + 1 \<le> j \<Longrightarrow> \<not> P j" for j
      using that 3 by (cases "j = i") simp_all
    show ?thesis
    proof (rule "1.IH" [OF 3])
      assume none: "c_search P (i + 1) n = - 1" "\<And>j. i + 1 \<le> j \<Longrightarrow> j < n \<Longrightarrow> \<not> P j"
      show thesis by (rule "1.prems"(1)) (use none eq in \<open>auto dest: first\<close>)
    next
      fix k
      assume found: "c_search P (i + 1) n = k" "i + 1 \<le> k" "k < n" "P k"
        "\<And>j. i + 1 \<le> j \<Longrightarrow> j < k \<Longrightarrow> \<not> P j"
      show thesis by (rule "1.prems"(2) [of k]) (use found eq in \<open>auto dest: first\<close>)
    qed
  qed
qed

lemma c_search_least:
  assumes "i \<le> k" "k < n" "P k" "\<And>j. i \<le> j \<Longrightarrow> j < k \<Longrightarrow> \<not> P j"
  shows "c_search P i n = k"
proof (cases rule: c_search_cases [of P i n])
  case none
  with assms(1-3) show ?thesis by blast
next
  case (found m)
  with assms show ?thesis by (metis linorder_less_linear)
qed

lemma c_search_none_iff:
  assumes "0 \<le> i"
  shows "c_search P i n < 0 \<longleftrightarrow> (\<forall>j. i \<le> j \<longrightarrow> j < n \<longrightarrow> \<not> P j)"
proof (cases rule: c_search_cases [of P i n])
  case (found k)
  then show ?thesis using assms by (metis linorder_not_less order_trans)
qed auto

lemma c_search_some:
  assumes "\<not> c_search P i n < 0"
  shows "i \<le> c_search P i n" "c_search P i n < n" "P (c_search P i n)"
    "\<And>j. i \<le> j \<Longrightarrow> j < c_search P i n \<Longrightarrow> \<not> P j"
  by (cases rule: c_search_cases [of P i n]; use assms in simp)+

lemma c_search_cong:
  assumes "\<And>j. i \<le> j \<Longrightarrow> j < n \<Longrightarrow> P j = Q j"
  shows "c_search P i n = c_search Q i n"
  using assms
proof (induction Q i n rule: c_search.induct)
  case (1 Q i n)
  consider "n \<le> i" | "i < n" "Q i" | "i < n" "\<not> Q i" by linarith
  then show ?case
  proof cases
    case 3
    then have "c_search P (i + 1) n = c_search Q (i + 1) n"
      using "1.IH" "1.prems" by simp
    with 3 "1.prems" show ?thesis by (simp add: c_search_miss)
  qed (use "1.prems" in \<open>simp_all add: c_search_hit\<close>)
qed

lemma c_search_list [case_names none found]:
  assumes "n = int (length xs)"
  obtains "c_search (\<lambda>i. P (aget xs i)) 0 n = -1" "\<And>x. x \<in> set xs \<Longrightarrow> \<not> P x"
  | k where "c_search (\<lambda>i. P (aget xs i)) 0 n = int k" "k < length xs" "P (xs ! k)"
      "\<And>j. j < k \<Longrightarrow> \<not> P (xs ! j)"
proof (cases rule: c_search_cases [of "\<lambda>i. P (aget xs i)" 0 n])
  case none
  have "\<not> P (xs ! i)" if "i < length xs" for i
    using none(2) [of "int i"] that assms by (simp add: aget_def)
  with none(1) show ?thesis by (intro that(1)) (auto simp: in_set_conv_nth)
next
  case (found k)
  have "\<not> P (xs ! j)" if "j < nat k" for j
    using found(5) [of "int j"] that by (simp add: aget_def)
  with found assms show ?thesis by (intro that(2) [of "nat k"]) (auto simp: aget_def)
qed

section \<open>Lemmas on block copies and rings\<close>

lemma length_blit [simp]: "off + length src \<le> length dst \<Longrightarrow> length (blit dst off src) = length dst"
  by (simp add: blit_def)

lemma take_blit: "off + length src \<le> length dst \<Longrightarrow> take (off + length src) (blit dst off src) = take off dst @ src"
  by (simp add: blit_def)

lemma take_blit_prefix: "k \<le> length xs \<Longrightarrow> take k (blit dst 0 (take k xs)) = take k xs"
  by (simp add: blit_def)

lemma drop_blit: "length src \<le> k \<Longrightarrow> drop k (blit dst 0 src) = drop k dst"
  by (simp add: blit_def)

lemma blit_nil [simp]: "blit dst off [] = dst"
  by (simp add: blit_def)

lemma length_window [simp]: "length (window xs h c) = c"
  by (simp add: window_def)

lemma window_empty [simp]: "window xs h 0 = []"
  by (simp add: window_def)

lemma nth_window: "k < c \<Longrightarrow> window xs h c ! k = xs ! ((h + k) mod length xs)"
  by (simp add: window_def)

lemma window_mod [simp]: "window xs (h mod length xs) c = window xs h c"
  by (simp add: window_def mod_add_left_eq)

lemma mod_offset_neq:
  fixes h k c n :: nat
  assumes "k < c" "c < n"
  shows "(h + k) mod n \<noteq> (h + c) mod n"
proof
  assume "(h + k) mod n = (h + c) mod n"
  then have "n dvd (h + c) - (h + k)"
    by (metis mod_eq_dvd_iff_nat le_add1 add_left_mono assms(1) less_imp_le_nat)
  then have "n dvd c - k" by simp
  with assms show False by (auto dest: dvd_imp_le)
qed

lemma ring_pop_tail: "((h + 1) mod n + (c - 1)) mod n = (h + c) mod (n :: int)"
  by (simp add: mod_add_left_eq)

lemma ring_succ_pred:
  fixes h n :: int
  assumes "0 \<le> h" "h < n"
  shows "((h + 1) mod n + n - 1) mod n = h"
proof -
  have "((h + 1) mod n + n - 1) mod n = ((h + 1) mod n + (n - 1)) mod n" by (simp add: algebra_simps)
  also have "\<dots> = (h + n) mod n" by (simp only: ring_pop_tail)
  finally show ?thesis using assms by simp
qed

lemma ring_push_tail: "((h + c) mod n + 1) mod n = (h + (c + 1)) mod (n :: int)"
  by (simp add: mod_add_left_eq add.assoc)

lemma ring_pred_tail: "((h + c) mod n - 1 + n) mod n = (h + (c - 1)) mod (n :: int)"
  by (simp add: mod_diff_left_eq add_diff_eq)

lemma window_push:
  assumes "c < length xs"
  shows "window (xs[(h + c) mod length xs := v]) h (Suc c) = window xs h c @ [v]"
proof -
  have "(h + c) mod length xs \<noteq> (h + k) mod length xs" if "k < c" for k
    using mod_offset_neq [OF that assms, of h] by simp
  moreover have "(h + c) mod length xs < length xs" using assms by (intro mod_less_divisor) linarith
  ultimately show ?thesis by (simp add: window_def)
qed

lemma window_Suc: "window xs h (Suc c) = window xs h c @ [xs ! ((h + c) mod length xs)]"
  by (simp add: window_def)

lemma window_update_free:
  assumes "c < length xs"
  shows "window (xs[(h + c) mod length xs := v]) h c = window xs h c"
proof -
  have "(h + c) mod length xs \<noteq> (h + k) mod length xs" if "k < c" for k
    using mod_offset_neq [OF that assms, of h] by simp
  then show ?thesis by (simp add: window_def)
qed

lemma window_pop: "window xs h (Suc c) = xs ! (h mod length xs) # window xs (Suc h) c"
  by (simp add: window_def upt_conv_Cons map_Suc_upt [symmetric] del: upt_Suc)

section \<open>Lemmas on words\<close>

lemma unat_bound32: "unat (w :: uint32) < 2 ^ 32"
proof -
  have "unat w < 2 ^ LENGTH(32)" by (rule unsigned_less)
  then show ?thesis by simp
qed

lemma unat_ucast_64 [simp]: "unat (ucast w :: uint64) = unat (w :: uint32)"
  using unat_bound32 [of w] by (simp add: unsigned_ucast_eq take_bit_nat_eq_self)

lemma unat_ucast_small: "unat (x :: uint64) < 2 ^ 32 \<Longrightarrow> unat (ucast x :: uint32) = unat x"
  by (simp add: unsigned_ucast_eq take_bit_nat_eq_self)

lemma sint_small:
  fixes w :: "'a :: len word"
  assumes "unat w < 2 ^ (LENGTH('a) - 1)"
  shows "sint w = int (unat w)"
proof -
  have u: "uint w = int (unat w)" by simp
  have lt: "int (unat w) < 2 ^ (LENGTH('a) - 1)" using assms by (metis of_nat_less_iff of_nat_numeral of_nat_power)
  have ge: "- (2 ^ (LENGTH('a) - 1)) \<le> int (unat w)"
    by (rule order_trans [of _ 0]) simp_all
  show ?thesis unfolding sint_uint u using signed_take_bit_int_eq_self [OF ge lt] by simp
qed

end
