(* ===== verification/Fifo.thy ===== *)
theory Fifo
  imports Prelude
begin

text \<open>
  Two interfaces for the queues of the program. \<open>bounded_fifo\<close> is what a client of a queue
  relies on: pushing fails exactly when the queue is full, popping exactly when it is empty,
  and what is popped is what was pushed first. \<open>ring_queue\<close> is what an array with a read index
  and a count promises; every ring queue is a bounded FIFO. The listener backlog of
  \<open>fdtable.c\<close>, the waiter ring of \<open>osal_lock.c\<close> and the descriptor ring of \<open>netdev_ring.c\<close>
  are interpretations of the second.
\<close>

section \<open>Runs of queue operations\<close>

datatype 'a fifo_op = Push 'a | Pop

text \<open>
  \<open>fifo_run push pop ops q\<close> performs \<open>ops\<close> on \<open>q\<close>, skipping those that fail, and returns the
  elements accepted, the elements delivered and the final queue.
\<close>

fun fifo_run ::
  "('a \<Rightarrow> 'q \<Rightarrow> 'q option) \<Rightarrow> ('q \<Rightarrow> ('a \<times> 'q) option) \<Rightarrow> 'a fifo_op list \<Rightarrow> 'q \<Rightarrow> 'a list \<times> 'a list \<times> 'q"
where
  "fifo_run push pop [] q = ([], [], q)"
| "fifo_run push pop (Push x # ops) q =
     (case push x q of
        None \<Rightarrow> fifo_run push pop ops q
      | Some q' \<Rightarrow> (case fifo_run push pop ops q' of (ins, outs, q'') \<Rightarrow> (x # ins, outs, q'')))"
| "fifo_run push pop (Pop # ops) q =
     (case pop q of
        None \<Rightarrow> fifo_run push pop ops q
      | Some (x, q') \<Rightarrow> (case fifo_run push pop ops q' of (ins, outs, q'') \<Rightarrow> (ins, x # outs, q'')))"

section \<open>The queue interface\<close>

locale bounded_fifo =
  fixes invar :: "'q \<Rightarrow> bool"
    and content :: "'q \<Rightarrow> 'a list"
    and capacity :: "'q \<Rightarrow> nat"
    and push :: "'a \<Rightarrow> 'q \<Rightarrow> 'q option"
    and pop :: "'q \<Rightarrow> ('a \<times> 'q) option"
  assumes content_le: "invar q \<Longrightarrow> length (content q) \<le> capacity q"
    and push_full: "invar q \<Longrightarrow> push x q = None \<longleftrightarrow> length (content q) = capacity q"
    and push_some: "invar q \<Longrightarrow> push x q = Some q' \<Longrightarrow>
      invar q' \<and> content q' = content q @ [x] \<and> capacity q' = capacity q"
    and pop_empty: "invar q \<Longrightarrow> pop q = None \<longleftrightarrow> content q = []"
    and pop_some: "invar q \<Longrightarrow> pop q = Some (x, q') \<Longrightarrow>
      invar q' \<and> content q = x # content q' \<and> capacity q' = capacity q"
begin

lemma run_fifo:
  assumes "invar q" "fifo_run push pop ops q = (ins, outs, q')"
  shows "invar q' \<and> content q @ ins = outs @ content q' \<and> capacity q' = capacity q"
  using assms
proof (induction ops arbitrary: q ins outs)
  case Nil
  then show ?case by simp
next
  case (Cons oper ops)
  show ?case
  proof (cases oper)
    case (Push x)
    show ?thesis
    proof (cases "push x q")
      case None
      with Cons Push show ?thesis by simp
    next
      case (Some q1)
      with Cons.prems Push obtain ins' where run: "fifo_run push pop ops q1 = (ins', outs, q')"
        and ins: "ins = x # ins'" by (auto split: prod.splits)
      from push_some [OF Cons.prems(1) Some] Cons.IH [OF _ run] ins show ?thesis by simp
    qed
  next
    case Pop
    show ?thesis
    proof (cases "pop q")
      case None
      with Cons Pop show ?thesis by simp
    next
      case (Some xq)
      then obtain x q1 where pop: "pop q = Some (x, q1)" by (cases xq) simp
      with Cons.prems Pop obtain outs' where run: "fifo_run push pop ops q1 = (ins, outs', q')"
        and outs: "outs = x # outs'" by (auto split: prod.splits)
      from pop_some [OF Cons.prems(1) pop] Cons.IH [OF _ run] outs show ?thesis by simp
    qed
  qed
qed

lemma delivered_in_order:
  assumes "invar q" "content q = []" "fifo_run push pop ops q = (ins, outs, q')"
  shows "outs = take (length outs) ins" "length ins \<le> length outs + capacity q"
proof -
  from run_fifo [OF assms(1,3)] assms(2)
  have eq: "ins = outs @ content q'" and inv: "invar q'" "capacity q' = capacity q" by auto
  show "outs = take (length outs) ins" by (simp add: eq)
  show "length ins \<le> length outs + capacity q"
    using content_le [OF inv(1)] inv(2) by (simp add: eq)
qed

end

section \<open>Rings\<close>

locale ring_queue =
  fixes invar :: "'q \<Rightarrow> bool"
    and slots :: "'q \<Rightarrow> 'a list"
    and rd :: "'q \<Rightarrow> nat"
    and used :: "'q \<Rightarrow> nat"
    and push :: "'a \<Rightarrow> 'q \<Rightarrow> 'q option"
    and pop :: "'q \<Rightarrow> ('a \<times> 'q) option"
  assumes used_le: "invar q \<Longrightarrow> used q \<le> length (slots q)"
    and ring_push_full: "invar q \<Longrightarrow> push x q = None \<longleftrightarrow> used q = length (slots q)"
    and ring_push_some: "invar q \<Longrightarrow> push x q = Some q' \<Longrightarrow>
      invar q' \<and> slots q' = (slots q)[(rd q + used q) mod length (slots q) := x] \<and>
      rd q' = rd q \<and> used q' = Suc (used q)"
    and ring_pop_empty: "invar q \<Longrightarrow> pop q = None \<longleftrightarrow> used q = 0"
    and ring_pop_some: "invar q \<Longrightarrow> pop q = Some (x, q') \<Longrightarrow>
      invar q' \<and> x = slots q ! (rd q mod length (slots q)) \<and> slots q' = slots q \<and>
      rd q' = Suc (rd q) mod length (slots q) \<and> used q = Suc (used q')"

sublocale ring_queue \<subseteq> fifo: bounded_fifo invar "\<lambda>q. window (slots q) (rd q) (used q)"
  "\<lambda>q. length (slots q)" push pop
proof (unfold_locales, goal_cases)
  case (1 q)
  then show ?case by (simp add: used_le)
next
  case (2 q x)
  then show ?case by (simp add: ring_push_full)
next
  case (3 q x q')
  from ring_push_some [OF 3] used_le have "used q < length (slots q)"
    by (metis "3"(1) Suc_le_eq length_list_update)
  with ring_push_some [OF 3] show ?case by (simp add: window_push)
next
  case (4 q)
  then show ?case
    by (metis length_0_conv length_window ring_pop_empty)
next
  case (5 q x q')
  from ring_pop_some [OF 5] show ?case
    by (simp add: window_pop)
qed

end
