(* ===== verification/Slots.thy ===== *)
theory Slots
  imports Prelude
begin

text \<open>
  The interface of a fixed table that keeps one slot per calling task, found by the task's
  address and filled on first use. The client's reply ports (\<open>ensure_reply_port\<close>,
  \<open>socket_ipc.c\<close>) and the timer requests (\<open>timer_slot_for_current_task\<close>, \<open>osal_timer.c\<close>) are
  such tables. What a caller needs is that its slot is its own and stays the same whatever
  other tasks do.
\<close>

abbreviation (input) TASK_SLOT_MAX :: int32 where "TASK_SLOT_MAX \<equiv> 16"

text \<open>Owners are distinct: no task has two slots.\<close>

definition owners_wf :: "ptr list \<Rightarrow> bool" where
  "owners_wf os \<longleftrightarrow> int (length os) = TASK_SLOT_MAX \<and> distinct (filter (\<lambda>p. p \<noteq> NULL) os)"

lemma owners_unique:
  assumes "owners_wf os" "i < length os" "j < length os" "os ! i = os ! j" "os ! i \<noteq> NULL"
  shows "i = j"
proof (rule ccontr)
  assume "i \<noteq> j"
  have "\<not> distinct (filter P xs)" if "i < j" "j < length xs" "xs ! i = xs ! j" "P (xs ! i)"
    for P i j and xs :: "ptr list"
  proof -
    have "filter P xs = filter P (take j xs) @ filter P (drop j xs)" by (simp flip: filter_append)
    moreover have "xs ! i \<in> set (take j xs)" using that by (auto simp: in_set_conv_nth)
    moreover have "drop j xs = xs ! j # drop (Suc j) xs" using that by (simp add: Cons_nth_drop_Suc)
    ultimately show ?thesis using that by auto
  qed
  from this [of i j os "\<lambda>p. p \<noteq> NULL"] this [of j i os "\<lambda>p. p \<noteq> NULL"]
  show False using \<open>i \<noteq> j\<close> assms by (auto simp: owners_wf_def neq_iff)
qed

lemma filter_update_fresh:
  assumes "i < length xs" "xs ! i = NULL" "v \<notin> set xs" "distinct (filter (\<lambda>p. p \<noteq> NULL) xs)"
  shows "distinct (filter (\<lambda>p. p \<noteq> NULL) (xs[i := v]))"
proof -
  have "xs = take i xs @ NULL # drop (Suc i) xs" using assms(1,2) by (metis id_take_nth_drop)
  then obtain a b where xs: "xs = a @ NULL # b" and i: "length a = i" using assms(1) by force
  from assms(3,4) show ?thesis by (auto simp: xs list_update_append simp flip: i)
qed

locale task_slots =
  fixes ensure :: "'env \<Rightarrow> ptr \<Rightarrow> 'slot list \<Rightarrow> 'res \<times> 'slot list"
    and owner :: "'slot \<Rightarrow> ptr"
    and result :: "nat \<Rightarrow> 'slot \<Rightarrow> 'res"
    and failed :: 'res
  assumes hit: "owners_wf (map owner ts) \<Longrightarrow> me \<noteq> NULL \<Longrightarrow> i < length ts \<Longrightarrow> owner (ts ! i) = me \<Longrightarrow>
      ensure env me ts = (result i (ts ! i), ts)"
    and miss: "owners_wf (map owner ts) \<Longrightarrow> me \<noteq> NULL \<Longrightarrow> me \<notin> owner ` set ts \<Longrightarrow>
      ensure env me ts = (r, ts') \<Longrightarrow>
      (r = failed \<and> map owner ts' = map owner ts \<and>
         (\<forall>i < length ts. owner (ts ! i) \<noteq> NULL \<longrightarrow> ts' ! i = ts ! i)) \<or>
      (\<exists>i s. i < length ts \<and> owner (ts ! i) = NULL \<and> owner s = me \<and> ts' = ts[i := s] \<and> r = result i s)"
    and full: "owners_wf (map owner ts) \<Longrightarrow> me \<noteq> NULL \<Longrightarrow> me \<notin> owner ` set ts \<Longrightarrow>
      NULL \<notin> owner ` set ts \<Longrightarrow> ensure env me ts = (failed, ts)"
begin

lemma slot_index_unique:
  assumes "owners_wf (map owner ts)" "i < length ts" "j < length ts"
    "owner (ts ! i) = owner (ts ! j)" "owner (ts ! i) \<noteq> NULL"
  shows "i = j"
  using owners_unique [of "map owner ts" i j] assms by simp

lemma ensure_wf:
  assumes wf: "owners_wf (map owner ts)" and me: "me \<noteq> NULL" and e: "ensure env me ts = (r, ts')"
  shows "owners_wf (map owner ts')"
proof (cases "me \<in> owner ` set ts")
  case True
  then obtain i where "i < length ts" "owner (ts ! i) = me" by (auto simp: in_set_conv_nth)
  with hit [OF wf me] e wf show ?thesis by simp
next
  case False
  from miss [OF wf me False e] wf False show ?thesis
    by (auto simp: owners_wf_def map_update intro!: filter_update_fresh dest: map_eq_imp_length_eq)
qed

text \<open>A slot that has an owner is never touched again, whoever calls.\<close>

lemma ensure_keeps:
  assumes wf: "owners_wf (map owner ts)" and me: "me \<noteq> NULL" and e: "ensure env me ts = (r, ts')"
    and i: "i < length ts" "owner (ts ! i) \<noteq> NULL"
  shows "length ts' = length ts" "ts' ! i = ts ! i"
proof -
  have "length ts' = length ts \<and> ts' ! i = ts ! i"
  proof (cases "me \<in> owner ` set ts")
    case True
    then obtain j where "j < length ts" "owner (ts ! j) = me" by (auto simp: in_set_conv_nth)
    with hit [OF wf me] e show ?thesis by simp
  next
    case False
    from miss [OF wf me False e] i show ?thesis
      by (auto simp: nth_list_update dest: arg_cong [of _ _ length])
  qed
  then show "length ts' = length ts" "ts' ! i = ts ! i" by simp_all
qed

text \<open>Any sequence of calls by any tasks: a task that has its slot gets the same answer again.\<close>

fun ensure_run :: "('env \<times> ptr) list \<Rightarrow> 'slot list \<Rightarrow> 'slot list" where
  "ensure_run [] ts = ts"
| "ensure_run ((env, me) # calls) ts = ensure_run calls (snd (ensure env me ts))"

lemma run_keeps:
  assumes "owners_wf (map owner ts)" "list_all (\<lambda>c. snd c \<noteq> NULL) calls"
    "i < length ts" "owner (ts ! i) \<noteq> NULL"
  shows "owners_wf (map owner (ensure_run calls ts)) \<and> length (ensure_run calls ts) = length ts \<and>
    ensure_run calls ts ! i = ts ! i"
  using assms
proof (induction calls arbitrary: ts)
  case (Cons c calls)
  obtain env me where c: "c = (env, me)" by (cases c)
  obtain r ts' where e: "ensure env me ts = (r, ts')" by fastforce
  have me: "me \<noteq> NULL" using Cons.prems(2) c by simp
  note keep = ensure_keeps [OF Cons.prems(1) me e Cons.prems(3,4)]
  from Cons.IH [of ts'] keep ensure_wf [OF Cons.prems(1) me e] Cons.prems c e show ?case by simp
qed simp

lemma same_answer:
  assumes wf: "owners_wf (map owner ts)" and me: "me \<noteq> NULL"
    and e: "ensure env me ts = (r, ts1)" and ok: "me \<in> owner ` set ts1"
    and calls: "list_all (\<lambda>c. snd c \<noteq> NULL) calls"
  shows "ensure env' me (ensure_run calls ts1) = (r, ensure_run calls ts1)"
proof -
  note wf1 = ensure_wf [OF wf me e]
  from ok obtain i where i: "i < length ts1" "owner (ts1 ! i) = me" by (auto simp: in_set_conv_nth)
  have r: "r = result i (ts1 ! i)"
  proof (cases "me \<in> owner ` set ts")
    case True
    then obtain j where j: "j < length ts" "owner (ts ! j) = me" by (auto simp: in_set_conv_nth)
    with hit [OF wf me j] e i slot_index_unique [OF wf] me show ?thesis by auto
  next
    case False
    from miss [OF wf me False e] show ?thesis
    proof (elim disjE exE conjE)
      assume "map owner ts1 = map owner ts"
      with ok False show ?thesis by (metis image_set)
    next
      fix j s assume j: "j < length ts" "owner s = me" "ts1 = ts[j := s]" "r = result j s"
      then have "i = j" using slot_index_unique [OF wf1, of i j] i me by auto
      with j show ?thesis by simp
    qed
  qed
  from run_keeps [OF wf1 calls i(1)] i me hit [OF _ me, of "ensure_run calls ts1" i] r
  show ?thesis by simp
qed

end

end
