(* ===== verification/Ipc.thy ===== *)
theory Ipc
  imports Prelude
begin

text \<open>
  The request message between clients and \<open>netstack.process\<close>
  (\<open>include/netstack/netstack_ipc.h\<close>): the operation codes, the error codes and
  \<open>struct NetstackReq\<close>.

  The C struct holds one member of a union per operation. The model keeps the members
  apart, as fields \<open>u_ping\<close>, \<open>u_socket\<close>, \<dots> of the request: every handler and every client
  wrapper reads and writes only the member that belongs to the operation code, so no code of
  the repository observes one member through another. Of \<open>struct Message\<close> the reply port is
  kept; the node type and the length are constants no code reads.
\<close>

abbreviation (input) NETSTACK_OP_PING :: uint16 where "NETSTACK_OP_PING \<equiv> 0x0001"
abbreviation (input) NETSTACK_OP_SHUTDOWN :: uint16 where "NETSTACK_OP_SHUTDOWN \<equiv> 0x0002"
abbreviation (input) NETSTACK_OP_SOCKET :: uint16 where "NETSTACK_OP_SOCKET \<equiv> 0x0100"
abbreviation (input) NETSTACK_OP_BIND :: uint16 where "NETSTACK_OP_BIND \<equiv> 0x0101"
abbreviation (input) NETSTACK_OP_CONNECT :: uint16 where "NETSTACK_OP_CONNECT \<equiv> 0x0102"
abbreviation (input) NETSTACK_OP_LISTEN :: uint16 where "NETSTACK_OP_LISTEN \<equiv> 0x0103"
abbreviation (input) NETSTACK_OP_ACCEPT :: uint16 where "NETSTACK_OP_ACCEPT \<equiv> 0x0104"
abbreviation (input) NETSTACK_OP_SEND :: uint16 where "NETSTACK_OP_SEND \<equiv> 0x0105"
abbreviation (input) NETSTACK_OP_RECV :: uint16 where "NETSTACK_OP_RECV \<equiv> 0x0106"
abbreviation (input) NETSTACK_OP_CLOSE :: uint16 where "NETSTACK_OP_CLOSE \<equiv> 0x0107"

abbreviation (input) NETSTACK_OK :: int32 where "NETSTACK_OK \<equiv> 0"
abbreviation (input) NETSTACK_ENOSYS :: int32 where "NETSTACK_ENOSYS \<equiv> -38"
abbreviation (input) NETSTACK_EBADF :: int32 where "NETSTACK_EBADF \<equiv> -9"
abbreviation (input) NETSTACK_EAGAIN :: int32 where "NETSTACK_EAGAIN \<equiv> -11"
abbreviation (input) NETSTACK_EINVAL :: int32 where "NETSTACK_EINVAL \<equiv> -22"
abbreviation (input) NETSTACK_EADDRINUSE :: int32 where "NETSTACK_EADDRINUSE \<equiv> -48"
abbreviation (input) NETSTACK_ECONNREFUSED :: int32 where "NETSTACK_ECONNREFUSED \<equiv> -61"
abbreviation (input) NETSTACK_ENOTCONN :: int32 where "NETSTACK_ENOTCONN \<equiv> -57"
abbreviation (input) NETSTACK_EMSGSIZE :: int32 where "NETSTACK_EMSGSIZE \<equiv> -40"
abbreviation (input) EMFILE :: int32 where "EMFILE \<equiv> -24"

abbreviation (input) NETSTACK_MAX_PAYLOAD :: int32 where "NETSTACK_MAX_PAYLOAD \<equiv> 1024"

record ping_args =
  ping_seq :: uint32
  ping_payload :: uint32

record socket_args =
  socket_domain :: int32
  socket_type :: int32
  socket_proto :: int32
  socket_sock :: int32

record close_args =
  close_sock :: int32

record bind_args =
  bind_sock :: int32
  bind_port :: uint16

record listen_args =
  listen_sock :: int32
  listen_backlog :: int32

record connect_args =
  connect_sock :: int32
  connect_port :: uint16

record accept_args =
  accept_sock :: int32
  accept_new_sock :: int32
  accept_peer_port :: uint16

record send_args =
  send_sock :: int32
  send_len_in :: int32
  send_len_out :: int32
  send_data :: "uint8 list"

record recv_args =
  recv_sock :: int32
  recv_len_in :: int32
  recv_len_out :: int32
  recv_data :: "uint8 list"

record NetstackReq =
  mn_ReplyPort :: ptr
  op :: uint16
  err :: int32
  u_ping :: ping_args
  u_socket :: socket_args
  u_close :: close_args
  u_bind :: bind_args
  u_listen :: listen_args
  u_connect :: connect_args
  u_accept :: accept_args
  u_send :: send_args
  u_recv :: recv_args

text \<open>\<open>struct NetstackReq req = {0};\<close>\<close>

definition zero_payload :: "uint8 list" where
  "zero_payload = replicate (nat NETSTACK_MAX_PAYLOAD) 0"

definition req_zero :: NetstackReq where
  "req_zero =
     \<lparr>mn_ReplyPort = NULL, op = 0, err = 0,
      u_ping = \<lparr>ping_seq = 0, ping_payload = 0\<rparr>,
      u_socket = \<lparr>socket_domain = 0, socket_type = 0, socket_proto = 0, socket_sock = 0\<rparr>,
      u_close = \<lparr>close_sock = 0\<rparr>,
      u_bind = \<lparr>bind_sock = 0, bind_port = 0\<rparr>,
      u_listen = \<lparr>listen_sock = 0, listen_backlog = 0\<rparr>,
      u_connect = \<lparr>connect_sock = 0, connect_port = 0\<rparr>,
      u_accept = \<lparr>accept_sock = 0, accept_new_sock = 0, accept_peer_port = 0\<rparr>,
      u_send = \<lparr>send_sock = 0, send_len_in = 0, send_len_out = 0, send_data = zero_payload\<rparr>,
      u_recv = \<lparr>recv_sock = 0, recv_len_in = 0, recv_len_out = 0, recv_data = zero_payload\<rparr>\<rparr>"

text \<open>The data arrays of a request have the size the struct declares.\<close>

definition req_wf :: "NetstackReq \<Rightarrow> bool" where
  "req_wf r \<longleftrightarrow> int (length (send_data (u_send r))) = NETSTACK_MAX_PAYLOAD \<and>
                int (length (recv_data (u_recv r))) = NETSTACK_MAX_PAYLOAD"

lemma length_zero_payload [simp]: "length zero_payload = 1024"
  by (simp add: zero_payload_def)

lemma req_wf_zero [simp]: "req_wf req_zero"
  by (simp add: req_wf_def req_zero_def)

end
