(* ===== verification/FdTable.thy ===== *)
theory FdTable
  imports Ipc Fifo
begin

text \<open>
  The engine-side descriptor table and in-memory socket layer
  (\<open>src/phase2_engine/fdtable.c\<close>). A \<open>fd_entry\<close> is \<open>struct fd_entry\<close>, the table is the array
  \<open>g_fdtable\<close>, and each \<open>fdtable_dispatch_*\<close> is the C handler of that name: it takes the table
  and the request and returns both as the handler leaves them. Pieces of a handler that
  another theory refers to (queueing on a listener's backlog, the receive queue) are
  definitions of their own, called where the handler has them inline.
\<close>

abbreviation (input) FDTABLE_MAX :: int32 where "FDTABLE_MAX \<equiv> 128"
abbreviation (input) FD_FIRST :: int32 where "FD_FIRST \<equiv> 3"
abbreviation (input) BACKLOG_MAX :: int32 where "BACKLOG_MAX \<equiv> 4"
abbreviation (input) RXBUF_SIZE :: int32 where "RXBUF_SIZE \<equiv> 4096"

datatype fd_kind = FD_FREE | FD_SOCKET_UNBOUND | FD_SOCKET_LISTEN | FD_SOCKET_CONNECTED

record fd_entry =
  kind :: fd_kind
  domain :: int32
  type :: int32
  proto :: int32
  local_port :: uint16
  backlog :: "int32 list"
  backlog_head :: int32
  backlog_tail :: int32
  backlog_count :: int32
  peer_fd :: int32
  peer_port :: uint16
  rx :: "uint8 list"
  rx_head :: int32
  rx_tail :: int32

type_synonym fdtable = "fd_entry list"

text \<open>An entry of all zero bytes: static storage at start-up, and what \<open>memset\<close> leaves.\<close>

definition fd_entry_zero :: fd_entry where
  "fd_entry_zero =
     \<lparr>kind = FD_FREE, domain = 0, type = 0, proto = 0, local_port = 0,
      backlog = replicate (nat BACKLOG_MAX) 0, backlog_head = 0, backlog_tail = 0, backlog_count = 0,
      peer_fd = 0, peer_port = 0, rx = replicate (nat RXBUF_SIZE) 0, rx_head = 0, rx_tail = 0\<rparr>"

definition g_fdtable_init :: fdtable where
  "g_fdtable_init = replicate (nat FDTABLE_MAX) fd_entry_zero"

section \<open>Helpers\<close>

definition alloc_fd :: "fdtable \<Rightarrow> int \<times> fdtable" where
  "alloc_fd t =
     (let i = c_search (\<lambda>i. kind (aget t i) = FD_FREE) FD_FIRST FDTABLE_MAX in
      if i < 0 then (-1, t) else (i, aset t i (fd_entry_zero\<lparr>peer_fd := -1\<rparr>)))"

definition fd_valid :: "fdtable \<Rightarrow> int \<Rightarrow> bool" where
  "fd_valid t fd \<longleftrightarrow> FD_FIRST \<le> fd \<and> fd < FDTABLE_MAX \<and> kind (aget t fd) \<noteq> FD_FREE"

definition find_listener :: "fdtable \<Rightarrow> uint16 \<Rightarrow> int" where
  "find_listener t port =
     c_search (\<lambda>i. kind (aget t i) = FD_SOCKET_LISTEN \<and> local_port (aget t i) = port)
       FD_FIRST FDTABLE_MAX"

definition port_in_use :: "fdtable \<Rightarrow> uint16 \<Rightarrow> bool" where
  "port_in_use t port \<longleftrightarrow>
     0 \<le> c_search (\<lambda>i. (kind (aget t i) = FD_SOCKET_LISTEN \<or> kind (aget t i) = FD_SOCKET_CONNECTED) \<and>
                       local_port (aget t i) = port) FD_FIRST FDTABLE_MAX"

definition rx_compact :: "fd_entry \<Rightarrow> fd_entry" where
  "rx_compact e =
     (if rx_head e = 0 then e
      else
        let live = rx_tail e - rx_head e;
            e1 = (if live > 0
                  then e\<lparr>rx := blit (rx e) 0 (take (nat live) (drop (nat (rx_head e)) (rx e)))\<rparr>
                  else e)
        in e1\<lparr>rx_tail := live, rx_head := 0\<rparr>)"

text \<open>Queueing \<open>fd\<close> on a listener's backlog, taking its oldest entry, and putting one back.\<close>

definition backlog_push :: "int32 \<Rightarrow> fd_entry \<Rightarrow> fd_entry" where
  "backlog_push fd lst =
     lst\<lparr>backlog := aset (backlog lst) (backlog_tail lst) fd,
         backlog_tail := (backlog_tail lst + 1) mod BACKLOG_MAX,
         backlog_count := backlog_count lst + 1\<rparr>"

definition backlog_pop :: "fd_entry \<Rightarrow> int32 \<times> fd_entry" where
  "backlog_pop lst =
     (aget (backlog lst) (backlog_head lst),
      lst\<lparr>backlog_head := (backlog_head lst + 1) mod BACKLOG_MAX,
          backlog_count := backlog_count lst - 1\<rparr>)"

definition backlog_unpop :: "int32 \<Rightarrow> fd_entry \<Rightarrow> fd_entry" where
  "backlog_unpop client_fd lst =
     (let h = (backlog_head lst + BACKLOG_MAX - 1) mod BACKLOG_MAX in
      lst\<lparr>backlog_head := h,
          backlog := aset (backlog lst) h client_fd,
          backlog_count := backlog_count lst + 1\<rparr>)"

text \<open>Appending bytes behind \<open>rx_tail\<close>, and reading them from \<open>rx_head\<close>.\<close>

definition rx_append :: "uint8 list \<Rightarrow> fd_entry \<Rightarrow> fd_entry" where
  "rx_append bs pe =
     pe\<lparr>rx := blit (rx pe) (nat (rx_tail pe)) bs, rx_tail := rx_tail pe + int (length bs)\<rparr>"

definition rx_consume :: "int32 \<Rightarrow> fd_entry \<Rightarrow> uint8 list \<times> fd_entry" where
  "rx_consume to_read e =
     (let bs = take (nat to_read) (drop (nat (rx_head e)) (rx e));
          e1 = e\<lparr>rx_head := rx_head e + to_read\<rparr>;
          e2 = (if rx_head e1 = rx_tail e1 then e1\<lparr>rx_head := 0, rx_tail := 0\<rparr> else e1)
      in (bs, e2))"

text \<open>How many bytes a read of \<open>len_in\<close> takes when \<open>avail\<close> are there.\<close>

definition recv_count :: "int32 \<Rightarrow> int32 \<Rightarrow> int32" where
  "recv_count len_in avail =
     (let want0 = (if len_in < 0 then 0 else len_in);
          want = (if want0 > NETSTACK_MAX_PAYLOAD then NETSTACK_MAX_PAYLOAD else want0)
      in if avail < want then avail else want)"

section \<open>Dispatchers\<close>

definition fdtable_dispatch_socket :: "fdtable \<Rightarrow> NetstackReq \<Rightarrow> fdtable \<times> NetstackReq" where
  "fdtable_dispatch_socket t r =
     (let (fd, t1) = alloc_fd t in
      if fd < 0 then (t1, r\<lparr>err := EMFILE, u_socket := (u_socket r)\<lparr>socket_sock := -1\<rparr>\<rparr>)
      else
        (aset t1 fd ((aget t1 fd)\<lparr>kind := FD_SOCKET_UNBOUND,
                                  domain := socket_domain (u_socket r),
                                  type := socket_type (u_socket r),
                                  proto := socket_proto (u_socket r)\<rparr>),
         r\<lparr>u_socket := (u_socket r)\<lparr>socket_sock := fd\<rparr>, err := NETSTACK_OK\<rparr>))"

text \<open>What a close tells the other end: its \<open>peer_fd\<close> is cleared.\<close>

definition notify_peer :: "fdtable \<Rightarrow> int32 \<Rightarrow> fdtable" where
  "notify_peer t fd =
     (if kind (aget t fd) = FD_SOCKET_CONNECTED
      then let peer = peer_fd (aget t fd) in
           if peer \<ge> 0 \<and> fd_valid t peer then aset t peer ((aget t peer)\<lparr>peer_fd := -1\<rparr>) else t
      else t)"

definition fdtable_dispatch_close :: "fdtable \<Rightarrow> NetstackReq \<Rightarrow> fdtable \<times> NetstackReq" where
  "fdtable_dispatch_close t r =
     (let fd = close_sock (u_close r) in
      if \<not> fd_valid t fd then (t, r\<lparr>err := NETSTACK_EBADF\<rparr>)
      else
        (aset (notify_peer t fd) fd (fd_entry_zero\<lparr>peer_fd := -1\<rparr>), r\<lparr>err := NETSTACK_OK\<rparr>))"

definition fdtable_dispatch_bind :: "fdtable \<Rightarrow> NetstackReq \<Rightarrow> fdtable \<times> NetstackReq" where
  "fdtable_dispatch_bind t r =
     (let fd = bind_sock (u_bind r) in
      if \<not> fd_valid t fd then (t, r\<lparr>err := NETSTACK_EBADF\<rparr>)
      else if kind (aget t fd) \<noteq> FD_SOCKET_UNBOUND then (t, r\<lparr>err := NETSTACK_EINVAL\<rparr>)
      else if port_in_use t (bind_port (u_bind r)) then (t, r\<lparr>err := NETSTACK_EADDRINUSE\<rparr>)
      else (aset t fd ((aget t fd)\<lparr>local_port := bind_port (u_bind r)\<rparr>), r\<lparr>err := NETSTACK_OK\<rparr>))"

definition fdtable_dispatch_listen :: "fdtable \<Rightarrow> NetstackReq \<Rightarrow> fdtable \<times> NetstackReq" where
  "fdtable_dispatch_listen t r =
     (let fd = listen_sock (u_listen r) in
      if \<not> fd_valid t fd then (t, r\<lparr>err := NETSTACK_EBADF\<rparr>)
      else if kind (aget t fd) \<noteq> FD_SOCKET_UNBOUND \<or> local_port (aget t fd) = 0
      then (t, r\<lparr>err := NETSTACK_EINVAL\<rparr>)
      else (aset t fd ((aget t fd)\<lparr>kind := FD_SOCKET_LISTEN, backlog_head := 0,
                                   backlog_tail := 0, backlog_count := 0\<rparr>),
            r\<lparr>err := NETSTACK_OK\<rparr>))"

definition fdtable_dispatch_connect :: "fdtable \<Rightarrow> NetstackReq \<Rightarrow> fdtable \<times> NetstackReq" where
  "fdtable_dispatch_connect t r =
     (let fd = connect_sock (u_connect r) in
      if \<not> fd_valid t fd then (t, r\<lparr>err := NETSTACK_EBADF\<rparr>)
      else if kind (aget t fd) \<noteq> FD_SOCKET_UNBOUND then (t, r\<lparr>err := NETSTACK_EINVAL\<rparr>)
      else
        let lfd = find_listener t (connect_port (u_connect r)) in
        if lfd < 0 then (t, r\<lparr>err := NETSTACK_ECONNREFUSED\<rparr>)
        else if backlog_count (aget t lfd) \<ge> BACKLOG_MAX then (t, r\<lparr>err := NETSTACK_EAGAIN\<rparr>)
        else
          let t1 = aset t fd ((aget t fd)\<lparr>kind := FD_SOCKET_CONNECTED, peer_fd := -1,
                                          peer_port := connect_port (u_connect r)\<rparr>)
          in (aset t1 lfd (backlog_push fd (aget t1 lfd)), r\<lparr>err := NETSTACK_OK\<rparr>))"

definition fdtable_dispatch_accept :: "fdtable \<Rightarrow> NetstackReq \<Rightarrow> fdtable \<times> NetstackReq" where
  "fdtable_dispatch_accept t r =
     (let fd = accept_sock (u_accept r) in
      if \<not> fd_valid t fd then (t, r\<lparr>err := NETSTACK_EBADF\<rparr>)
      else if kind (aget t fd) \<noteq> FD_SOCKET_LISTEN then (t, r\<lparr>err := NETSTACK_EINVAL\<rparr>)
      else if backlog_count (aget t fd) = 0
      then (t, r\<lparr>err := NETSTACK_EAGAIN, u_accept := (u_accept r)\<lparr>accept_new_sock := -1\<rparr>\<rparr>)
      else
        let (client_fd, lst) = backlog_pop (aget t fd);
            t1 = aset t fd lst;
            (new_fd, t2) = alloc_fd t1
        in
        if new_fd < 0
        then (aset t2 fd (backlog_unpop client_fd (aget t2 fd)),
              r\<lparr>err := EMFILE, u_accept := (u_accept r)\<lparr>accept_new_sock := -1\<rparr>\<rparr>)
        else
          let t3 = aset t2 new_fd ((aget t2 new_fd)\<lparr>kind := FD_SOCKET_CONNECTED,
                     domain := domain (aget t2 fd), type := type (aget t2 fd),
                     proto := proto (aget t2 fd), local_port := local_port (aget t2 fd),
                     peer_fd := client_fd, peer_port := 0\<rparr>);
              t4 = aset t3 client_fd ((aget t3 client_fd)\<lparr>peer_fd := new_fd\<rparr>)
          in (t4, r\<lparr>u_accept := (u_accept r)\<lparr>accept_new_sock := new_fd,
                                            accept_peer_port := local_port (aget t4 fd)\<rparr>,
                    err := NETSTACK_OK\<rparr>))"

definition fdtable_dispatch_send :: "fdtable \<Rightarrow> NetstackReq \<Rightarrow> fdtable \<times> NetstackReq" where
  "fdtable_dispatch_send t r =
     (let fd = send_sock (u_send r) in
      if \<not> fd_valid t fd then (t, r\<lparr>err := NETSTACK_EBADF\<rparr>)
      else if kind (aget t fd) \<noteq> FD_SOCKET_CONNECTED \<or> peer_fd (aget t fd) < 0
      then (t, r\<lparr>err := NETSTACK_ENOTCONN\<rparr>)
      else
        let peer = peer_fd (aget t fd) in
        if \<not> fd_valid t peer then (t, r\<lparr>err := NETSTACK_ENOTCONN\<rparr>)
        else
          let len = send_len_in (u_send r) in
          if len < 0 \<or> len > NETSTACK_MAX_PAYLOAD then (t, r\<lparr>err := NETSTACK_EMSGSIZE\<rparr>)
          else
            let pe = rx_compact (aget t peer);
                room = RXBUF_SIZE - rx_tail pe
            in
            if room \<le> 0
            then (aset t peer pe,
                  r\<lparr>err := NETSTACK_EAGAIN, u_send := (u_send r)\<lparr>send_len_out := 0\<rparr>\<rparr>)
            else
              let to_write = (if len < room then len else room) in
              (aset t peer (rx_append (take (nat to_write) (send_data (u_send r))) pe),
               r\<lparr>u_send := (u_send r)\<lparr>send_len_out := to_write\<rparr>, err := NETSTACK_OK\<rparr>))"

definition fdtable_dispatch_recv :: "fdtable \<Rightarrow> NetstackReq \<Rightarrow> fdtable \<times> NetstackReq" where
  "fdtable_dispatch_recv t r =
     (let fd = recv_sock (u_recv r) in
      if \<not> fd_valid t fd then (t, r\<lparr>err := NETSTACK_EBADF\<rparr>)
      else if kind (aget t fd) \<noteq> FD_SOCKET_CONNECTED then (t, r\<lparr>err := NETSTACK_ENOTCONN\<rparr>)
      else
        let e = aget t fd;
            avail = rx_tail e - rx_head e
        in
        if avail \<le> 0 then
          (if peer_fd e < 0 \<or> \<not> fd_valid t (peer_fd e)
           then (t, r\<lparr>u_recv := (u_recv r)\<lparr>recv_len_out := 0\<rparr>, err := NETSTACK_OK\<rparr>)
           else (t, r\<lparr>err := NETSTACK_EAGAIN, u_recv := (u_recv r)\<lparr>recv_len_out := 0\<rparr>\<rparr>))
        else
          let to_read = recv_count (recv_len_in (u_recv r)) avail;
              (bs, e') = rx_consume to_read e
          in (aset t fd e',
              r\<lparr>u_recv := (u_recv r)\<lparr>recv_data := blit (recv_data (u_recv r)) 0 bs,
                                      recv_len_out := to_read\<rparr>,
                err := NETSTACK_OK\<rparr>))"

end
