(* ===== verification/FdInv.thy ===== *)
theory FdInv
  imports FdTable
begin

text \<open>
  The well-formedness invariant of the descriptor table: every array has its declared size,
  every index a handler uses stays inside its array, the backlog indices agree with the
  count, and the receive queue's head does not pass its tail. The listener backlog is
  interpreted as a ring queue here.
\<close>

definition backlog_wf :: "fd_entry \<Rightarrow> bool" where
  "backlog_wf e \<longleftrightarrow>
     int (length (backlog e)) = BACKLOG_MAX \<and>
     0 \<le> backlog_head e \<and> backlog_head e < BACKLOG_MAX \<and>
     0 \<le> backlog_count e \<and> backlog_count e \<le> BACKLOG_MAX \<and>
     backlog_tail e = (backlog_head e + backlog_count e) mod BACKLOG_MAX"

definition rx_wf :: "fd_entry \<Rightarrow> bool" where
  "rx_wf e \<longleftrightarrow>
     int (length (rx e)) = RXBUF_SIZE \<and>
     0 \<le> rx_head e \<and> rx_head e \<le> rx_tail e \<and> rx_tail e \<le> RXBUF_SIZE"

text \<open>The descriptors waiting on a backlog, oldest first, and the unread bytes.\<close>

definition pending :: "fd_entry \<Rightarrow> int32 list" where
  "pending e = window (backlog e) (nat (backlog_head e)) (nat (backlog_count e))"

definition rx_bytes :: "fd_entry \<Rightarrow> uint8 list" where
  "rx_bytes e = take (nat (rx_tail e - rx_head e)) (drop (nat (rx_head e)) (rx e))"

definition fd_in_range :: "int32 \<Rightarrow> bool" where
  "fd_in_range fd \<longleftrightarrow> FD_FIRST \<le> fd \<and> fd < FDTABLE_MAX"

definition entry_wf :: "fd_entry \<Rightarrow> bool" where
  "entry_wf e \<longleftrightarrow>
     backlog_wf e \<and> rx_wf e \<and> list_all fd_in_range (pending e) \<and>
     (kind e = FD_SOCKET_CONNECTED \<longrightarrow> peer_fd e = -1 \<or> fd_in_range (peer_fd e))"

definition fdtable_wf :: "fdtable \<Rightarrow> bool" where
  "fdtable_wf t \<longleftrightarrow> int (length t) = FDTABLE_MAX \<and> list_all entry_wf t"

text \<open>The backlog as a queue that can refuse: the guards of connect and accept.\<close>

definition backlog_offer :: "int32 \<Rightarrow> fd_entry \<Rightarrow> fd_entry option" where
  "backlog_offer fd lst =
     (if backlog_count lst \<ge> BACKLOG_MAX then None else Some (backlog_push fd lst))"

definition backlog_take :: "fd_entry \<Rightarrow> (int32 \<times> fd_entry) option" where
  "backlog_take lst = (if backlog_count lst = 0 then None else Some (backlog_pop lst))"

section \<open>The backlog is a ring queue\<close>

lemma backlog_wf_push:
  "backlog_wf e \<Longrightarrow> backlog_count e < BACKLOG_MAX \<Longrightarrow> backlog_wf (backlog_push fd e)"
  by (auto simp: backlog_wf_def backlog_push_def ring_push_tail)

lemma backlog_wf_pop:
  "backlog_wf e \<Longrightarrow> backlog_count e \<noteq> 0 \<Longrightarrow> backlog_wf (snd (backlog_pop e))"
  by (auto simp: backlog_wf_def backlog_pop_def ring_pop_tail)

lemma backlog_tail_slot:
  assumes "backlog_wf e"
  shows "nat (backlog_tail e) = (nat (backlog_head e) + nat (backlog_count e)) mod length (backlog e)"
proof -
  from assms have "length (backlog e) = 4" by (simp add: backlog_wf_def)
  with assms show ?thesis
    unfolding backlog_wf_def by (simp add: nat_mod_distrib nat_add_distrib)
qed

interpretation bl: ring_queue backlog_wf backlog "\<lambda>e. nat (backlog_head e)"
  "\<lambda>e. nat (backlog_count e)" backlog_offer backlog_take
proof (unfold_locales, goal_cases)
  case (1 q)
  then show ?case by (auto simp: backlog_wf_def)
next
  case (2 q x)
  then show ?case by (auto simp: backlog_wf_def backlog_offer_def)
next
  case (3 q x q')
  then have q': "q' = backlog_push x q" and lt: "backlog_count q < BACKLOG_MAX"
    by (auto simp: backlog_offer_def split: if_splits)
  have "0 \<le> backlog_count q" using 3(1) by (simp add: backlog_wf_def)
  with backlog_wf_push [OF 3(1) lt] backlog_tail_slot [OF 3(1)] show ?case
    by (simp add: q' backlog_push_def aset_def)
next
  case (4 q)
  then show ?case by (auto simp: backlog_wf_def backlog_take_def)
next
  case (5 q x q')
  then have pop: "backlog_pop q = (x, q')" and ne: "backlog_count q \<noteq> 0"
    by (auto simp: backlog_take_def split: if_splits)
  have bounds: "0 \<le> backlog_head q" "backlog_head q < 4" "0 < backlog_count q"
    and len: "length (backlog q) = 4"
    using 5(1) ne by (auto simp: backlog_wf_def)
  from bounds have "nat ((backlog_head q + 1) mod 4) = Suc (nat (backlog_head q)) mod 4"
    by (simp add: nat_mod_distrib Suc_nat_eq_nat_zadd1 add.commute)
  moreover from bounds have "nat (backlog_head q) mod 4 = nat (backlog_head q)" by simp
  ultimately show ?case
    using backlog_wf_pop [OF 5(1) ne] pop bounds len
    by (auto simp: backlog_pop_def aget_def)
qed

lemma pending_push:
  "backlog_wf e \<Longrightarrow> backlog_count e < BACKLOG_MAX \<Longrightarrow> pending (backlog_push fd e) = pending e @ [fd]"
  using bl.fifo.push_some [of e fd "backlog_push fd e"] by (simp add: pending_def backlog_offer_def)

lemma pending_pop:
  "backlog_wf e \<Longrightarrow> backlog_count e \<noteq> 0 \<Longrightarrow> backlog_pop e = (fd, e') \<Longrightarrow> pending e = fd # pending e'"
  using bl.fifo.pop_some [of e fd e'] by (simp add: pending_def backlog_take_def)

text \<open>Putting the client back undoes the pop exactly.\<close>

lemma backlog_unpop_pop:
  assumes "backlog_wf e" "backlog_pop e = (fd, e')"
  shows "backlog_unpop fd e' = e"
proof -
  have "((backlog_head e + 1) mod 4 + 4 - 1) mod 4 = backlog_head e"
    using assms(1) by (intro ring_succ_pred) (simp_all add: backlog_wf_def)
  then show ?thesis
    using assms(2) by (auto simp: backlog_unpop_def backlog_pop_def Let_def aset_def aget_def)
qed

section \<open>The receive queue\<close>

lemma rx_wf_consume:
  "rx_wf e \<Longrightarrow> 0 \<le> n \<Longrightarrow> n \<le> rx_tail e - rx_head e \<Longrightarrow> rx_wf (snd (rx_consume n e))"
  by (auto simp: rx_wf_def rx_consume_def Let_def)

lemma rx_bytes_consume:
  assumes "rx_wf e" "0 \<le> n" "n \<le> rx_tail e - rx_head e"
  shows "fst (rx_consume n e) = take (nat n) (rx_bytes e)"
    and "rx_bytes (snd (rx_consume n e)) = drop (nat n) (rx_bytes e)"
proof -
  have le: "nat n \<le> nat (rx_tail e - rx_head e)" using assms by simp
  then show "fst (rx_consume n e) = take (nat n) (rx_bytes e)"
    by (simp add: rx_consume_def rx_bytes_def Let_def min_def)
  have "nat (rx_head e + n) = nat (rx_head e) + nat n"
    and "nat (rx_tail e - (rx_head e + n)) = nat (rx_tail e - rx_head e) - nat n"
    using assms by (auto simp: rx_wf_def)
  moreover have "nat (rx_tail e - rx_head e) = nat n" if "rx_head e + n = rx_tail e"
    using that by simp
  ultimately show "rx_bytes (snd (rx_consume n e)) = drop (nat n) (rx_bytes e)"
    by (auto simp: rx_consume_def rx_bytes_def Let_def drop_take add.commute)
qed

lemma length_rx_bytes: "rx_wf e \<Longrightarrow> int (length (rx_bytes e)) = rx_tail e - rx_head e"
  by (auto simp: rx_wf_def rx_bytes_def)

lemma rx_compact_frame [simp]:
  "kind (rx_compact e) = kind e" "domain (rx_compact e) = domain e" "type (rx_compact e) = type e"
  "proto (rx_compact e) = proto e" "local_port (rx_compact e) = local_port e"
  "peer_fd (rx_compact e) = peer_fd e" "pending (rx_compact e) = pending e"
  "backlog_wf (rx_compact e) = backlog_wf e"
  by (simp_all add: rx_compact_def Let_def pending_def backlog_wf_def)

lemma rx_compact_wf:
  assumes "rx_wf e"
  shows "rx_wf (rx_compact e)" "rx_head (rx_compact e) = 0"
    "rx_tail (rx_compact e) = rx_tail e - rx_head e"
proof -
  have "nat (rx_tail e - rx_head e) \<le> length (rx e) - nat (rx_head e)"
    using assms by (simp add: rx_wf_def) linarith
  then show "rx_wf (rx_compact e)" "rx_head (rx_compact e) = 0"
    "rx_tail (rx_compact e) = rx_tail e - rx_head e"
    using assms by (auto simp: rx_wf_def rx_compact_def Let_def)
qed

lemma rx_bytes_compact: "rx_wf e \<Longrightarrow> rx_bytes (rx_compact e) = rx_bytes e"
  by (auto simp: rx_wf_def rx_bytes_def rx_compact_def Let_def blit_def)

lemma rx_append_frame [simp]:
  "kind (rx_append bs e) = kind e" "domain (rx_append bs e) = domain e" "type (rx_append bs e) = type e"
  "proto (rx_append bs e) = proto e" "local_port (rx_append bs e) = local_port e"
  "peer_fd (rx_append bs e) = peer_fd e" "pending (rx_append bs e) = pending e"
  "backlog_wf (rx_append bs e) = backlog_wf e"
  by (simp_all add: rx_append_def pending_def backlog_wf_def)

lemma rx_append_sel:
  "rx_head (rx_append bs e) = rx_head e" "rx_tail (rx_append bs e) = rx_tail e + int (length bs)"
  "rx (rx_append bs e) = blit (rx e) (nat (rx_tail e)) bs"
  by (simp_all add: rx_append_def)

lemma rx_append_wf:
  assumes "rx_wf e" "int (length bs) \<le> RXBUF_SIZE - rx_tail e"
  shows "rx_wf (rx_append bs e)" "rx_bytes (rx_append bs e) = rx_bytes e @ bs"
proof -
  have len: "nat (rx_tail e) + length bs \<le> length (rx e)"
    and ht: "nat (rx_head e) \<le> nat (rx_tail e)" "nat (rx_tail e) \<le> length (rx e)"
    using assms by (auto simp: rx_wf_def)
  from assms len show "rx_wf (rx_append bs e)" by (auto simp: rx_wf_def rx_append_def)
  have n: "nat (rx_tail e + int (length bs) - rx_head e) = nat (rx_tail e) - nat (rx_head e) + length bs"
    and m: "nat (rx_tail e - rx_head e) = nat (rx_tail e) - nat (rx_head e)"
    using assms by (auto simp: rx_wf_def)
  have "rx_bytes (rx_append bs e) =
      take (nat (rx_tail e) - nat (rx_head e) + length bs)
        (drop (nat (rx_head e)) (take (nat (rx_tail e)) (rx e) @ bs @ drop (nat (rx_tail e) + length bs) (rx e)))"
    by (simp only: rx_bytes_def rx_append_sel blit_def n)
  also have "\<dots> = drop (nat (rx_head e)) (take (nat (rx_tail e)) (rx e)) @ bs"
    using ht by simp
  also have "\<dots> = rx_bytes e @ bs"
    by (simp only: rx_bytes_def m drop_take)
  finally show "rx_bytes (rx_append bs e) = rx_bytes e @ bs" .
qed

lemma rx_consume_frame [simp]:
  "kind (snd (rx_consume n e)) = kind e" "domain (snd (rx_consume n e)) = domain e"
  "type (snd (rx_consume n e)) = type e" "proto (snd (rx_consume n e)) = proto e"
  "local_port (snd (rx_consume n e)) = local_port e" "peer_fd (snd (rx_consume n e)) = peer_fd e"
  "pending (snd (rx_consume n e)) = pending e" "backlog_wf (snd (rx_consume n e)) = backlog_wf e"
  by (simp_all add: rx_consume_def Let_def pending_def backlog_wf_def)


section \<open>Entries and the table\<close>

lemma fd_entry_zero_sel [simp]:
  "kind fd_entry_zero = FD_FREE" "local_port fd_entry_zero = 0" "peer_fd fd_entry_zero = 0"
  "backlog_wf fd_entry_zero" "rx_wf fd_entry_zero" "pending fd_entry_zero = []"
  "rx_bytes fd_entry_zero = []" "backlog_count fd_entry_zero = 0"
  by (simp_all add: fd_entry_zero_def backlog_wf_def rx_wf_def pending_def rx_bytes_def)

lemma backlog_wf_frame [simp]:
  "backlog_wf (e\<lparr>kind := k\<rparr>) = backlog_wf e" "backlog_wf (e\<lparr>domain := d\<rparr>) = backlog_wf e"
  "backlog_wf (e\<lparr>type := d\<rparr>) = backlog_wf e" "backlog_wf (e\<lparr>proto := d\<rparr>) = backlog_wf e"
  "backlog_wf (e\<lparr>local_port := p\<rparr>) = backlog_wf e" "backlog_wf (e\<lparr>peer_fd := d\<rparr>) = backlog_wf e"
  "backlog_wf (e\<lparr>peer_port := p\<rparr>) = backlog_wf e"
  by (simp_all add: backlog_wf_def)

lemma rx_wf_frame [simp]:
  "rx_wf (e\<lparr>kind := k\<rparr>) = rx_wf e" "rx_wf (e\<lparr>domain := d\<rparr>) = rx_wf e"
  "rx_wf (e\<lparr>type := d\<rparr>) = rx_wf e" "rx_wf (e\<lparr>proto := d\<rparr>) = rx_wf e"
  "rx_wf (e\<lparr>local_port := p\<rparr>) = rx_wf e" "rx_wf (e\<lparr>peer_fd := d\<rparr>) = rx_wf e"
  "rx_wf (e\<lparr>peer_port := p\<rparr>) = rx_wf e"
  "rx_wf (e\<lparr>backlog_head := d\<rparr>) = rx_wf e" "rx_wf (e\<lparr>backlog_tail := d\<rparr>) = rx_wf e"
  "rx_wf (e\<lparr>backlog_count := d\<rparr>) = rx_wf e" "rx_wf (backlog_push fd e) = rx_wf e"
  "rx_wf (snd (backlog_pop e)) = rx_wf e"
  by (simp_all add: rx_wf_def backlog_push_def backlog_pop_def)

lemma pending_frame [simp]:
  "pending (e\<lparr>kind := k\<rparr>) = pending e" "pending (e\<lparr>domain := d\<rparr>) = pending e"
  "pending (e\<lparr>type := d\<rparr>) = pending e" "pending (e\<lparr>proto := d\<rparr>) = pending e"
  "pending (e\<lparr>local_port := p\<rparr>) = pending e" "pending (e\<lparr>peer_fd := d\<rparr>) = pending e"
  "pending (e\<lparr>peer_port := p\<rparr>) = pending e"
  "pending (e\<lparr>backlog_head := 0, backlog_tail := 0, backlog_count := 0\<rparr>) = []"
  by (simp_all add: pending_def)

lemma rx_bytes_frame [simp]:
  "rx_bytes (e\<lparr>kind := k\<rparr>) = rx_bytes e" "rx_bytes (e\<lparr>domain := d\<rparr>) = rx_bytes e"
  "rx_bytes (e\<lparr>type := d\<rparr>) = rx_bytes e" "rx_bytes (e\<lparr>proto := d\<rparr>) = rx_bytes e"
  "rx_bytes (e\<lparr>local_port := p\<rparr>) = rx_bytes e" "rx_bytes (e\<lparr>peer_fd := d\<rparr>) = rx_bytes e"
  "rx_bytes (e\<lparr>peer_port := p\<rparr>) = rx_bytes e" "rx_bytes (backlog_push fd e) = rx_bytes e"
  "rx_bytes (snd (backlog_pop e)) = rx_bytes e"
  by (simp_all add: rx_bytes_def backlog_push_def backlog_pop_def)

lemma backlog_push_frame [simp]:
  "kind (backlog_push fd e) = kind e" "peer_fd (backlog_push fd e) = peer_fd e"
  "local_port (backlog_push fd e) = local_port e" "domain (backlog_push fd e) = domain e"
  "type (backlog_push fd e) = type e" "proto (backlog_push fd e) = proto e"
  by (simp_all add: backlog_push_def)

lemma backlog_pop_frame [simp]:
  "kind (snd (backlog_pop e)) = kind e" "peer_fd (snd (backlog_pop e)) = peer_fd e"
  "local_port (snd (backlog_pop e)) = local_port e" "domain (snd (backlog_pop e)) = domain e"
  "type (snd (backlog_pop e)) = type e" "proto (snd (backlog_pop e)) = proto e"
  by (simp_all add: backlog_pop_def)

lemma entry_wfD:
  assumes "entry_wf e"
  shows "backlog_wf e" "rx_wf e" "list_all fd_in_range (pending e)"
  using assms by (simp_all add: entry_wf_def)

lemma entry_wf_zero [simp]: "entry_wf (fd_entry_zero\<lparr>peer_fd := d\<rparr>)" "entry_wf fd_entry_zero"
  by (simp_all add: entry_wf_def)

lemma entry_wf_rx_compact: "entry_wf e \<Longrightarrow> entry_wf (rx_compact e)"
  by (simp add: entry_wf_def rx_compact_wf)

lemma entry_wf_rx_append:
  "entry_wf e \<Longrightarrow> int (length bs) \<le> RXBUF_SIZE - rx_tail e \<Longrightarrow> entry_wf (rx_append bs e)"
  by (simp add: entry_wf_def rx_append_wf)

lemma entry_wf_rx_consume:
  "entry_wf e \<Longrightarrow> 0 \<le> n \<Longrightarrow> n \<le> rx_tail e - rx_head e \<Longrightarrow> entry_wf (snd (rx_consume n e))"
  by (simp add: entry_wf_def rx_wf_consume)

lemma entry_wf_backlog_push:
  "entry_wf e \<Longrightarrow> backlog_count e < BACKLOG_MAX \<Longrightarrow> fd_in_range fd \<Longrightarrow> entry_wf (backlog_push fd e)"
  by (simp add: entry_wf_def backlog_wf_push pending_push)

lemma entry_wf_backlog_pop:
  assumes "entry_wf e" "backlog_count e \<noteq> 0" "backlog_pop e = (fd, e')"
  shows "entry_wf e'" "fd_in_range fd"
proof -
  have e': "e' = snd (backlog_pop e)" using assms(3) by simp
  have p: "pending e = fd # pending e'"
    using assms by (intro pending_pop) (auto simp: entry_wf_def)
  from assms(1) p show "fd_in_range fd" by (simp add: entry_wf_def)
  from assms(1,2) p backlog_wf_pop [OF entry_wfD(1)] show "entry_wf e'"
    by (simp add: entry_wf_def e')
qed

lemma fdtable_wf_length: "fdtable_wf t \<Longrightarrow> length t = 128"
  by (simp add: fdtable_wf_def)

lemma in_bounds_fd [simp]: "fdtable_wf t \<Longrightarrow> fd_in_range i \<Longrightarrow> in_bounds t i"
  by (simp add: fdtable_wf_def in_bounds_def fd_in_range_def)

lemma fdtable_wf_aget: "fdtable_wf t \<Longrightarrow> fd_in_range i \<Longrightarrow> entry_wf (aget t i)"
  by (auto simp: fdtable_wf_def fd_in_range_def aget_def list_all_length)

lemma fdtable_wf_aset [intro]: "fdtable_wf t \<Longrightarrow> entry_wf e \<Longrightarrow> fdtable_wf (aset t i e)"
  using set_update_subset_insert [of t "nat i" e]
  by (auto simp: fdtable_wf_def aset_def list_all_iff)

lemma fdtable_wf_init [simp]: "fdtable_wf g_fdtable_init"
  by (simp add: fdtable_wf_def g_fdtable_init_def list_all_iff)

lemma fd_in_range_nonneg [simp]: "fd_in_range i \<Longrightarrow> 0 \<le> i" "fd_in_range i \<Longrightarrow> \<not> i < 0"
  by (simp_all add: fd_in_range_def)

lemma fd_valid_iff: "fd_valid t fd \<longleftrightarrow> fd_in_range fd \<and> kind (aget t fd) \<noteq> FD_FREE"
  by (auto simp: fd_valid_def fd_in_range_def)

lemma alloc_fd_cases [case_names full slot]:
  obtains "alloc_fd t = (-1, t)" "\<And>i. fd_in_range i \<Longrightarrow> kind (aget t i) \<noteq> FD_FREE"
  | fd where "alloc_fd t = (fd, aset t fd (fd_entry_zero\<lparr>peer_fd := -1\<rparr>))"
      "fd_in_range fd" "kind (aget t fd) = FD_FREE"
      "\<And>i. FD_FIRST \<le> i \<Longrightarrow> i < fd \<Longrightarrow> kind (aget t i) \<noteq> FD_FREE"
proof (cases rule: c_search_cases [of "\<lambda>i. kind (aget t i) = FD_FREE" FD_FIRST FDTABLE_MAX])
  case none
  then show ?thesis by (intro that(1)) (auto simp: alloc_fd_def fd_in_range_def)
next
  case (found k)
  then show ?thesis by (intro that(2) [of k]) (auto simp: alloc_fd_def fd_in_range_def)
qed

lemma find_listener_cases [case_names none listener]:
  obtains "find_listener t p = -1"
      "\<And>i. fd_in_range i \<Longrightarrow> \<not> (kind (aget t i) = FD_SOCKET_LISTEN \<and> local_port (aget t i) = p)"
  | fd where "find_listener t p = fd" "fd_in_range fd" "kind (aget t fd) = FD_SOCKET_LISTEN"
      "local_port (aget t fd) = p"
      "\<And>i. FD_FIRST \<le> i \<Longrightarrow> i < fd \<Longrightarrow>
         \<not> (kind (aget t i) = FD_SOCKET_LISTEN \<and> local_port (aget t i) = p)"
proof (cases rule: c_search_cases
    [of "\<lambda>i. kind (aget t i) = FD_SOCKET_LISTEN \<and> local_port (aget t i) = p" FD_FIRST FDTABLE_MAX])
  case none
  then show ?thesis by (intro that(1)) (auto simp: find_listener_def fd_in_range_def)
next
  case (found k)
  then show ?thesis by (intro that(2) [of k]) (auto simp: find_listener_def fd_in_range_def)
qed

section \<open>Every handler keeps the table well-formed\<close>

lemma socket_wf:
  assumes "fdtable_wf t"
  shows "fdtable_wf (fst (fdtable_dispatch_socket t r))"
proof (cases rule: alloc_fd_cases [of t])
  case full
  then show ?thesis using assms by (simp add: fdtable_dispatch_socket_def)
next
  case (slot fd)
  then show ?thesis using assms
    by (auto simp: fdtable_dispatch_socket_def entry_wf_def)
qed

lemma notify_peer_wf: "fdtable_wf t \<Longrightarrow> fdtable_wf (notify_peer t fd)"
  by (auto simp: notify_peer_def Let_def fd_valid_iff entry_wf_def
      dest: fdtable_wf_aget intro!: fdtable_wf_aset)

lemma close_wf: "fdtable_wf t \<Longrightarrow> fdtable_wf (fst (fdtable_dispatch_close t r))"
  by (auto simp: fdtable_dispatch_close_def Let_def notify_peer_wf)

lemma bind_wf: "fdtable_wf t \<Longrightarrow> fdtable_wf (fst (fdtable_dispatch_bind t r))"
  by (auto simp: fdtable_dispatch_bind_def Let_def fd_valid_iff entry_wf_def
      dest: fdtable_wf_aget intro!: fdtable_wf_aset)

lemma listen_wf: "fdtable_wf t \<Longrightarrow> fdtable_wf (fst (fdtable_dispatch_listen t r))"
  by (auto simp: fdtable_dispatch_listen_def Let_def fd_valid_iff entry_wf_def backlog_wf_def
      dest: fdtable_wf_aget intro!: fdtable_wf_aset)

lemma connect_wf:
  assumes "fdtable_wf t"
  shows "fdtable_wf (fst (fdtable_dispatch_connect t r))"
proof -
  let ?fd = "connect_sock (u_connect r)"
  show ?thesis
  proof (cases rule: find_listener_cases [of t "connect_port (u_connect r)"])
    case none
    then show ?thesis using assms by (auto simp: fdtable_dispatch_connect_def Let_def)
  next
    case (listener lfd)
    have ne: "?fd \<noteq> lfd" if "kind (aget t ?fd) = FD_SOCKET_UNBOUND"
      using that listener(3) by auto
    show ?thesis using assms listener ne fdtable_wf_aget [OF assms]
      by (auto simp: fdtable_dispatch_connect_def Let_def fd_valid_iff
          intro!: fdtable_wf_aset entry_wf_backlog_push)
        (auto simp: entry_wf_def)
  qed
qed

lemma accept_wf:
  assumes "fdtable_wf t"
  shows "fdtable_wf (fst (fdtable_dispatch_accept t r))"
proof -
  let ?fd = "accept_sock (u_accept r)"
  obtain c lst where pop: "backlog_pop (aget t ?fd) = (c, lst)" by (cases "backlog_pop (aget t ?fd)")
  show ?thesis
  proof (cases "fd_valid t ?fd \<and> kind (aget t ?fd) = FD_SOCKET_LISTEN \<and> backlog_count (aget t ?fd) \<noteq> 0")
    case False
    then show ?thesis using assms by (auto simp: fdtable_dispatch_accept_def Let_def)
  next
    case True
    then have rng: "fd_in_range ?fd" by (simp add: fd_valid_iff)
    note wf_fd = fdtable_wf_aget [OF assms rng]
    note lst = entry_wf_backlog_pop [OF wf_fd _ pop]
    have t1: "fdtable_wf (aset t ?fd lst)" using assms lst True by auto
    show ?thesis
    proof (cases rule: alloc_fd_cases [of "aset t ?fd lst"])
      case full
      then show ?thesis using True pop assms rng backlog_unpop_pop [OF entry_wfD(1) [OF wf_fd] pop]
        by (simp add: fdtable_dispatch_accept_def Let_def)
    next
      case (slot n)
      then show ?thesis using True pop t1 lst fdtable_wf_aget
        by (auto simp: fdtable_dispatch_accept_def Let_def aget_aset entry_wf_def fdtable_wf_aset
            intro!: fdtable_wf_aset)
    qed
  qed
qed

lemma send_wf:
  assumes "fdtable_wf t"
  shows "fdtable_wf (fst (fdtable_dispatch_send t r))"
  using assms fdtable_wf_aget [OF assms]
  by (auto simp: fdtable_dispatch_send_def Let_def fd_valid_iff
      intro!: fdtable_wf_aset entry_wf_rx_append entry_wf_rx_compact)

lemma recv_count_min: "recv_count n avail = min avail (min NETSTACK_MAX_PAYLOAD (max 0 n))"
  by (auto simp: recv_count_def Let_def)

lemma recv_count_bounds:
  "0 \<le> avail \<Longrightarrow> 0 \<le> recv_count n avail" "recv_count n avail \<le> avail"
  "recv_count n avail \<le> NETSTACK_MAX_PAYLOAD"
  by (auto simp: recv_count_min)

lemma recv_wf:
  assumes "fdtable_wf t"
  shows "fdtable_wf (fst (fdtable_dispatch_recv t r))"
  using assms fdtable_wf_aget [OF assms]
  by (auto simp: fdtable_dispatch_recv_def Let_def fd_valid_iff recv_count_bounds split_beta
      intro!: fdtable_wf_aset entry_wf_rx_consume)

end
