(* ===== verification/SockSpec.thy ===== *)
theory SockSpec
  imports FdInv
begin

text \<open>
  What the socket layer promises, without rings, indices or buffers: a finite map from
  descriptors to sockets, where a listening socket has a queue of clients and every socket a
  stream of unread bytes. \<open>abs_table\<close> reads such a map off a descriptor table, and every
  handler of \<open>fdtable.c\<close> computes exactly what its abstract counterpart computes.
\<close>

datatype sock_kind = Unbound | Listening | Connected

record sock =
  s_kind :: sock_kind
  s_domain :: int32
  s_type :: int32
  s_proto :: int32
  s_port :: uint16
  s_queue :: "int32 list"
  s_peer :: "int32 option"
  s_stream :: "uint8 list"

type_synonym socks = "int32 \<Rightarrow> sock option"

definition all_fds :: "int32 list" where
  "all_fds = [FD_FIRST..FDTABLE_MAX - 1]"

definition free_fd :: "socks \<Rightarrow> int32 option" where
  "free_fd m = find (\<lambda>i. m i = None) all_fds"

definition listener_on :: "uint16 \<Rightarrow> sock option \<Rightarrow> bool" where
  "listener_on p s = (case s of None \<Rightarrow> False | Some s \<Rightarrow> s_kind s = Listening \<and> s_port s = p)"

definition holds_port :: "uint16 \<Rightarrow> sock option \<Rightarrow> bool" where
  "holds_port p s = (case s of None \<Rightarrow> False | Some s \<Rightarrow> s_kind s \<noteq> Unbound \<and> s_port s = p)"

definition spec_socket :: "socks \<Rightarrow> NetstackReq \<Rightarrow> socks \<times> NetstackReq" where
  "spec_socket m r =
     (case free_fd m of
        None \<Rightarrow> (m, r\<lparr>err := EMFILE, u_socket := (u_socket r)\<lparr>socket_sock := -1\<rparr>\<rparr>)
      | Some fd \<Rightarrow>
          (m(fd \<mapsto> \<lparr>s_kind = Unbound, s_domain = socket_domain (u_socket r),
                    s_type = socket_type (u_socket r), s_proto = socket_proto (u_socket r),
                    s_port = 0, s_queue = [], s_peer = None, s_stream = []\<rparr>),
           r\<lparr>err := NETSTACK_OK, u_socket := (u_socket r)\<lparr>socket_sock := fd\<rparr>\<rparr>))"

text \<open>Closing a socket disconnects the one at the other end, which keeps its unread bytes.\<close>

definition disconnect :: "int32 option \<Rightarrow> socks \<Rightarrow> socks" where
  "disconnect p m =
     (case p of None \<Rightarrow> m
      | Some p \<Rightarrow> (case m p of None \<Rightarrow> m | Some s \<Rightarrow> m(p \<mapsto> s\<lparr>s_peer := None\<rparr>)))"

definition spec_close :: "socks \<Rightarrow> NetstackReq \<Rightarrow> socks \<times> NetstackReq" where
  "spec_close m r =
     (let fd = close_sock (u_close r) in
      case m fd of
        None \<Rightarrow> (m, r\<lparr>err := NETSTACK_EBADF\<rparr>)
      | Some s \<Rightarrow> ((disconnect (s_peer s) m)(fd := None), r\<lparr>err := NETSTACK_OK\<rparr>))"

definition spec_bind :: "socks \<Rightarrow> NetstackReq \<Rightarrow> socks \<times> NetstackReq" where
  "spec_bind m r =
     (let fd = bind_sock (u_bind r); p = bind_port (u_bind r) in
      case m fd of
        None \<Rightarrow> (m, r\<lparr>err := NETSTACK_EBADF\<rparr>)
      | Some s \<Rightarrow>
          if s_kind s \<noteq> Unbound then (m, r\<lparr>err := NETSTACK_EINVAL\<rparr>)
          else if list_ex (\<lambda>i. holds_port p (m i)) all_fds then (m, r\<lparr>err := NETSTACK_EADDRINUSE\<rparr>)
          else (m(fd \<mapsto> s\<lparr>s_port := p\<rparr>), r\<lparr>err := NETSTACK_OK\<rparr>))"

definition spec_listen :: "socks \<Rightarrow> NetstackReq \<Rightarrow> socks \<times> NetstackReq" where
  "spec_listen m r =
     (let fd = listen_sock (u_listen r) in
      case m fd of
        None \<Rightarrow> (m, r\<lparr>err := NETSTACK_EBADF\<rparr>)
      | Some s \<Rightarrow>
          if s_kind s \<noteq> Unbound \<or> s_port s = 0 then (m, r\<lparr>err := NETSTACK_EINVAL\<rparr>)
          else (m(fd \<mapsto> s\<lparr>s_kind := Listening, s_queue := []\<rparr>), r\<lparr>err := NETSTACK_OK\<rparr>))"

definition spec_connect :: "socks \<Rightarrow> NetstackReq \<Rightarrow> socks \<times> NetstackReq" where
  "spec_connect m r =
     (let fd = connect_sock (u_connect r) in
      case m fd of
        None \<Rightarrow> (m, r\<lparr>err := NETSTACK_EBADF\<rparr>)
      | Some s \<Rightarrow>
          if s_kind s \<noteq> Unbound then (m, r\<lparr>err := NETSTACK_EINVAL\<rparr>)
          else
            (case find (\<lambda>i. listener_on (connect_port (u_connect r)) (m i)) all_fds of
               None \<Rightarrow> (m, r\<lparr>err := NETSTACK_ECONNREFUSED\<rparr>)
             | Some lfd \<Rightarrow>
                 let l = the (m lfd) in
                 if int (length (s_queue l)) = BACKLOG_MAX then (m, r\<lparr>err := NETSTACK_EAGAIN\<rparr>)
                 else (m(fd \<mapsto> s\<lparr>s_kind := Connected, s_peer := None\<rparr>,
                         lfd \<mapsto> l\<lparr>s_queue := s_queue l @ [fd]\<rparr>),
                       r\<lparr>err := NETSTACK_OK\<rparr>)))"

text \<open>Accepting connects the oldest client in the queue to a new socket.\<close>

definition attach :: "int32 \<Rightarrow> int32 \<Rightarrow> socks \<Rightarrow> socks" where
  "attach c n m =
     (case m c of None \<Rightarrow> m
      | Some s \<Rightarrow> if s_kind s = Connected then m(c \<mapsto> s\<lparr>s_peer := Some n\<rparr>) else m)"

definition spec_accept :: "socks \<Rightarrow> NetstackReq \<Rightarrow> socks \<times> NetstackReq" where
  "spec_accept m r =
     (let fd = accept_sock (u_accept r) in
      case m fd of
        None \<Rightarrow> (m, r\<lparr>err := NETSTACK_EBADF\<rparr>)
      | Some l \<Rightarrow>
          if s_kind l \<noteq> Listening then (m, r\<lparr>err := NETSTACK_EINVAL\<rparr>)
          else
            (case s_queue l of
               [] \<Rightarrow> (m, r\<lparr>err := NETSTACK_EAGAIN, u_accept := (u_accept r)\<lparr>accept_new_sock := -1\<rparr>\<rparr>)
             | c # q \<Rightarrow>
                 (case free_fd m of
                    None \<Rightarrow> (m, r\<lparr>err := EMFILE, u_accept := (u_accept r)\<lparr>accept_new_sock := -1\<rparr>\<rparr>)
                  | Some n \<Rightarrow>
                      (attach c n (m(fd \<mapsto> l\<lparr>s_queue := q\<rparr>,
                                     n \<mapsto> \<lparr>s_kind = Connected, s_domain = s_domain l,
                                          s_type = s_type l, s_proto = s_proto l,
                                          s_port = s_port l, s_queue = [], s_peer = Some c,
                                          s_stream = []\<rparr>)),
                       r\<lparr>err := NETSTACK_OK,
                         u_accept := (u_accept r)\<lparr>accept_new_sock := n, accept_peer_port := s_port l\<rparr>\<rparr>))))"

definition spec_send :: "socks \<Rightarrow> NetstackReq \<Rightarrow> socks \<times> NetstackReq" where
  "spec_send m r =
     (let fd = send_sock (u_send r); len = send_len_in (u_send r) in
      case m fd of
        None \<Rightarrow> (m, r\<lparr>err := NETSTACK_EBADF\<rparr>)
      | Some s \<Rightarrow>
          (case Option.bind (s_peer s) (\<lambda>p. map_option (Pair p) (m p)) of
             None \<Rightarrow> (m, r\<lparr>err := NETSTACK_ENOTCONN\<rparr>)
           | Some (p, ps) \<Rightarrow>
               if len < 0 \<or> len > NETSTACK_MAX_PAYLOAD then (m, r\<lparr>err := NETSTACK_EMSGSIZE\<rparr>)
               else
                 let room = RXBUF_SIZE - int (length (s_stream ps)) in
                 if room = 0
                 then (m, r\<lparr>err := NETSTACK_EAGAIN, u_send := (u_send r)\<lparr>send_len_out := 0\<rparr>\<rparr>)
                 else (m(p \<mapsto> ps\<lparr>s_stream := s_stream ps @ take (nat (min len room)) (send_data (u_send r))\<rparr>),
                       r\<lparr>err := NETSTACK_OK, u_send := (u_send r)\<lparr>send_len_out := min len room\<rparr>\<rparr>)))"

definition spec_recv :: "socks \<Rightarrow> NetstackReq \<Rightarrow> socks \<times> NetstackReq" where
  "spec_recv m r =
     (let fd = recv_sock (u_recv r) in
      case m fd of
        None \<Rightarrow> (m, r\<lparr>err := NETSTACK_EBADF\<rparr>)
      | Some s \<Rightarrow>
          if s_kind s \<noteq> Connected then (m, r\<lparr>err := NETSTACK_ENOTCONN\<rparr>)
          else if s_stream s = []
          then (m, r\<lparr>err := (if Option.bind (s_peer s) m = None then NETSTACK_OK else NETSTACK_EAGAIN),
                     u_recv := (u_recv r)\<lparr>recv_len_out := 0\<rparr>\<rparr>)
          else
            let n = min (int (length (s_stream s)))
                      (min NETSTACK_MAX_PAYLOAD (max 0 (recv_len_in (u_recv r))))
            in (m(fd \<mapsto> s\<lparr>s_stream := drop (nat n) (s_stream s)\<rparr>),
                r\<lparr>err := NETSTACK_OK,
                  u_recv := (u_recv r)\<lparr>recv_data := blit (recv_data (u_recv r)) 0 (take (nat n) (s_stream s)),
                                        recv_len_out := n\<rparr>\<rparr>))"

section \<open>Abstraction\<close>

fun abs_kind :: "fd_kind \<Rightarrow> sock_kind" where
  "abs_kind FD_SOCKET_LISTEN = Listening"
| "abs_kind FD_SOCKET_CONNECTED = Connected"
| "abs_kind _ = Unbound"

definition abs_sock :: "fd_entry \<Rightarrow> sock" where
  "abs_sock e =
     \<lparr>s_kind = abs_kind (kind e), s_domain = domain e, s_type = type e, s_proto = proto e,
      s_port = local_port e,
      s_queue = (if kind e = FD_SOCKET_LISTEN then pending e else []),
      s_peer = (if kind e = FD_SOCKET_CONNECTED \<and> 0 \<le> peer_fd e then Some (peer_fd e) else None),
      s_stream = rx_bytes e\<rparr>"

definition abs_entry :: "fd_entry \<Rightarrow> sock option" where
  "abs_entry e = (if kind e = FD_FREE then None else Some (abs_sock e))"

definition abs_table :: "fdtable \<Rightarrow> socks" where
  "abs_table t fd = (if fd_in_range fd then abs_entry (aget t fd) else None)"

section \<open>Searching\<close>

lemma c_search_find:
  assumes "0 \<le> lo"
  shows "c_search P lo (hi + 1) = (case find P [lo..hi] of None \<Rightarrow> -1 | Some i \<Rightarrow> i)"
  using assms
proof (induction P lo "hi + 1" rule: c_search.induct)
  case (1 P i)
  then show ?case
    by (cases "i \<le> hi"; cases "P i") (simp_all add: upto.simps [of i hi] c_search_hit c_search_miss)
qed

lemma c_search_fds:
  "c_search P FD_FIRST FDTABLE_MAX = (case find P all_fds of None \<Rightarrow> -1 | Some i \<Rightarrow> i)"
  using c_search_find [of FD_FIRST P "FDTABLE_MAX - 1"] by (simp add: all_fds_def del: upto_rec_numeral)

lemma set_all_fds: "set all_fds = {i. fd_in_range i}"
  unfolding all_fds_def set_upto by (auto simp: fd_in_range_def)

lemma find_all_fds_Some: "find P all_fds = Some i \<Longrightarrow> fd_in_range i \<and> P i"
  using set_all_fds by (auto simp: find_Some_iff in_set_conv_nth) (metis mem_Collect_eq nth_mem)

lemma find_all_fds_cong:
  "(\<And>i. fd_in_range i \<Longrightarrow> P i = Q i) \<Longrightarrow> find P all_fds = find Q all_fds"
  by (rule find_cong) (auto simp: set_all_fds)

lemma abs_kind_simps [simp]:
  "k \<noteq> FD_FREE \<Longrightarrow> abs_kind k = Unbound \<longleftrightarrow> k = FD_SOCKET_UNBOUND"
  "abs_kind k = Listening \<longleftrightarrow> k = FD_SOCKET_LISTEN"
  "abs_kind k = Connected \<longleftrightarrow> k = FD_SOCKET_CONNECTED"
  by (cases k; simp)+

lemma abs_sock_sel [simp]:
  "s_kind (abs_sock e) = abs_kind (kind e)" "s_domain (abs_sock e) = domain e"
  "s_type (abs_sock e) = type e" "s_proto (abs_sock e) = proto e" "s_port (abs_sock e) = local_port e"
  "s_stream (abs_sock e) = rx_bytes e"
  "kind e = FD_SOCKET_LISTEN \<Longrightarrow> s_queue (abs_sock e) = pending e"
  by (simp_all add: abs_sock_def)

lemma alloc_fd_spec:
  "alloc_fd t = (case free_fd (abs_table t) of None \<Rightarrow> (-1, t)
                 | Some i \<Rightarrow> (i, aset t i (fd_entry_zero\<lparr>peer_fd := -1\<rparr>)))"
proof -
  have "find (\<lambda>i. kind (aget t i) = FD_FREE) all_fds = free_fd (abs_table t)"
    unfolding free_fd_def by (rule find_all_fds_cong) (simp add: abs_table_def abs_entry_def)
  then show ?thesis
    by (cases "free_fd (abs_table t)")
      (auto simp: alloc_fd_def c_search_fds dest: find_all_fds_Some)
qed

lemma find_listener_spec:
  "find_listener t p =
     (case find (\<lambda>i. listener_on p (abs_table t i)) all_fds of None \<Rightarrow> -1 | Some i \<Rightarrow> i)"
proof -
  have "find (\<lambda>i. kind (aget t i) = FD_SOCKET_LISTEN \<and> local_port (aget t i) = p) all_fds =
      find (\<lambda>i. listener_on p (abs_table t i)) all_fds"
    by (rule find_all_fds_cong) (auto simp: listener_on_def abs_table_def abs_entry_def)
  then show ?thesis by (simp add: find_listener_def c_search_fds)
qed

lemma port_in_use_spec: "port_in_use t p = list_ex (\<lambda>i. holds_port p (abs_table t i)) all_fds"
proof -
  have "holds_port p (abs_table t i) \<longleftrightarrow>
      (kind (aget t i) = FD_SOCKET_LISTEN \<or> kind (aget t i) = FD_SOCKET_CONNECTED) \<and>
      local_port (aget t i) = p" if "fd_in_range i" for i
    using that by (cases "kind (aget t i)") (auto simp: holds_port_def abs_table_def abs_entry_def)
  then show ?thesis
    using c_search_none_iff [of FD_FIRST "\<lambda>i. (kind (aget t i) = FD_SOCKET_LISTEN \<or>
        kind (aget t i) = FD_SOCKET_CONNECTED) \<and> local_port (aget t i) = p" FDTABLE_MAX]
    by (auto simp: port_in_use_def list_ex_iff set_all_fds fd_in_range_def not_less)
qed


section \<open>Updates of the table seen abstractly\<close>

lemma abs_table_aset:
  assumes "fdtable_wf t" "fd_in_range i"
  shows "abs_table (aset t i e) = (abs_table t)(i := abs_entry e)"
  using assms by (auto simp: abs_table_def aget_aset fun_eq_iff)

lemma abs_table_some: "fd_valid t fd \<Longrightarrow> abs_table t fd = Some (abs_sock (aget t fd))"
  by (simp add: abs_table_def abs_entry_def fd_valid_iff)

lemma abs_table_none: "\<not> fd_valid t fd \<Longrightarrow> abs_table t fd = None"
  by (simp add: abs_table_def abs_entry_def fd_valid_iff)

lemma abs_table_none_iff: "abs_table t fd = None \<longleftrightarrow> \<not> fd_valid t fd"
  by (auto simp: abs_table_def abs_entry_def fd_valid_iff)

lemma abs_entry_zero [simp]: "abs_entry (fd_entry_zero\<lparr>peer_fd := d\<rparr>) = None"
  by (simp add: abs_entry_def)

section \<open>Each handler computes its abstract counterpart\<close>

lemma socket_refines:
  assumes "fdtable_wf t"
  shows "spec_socket (abs_table t) r = map_prod abs_table id (fdtable_dispatch_socket t r)"
proof (cases "free_fd (abs_table t)")
  case None
  then show ?thesis by (simp add: spec_socket_def fdtable_dispatch_socket_def alloc_fd_spec)
next
  case (Some fd)
  then have "fd_in_range fd" by (auto simp: free_fd_def dest: find_all_fds_Some)
  with Some assms show ?thesis
    by (simp add: spec_socket_def fdtable_dispatch_socket_def alloc_fd_spec abs_table_aset
        abs_entry_def abs_sock_def)
qed

lemma abs_notify_peer:
  assumes "fdtable_wf t" "fd_valid t fd"
  shows "abs_table (notify_peer t fd) = disconnect (s_peer (abs_sock (aget t fd))) (abs_table t)"
proof (cases "kind (aget t fd) = FD_SOCKET_CONNECTED \<and> 0 \<le> peer_fd (aget t fd)")
  case False
  then have "s_peer (abs_sock (aget t fd)) = None" by (simp add: abs_sock_def)
  with False show ?thesis by (auto simp: notify_peer_def disconnect_def)
next
  case True
  define p where "p = peer_fd (aget t fd)"
  have peer: "s_peer (abs_sock (aget t fd)) = Some p" using True by (simp add: abs_sock_def p_def)
  have clear: "abs_sock (e\<lparr>peer_fd := -1\<rparr>) = (abs_sock e)\<lparr>s_peer := None\<rparr>" for e
    by (simp add: abs_sock_def)
  show ?thesis
  proof (cases "fd_valid t p")
    case False
    with True peer show ?thesis
      by (simp add: notify_peer_def disconnect_def abs_table_none flip: p_def)
  next
    case valid: True
    with True peer assms(1) show ?thesis
      by (simp add: notify_peer_def disconnect_def abs_table_some abs_table_aset abs_entry_def clear
          fd_valid_iff flip: p_def)
  qed
qed

lemma close_refines:
  assumes "fdtable_wf t"
  shows "spec_close (abs_table t) r = map_prod abs_table id (fdtable_dispatch_close t r)"
proof (cases "fd_valid t (close_sock (u_close r))")
  case False
  then show ?thesis by (simp add: spec_close_def fdtable_dispatch_close_def abs_table_none)
next
  case True
  then show ?thesis using assms
    by (simp add: spec_close_def fdtable_dispatch_close_def abs_table_some abs_notify_peer Let_def
        abs_table_aset notify_peer_wf fd_valid_iff)
qed

lemma bind_refines:
  assumes "fdtable_wf t"
  shows "spec_bind (abs_table t) r = map_prod abs_table id (fdtable_dispatch_bind t r)"
proof (cases "fd_valid t (bind_sock (u_bind r))")
  case False
  then show ?thesis by (simp add: spec_bind_def fdtable_dispatch_bind_def abs_table_none)
next
  case True
  then show ?thesis using assms
    by (simp add: spec_bind_def fdtable_dispatch_bind_def abs_table_some Let_def port_in_use_spec
        abs_table_aset fd_valid_iff) (simp add: abs_entry_def abs_sock_def)
qed

lemma listen_refines:
  assumes "fdtable_wf t"
  shows "spec_listen (abs_table t) r = map_prod abs_table id (fdtable_dispatch_listen t r)"
proof (cases "fd_valid t (listen_sock (u_listen r))")
  case False
  then show ?thesis by (simp add: spec_listen_def fdtable_dispatch_listen_def abs_table_none)
next
  case True
  then show ?thesis using assms
    by (simp add: spec_listen_def fdtable_dispatch_listen_def abs_table_some Let_def
        abs_table_aset fd_valid_iff) (simp add: abs_entry_def abs_sock_def pending_def rx_bytes_def)
qed


lemma length_pending:
  "entry_wf e \<Longrightarrow> int (length (pending e)) = backlog_count e"
  by (simp add: pending_def entry_wf_def backlog_wf_def)

lemma connect_refines:
  assumes wf: "fdtable_wf t"
  shows "spec_connect (abs_table t) r = map_prod abs_table id (fdtable_dispatch_connect t r)"
proof -
  let ?fd = "connect_sock (u_connect r)" and ?p = "connect_port (u_connect r)"
  show ?thesis
  proof (cases "fd_valid t ?fd \<and> kind (aget t ?fd) = FD_SOCKET_UNBOUND")
    case False
    then show ?thesis
      by (cases "fd_valid t ?fd")
        (auto simp: spec_connect_def fdtable_dispatch_connect_def abs_table_none abs_table_some
          Let_def fd_valid_iff)
  next
    case True
    then have fd: "fd_in_range ?fd" "abs_table t ?fd = Some (abs_sock (aget t ?fd))"
      by (auto simp: fd_valid_iff abs_table_some)
    show ?thesis
    proof (cases "find (\<lambda>i. listener_on ?p (abs_table t i)) all_fds")
      case None
      with True fd(2) show ?thesis
        by (simp add: spec_connect_def fdtable_dispatch_connect_def find_listener_spec Let_def)
    next
      case (Some lfd)
      from find_all_fds_Some [OF Some]
      have lfd: "fd_in_range lfd" "kind (aget t lfd) = FD_SOCKET_LISTEN"
        by (auto simp: listener_on_def abs_table_def abs_entry_def split: if_splits)
      note wf_l = fdtable_wf_aget [OF wf lfd(1)]
      have full: "int (length (pending (aget t lfd))) = 4 \<longleftrightarrow> 4 \<le> backlog_count (aget t lfd)"
        using length_pending [OF wf_l] entry_wfD(1) [OF wf_l] by (auto simp: backlog_wf_def)
      have ne: "?fd \<noteq> lfd" using True lfd by auto
      let ?c = "(aget t ?fd)\<lparr>kind := FD_SOCKET_CONNECTED, peer_fd := -1, peer_port := ?p\<rparr>"
      have wf1: "fdtable_wf (aset t ?fd ?c)"
        using wf fdtable_wf_aget [OF wf fd(1)] by (auto simp: entry_wf_def)
      show ?thesis
        using True Some fd lfd ne wf wf1 wf_l full
        by (simp add: spec_connect_def fdtable_dispatch_connect_def find_listener_spec Let_def
            abs_table_aset abs_table_some fd_valid_iff)
          (simp add: abs_entry_def abs_sock_def pending_push entry_wfD)
    qed
  qed
qed


lemma free_fd_upd: "m fd \<noteq> None \<Longrightarrow> free_fd (m(fd \<mapsto> s)) = free_fd m"
  unfolding free_fd_def by (rule find_all_fds_cong) auto

lemma free_fd_Some: "free_fd m = Some n \<Longrightarrow> fd_in_range n \<and> m n = None"
  by (auto simp: free_fd_def dest: find_all_fds_Some)

lemma abs_attach:
  assumes "fdtable_wf t" "fd_in_range c" "fd_in_range n"
  shows "abs_table (aset t c ((aget t c)\<lparr>peer_fd := n\<rparr>)) = attach c n (abs_table t)"
  using assms
  by (cases "kind (aget t c)")
    (auto simp: attach_def abs_table_aset abs_table_def abs_entry_def abs_sock_def fun_eq_iff)

text \<open>
  A successful accept in one equation: \<open>c\<close> is the oldest client, \<open>lst\<close> the listener without it
  and \<open>n\<close> the lowest free descriptor.
\<close>

definition accepted_entry :: "fd_entry \<Rightarrow> int32 \<Rightarrow> fd_entry" where
  "accepted_entry lst c =
     fd_entry_zero\<lparr>kind := FD_SOCKET_CONNECTED, domain := domain lst, type := type lst,
       proto := proto lst, local_port := local_port lst, peer_fd := c, peer_port := 0\<rparr>"

definition accepted_table :: "fdtable \<Rightarrow> int32 \<Rightarrow> fd_entry \<Rightarrow> int32 \<Rightarrow> int32 \<Rightarrow> fdtable" where
  "accepted_table t fd lst n c =
     (let t3 = aset (aset t fd lst) n (accepted_entry lst c)
      in aset t3 c ((aget t3 c)\<lparr>peer_fd := n\<rparr>))"

lemma listener_popped:
  assumes wf: "fdtable_wf t" and l: "fd_valid t fd" "kind (aget t fd) = FD_SOCKET_LISTEN"
    and ne: "backlog_count (aget t fd) \<noteq> 0" and pop: "backlog_pop (aget t fd) = (c, lst)"
  shows "entry_wf lst" "fd_in_range c" "pending (aget t fd) = c # pending lst"
    "kind lst = FD_SOCKET_LISTEN" "lst = snd (backlog_pop (aget t fd))"
    "abs_table (aset t fd lst) = (abs_table t)(fd \<mapsto> (abs_sock (aget t fd))\<lparr>s_queue := pending lst\<rparr>)"
    "free_fd (abs_table (aset t fd lst)) = free_fd (abs_table t)"
proof -
  have rng: "fd_in_range fd" using l by (simp add: fd_valid_iff)
  note wf_l = fdtable_wf_aget [OF wf rng]
  show lst: "lst = snd (backlog_pop (aget t fd))" using pop by simp
  show "entry_wf lst" "fd_in_range c" using entry_wf_backlog_pop [OF wf_l ne pop] by simp_all
  show "pending (aget t fd) = c # pending lst" using pending_pop [OF entry_wfD(1) [OF wf_l] ne pop] .
  show kind: "kind lst = FD_SOCKET_LISTEN" using l by (simp add: lst)
  show abs1: "abs_table (aset t fd lst) = (abs_table t)(fd \<mapsto> (abs_sock (aget t fd))\<lparr>s_queue := pending lst\<rparr>)"
    using wf rng l by (simp add: abs_table_aset abs_entry_def kind) (simp add: abs_sock_def lst)
  show "free_fd (abs_table (aset t fd lst)) = free_fd (abs_table t)"
    using abs_table_some [OF l(1)] by (simp add: abs1 free_fd_upd)
qed

lemma accept_success:
  assumes wf: "fdtable_wf t" and l: "fd_valid t (accept_sock (u_accept r))"
      "kind (aget t (accept_sock (u_accept r))) = FD_SOCKET_LISTEN"
    and ne: "backlog_count (aget t (accept_sock (u_accept r))) \<noteq> 0"
    and pop: "backlog_pop (aget t (accept_sock (u_accept r))) = (c, lst)"
    and n: "free_fd (abs_table t) = Some n"
  shows "fdtable_dispatch_accept t r =
    (accepted_table t (accept_sock (u_accept r)) lst n c,
     r\<lparr>u_accept := (u_accept r)\<lparr>accept_new_sock := n, accept_peer_port := local_port lst\<rparr>,
       err := NETSTACK_OK\<rparr>)"
proof -
  let ?fd = "accept_sock (u_accept r)"
  note p = listener_popped [OF wf l ne pop]
  have fd: "fd_in_range ?fd" using l by (simp add: fd_valid_iff)
  from free_fd_Some [OF n] have n': "fd_in_range n" "?fd \<noteq> n" using abs_table_some [OF l(1)] by auto
  have alloc: "alloc_fd (aset t ?fd lst) = (n, aset (aset t ?fd lst) n (fd_entry_zero\<lparr>peer_fd := -1\<rparr>))"
    by (simp add: alloc_fd_spec p(7) n)
  have t2: "aget (aset (aset t ?fd lst) n z) ?fd = lst" "aget (aset (aset t ?fd lst) n z) n = z" for z
    using wf fd n' by (simp_all add: aget_aset)
  have port: "local_port (aget (accepted_table t ?fd lst n c) ?fd) = local_port lst"
    using wf fd n' p(2) by (simp add: accepted_table_def Let_def aget_aset accepted_entry_def)
  have table: "aset (aset (aset t ?fd lst) n (accepted_entry lst c)) c
      ((aget (aset (aset t ?fd lst) n (accepted_entry lst c)) c)\<lparr>peer_fd := n\<rparr>) = accepted_table t ?fd lst n c"
    by (simp add: accepted_table_def Let_def)
  show ?thesis
    using l ne n'(1) port table unfolding fdtable_dispatch_accept_def Let_def
    by (simp add: pop alloc t2 accepted_entry_def)
qed

lemma abs_accepted_table:
  assumes wf: "fdtable_wf t" and l: "fd_valid t fd" "kind (aget t fd) = FD_SOCKET_LISTEN"
    and ne: "backlog_count (aget t fd) \<noteq> 0" and pop: "backlog_pop (aget t fd) = (c, lst)"
    and n: "fd_in_range n"
  shows "abs_table (accepted_table t fd lst n c) =
    attach c n ((abs_table t)(fd \<mapsto> (abs_sock (aget t fd))\<lparr>s_queue := pending lst\<rparr>,
                              n \<mapsto> abs_sock (accepted_entry lst c)))"
proof -
  note p = listener_popped [OF wf l ne pop]
  have wf1: "fdtable_wf (aset t fd lst)" using wf p(1) by auto
  have "entry_wf (accepted_entry lst c)" using p(2) by (simp add: accepted_entry_def entry_wf_def)
  then have wf3: "fdtable_wf (aset (aset t fd lst) n (accepted_entry lst c))" using wf1 by auto
  have "abs_entry (accepted_entry lst c) = Some (abs_sock (accepted_entry lst c))"
    by (simp add: abs_entry_def accepted_entry_def)
  with wf1 n show ?thesis
    by (simp add: accepted_table_def Let_def abs_attach [OF wf3 p(2) n] abs_table_aset p(6))
qed

lemma accept_refines:
  assumes wf: "fdtable_wf t"
  shows "spec_accept (abs_table t) r = map_prod abs_table id (fdtable_dispatch_accept t r)"
proof -
  let ?fd = "accept_sock (u_accept r)"
  show ?thesis
  proof (cases "fd_valid t ?fd \<and> kind (aget t ?fd) = FD_SOCKET_LISTEN")
    case False
    then show ?thesis
      by (cases "fd_valid t ?fd")
        (auto simp: spec_accept_def fdtable_dispatch_accept_def abs_table_none abs_table_some Let_def)
  next
    case True
    then have l: "fd_valid t ?fd" "kind (aget t ?fd) = FD_SOCKET_LISTEN" by simp_all
    then have fd: "fd_in_range ?fd" by (simp add: fd_valid_iff)
    note some = abs_table_some [OF l(1)]
    note wf_l = fdtable_wf_aget [OF wf fd]
    show ?thesis
    proof (cases "backlog_count (aget t ?fd) = 0")
      case empty: True
      then have "pending (aget t ?fd) = []" using length_pending [OF wf_l] by simp
      with l empty some show ?thesis by (simp add: spec_accept_def fdtable_dispatch_accept_def Let_def)
    next
      case False
      obtain c lst where pop: "backlog_pop (aget t ?fd) = (c, lst)" by (cases "backlog_pop (aget t ?fd)")
      note p = listener_popped [OF wf l False pop]
      show ?thesis
      proof (cases "free_fd (abs_table t)")
        case None
        then have "alloc_fd (aset t ?fd lst) = (-1, aset t ?fd lst)" by (simp add: alloc_fd_spec p(7))
        with None show ?thesis
          using l False fd some pop p(3) wf backlog_unpop_pop [OF entry_wfD(1) [OF wf_l] pop]
          by (simp add: spec_accept_def fdtable_dispatch_accept_def Let_def)
      next
        case (Some n)
        have n: "fd_in_range n" using free_fd_Some [OF Some] by simp
        have new: "abs_sock (accepted_entry lst c) =
            \<lparr>s_kind = Connected, s_domain = domain lst, s_type = type lst, s_proto = proto lst,
             s_port = local_port lst, s_queue = [], s_peer = Some c, s_stream = []\<rparr>"
          using p(2) by (simp add: abs_sock_def accepted_entry_def)
        show ?thesis
          using l some Some p(3)
          by (simp add: accept_success [OF wf l False pop Some] abs_accepted_table [OF wf l False pop n] new
              spec_accept_def Let_def) (simp add: p(5))
      qed
    qed
  qed
qed

lemma send_connected:
  assumes "fd_valid t (send_sock (u_send r))" "kind (aget t (send_sock (u_send r))) = FD_SOCKET_CONNECTED"
    and "peer_fd (aget t (send_sock (u_send r))) = p" "fd_valid t p"
  shows "fdtable_dispatch_send t r =
    (let len = send_len_in (u_send r); pe = rx_compact (aget t p); room = RXBUF_SIZE - rx_tail pe in
     if len < 0 \<or> len > NETSTACK_MAX_PAYLOAD then (t, r\<lparr>err := NETSTACK_EMSGSIZE\<rparr>)
     else if room \<le> 0
     then (aset t p pe, r\<lparr>err := NETSTACK_EAGAIN, u_send := (u_send r)\<lparr>send_len_out := 0\<rparr>\<rparr>)
     else (aset t p (rx_append (take (nat (min len room)) (send_data (u_send r))) pe),
           r\<lparr>u_send := (u_send r)\<lparr>send_len_out := min len room\<rparr>, err := NETSTACK_OK\<rparr>))"
proof -
  have "0 \<le> p" using assms(4) by (simp add: fd_valid_iff)
  with assms(1,2,4) show ?thesis
    unfolding fdtable_dispatch_send_def Let_def assms(3) min_def by simp
qed

lemma send_refines:
  assumes wf: "fdtable_wf t"
  shows "spec_send (abs_table t) r = map_prod abs_table id (fdtable_dispatch_send t r)"
proof -
  let ?fd = "send_sock (u_send r)" and ?len = "send_len_in (u_send r)"
  define p where "p = peer_fd (aget t ?fd)"
  show ?thesis
  proof (cases "fd_valid t ?fd \<and> kind (aget t ?fd) = FD_SOCKET_CONNECTED \<and> 0 \<le> p \<and> fd_valid t p")
    case False
    then show ?thesis
      by (cases "fd_valid t ?fd")
        (auto simp: spec_send_def fdtable_dispatch_send_def abs_table_none abs_table_some Let_def
          abs_sock_def p_def)
  next
    case True
    then have fd: "abs_table t ?fd = Some (abs_sock (aget t ?fd))" "s_peer (abs_sock (aget t ?fd)) = Some p"
      and p: "fd_in_range p" "abs_table t p = Some (abs_sock (aget t p))" "kind (aget t p) \<noteq> FD_FREE"
      by (auto simp: abs_table_some abs_sock_def p_def fd_valid_iff)
    note wf_p = entry_wfD(2) [OF fdtable_wf_aget [OF wf p(1)]]
    define pe where "pe = rx_compact (aget t p)"
    define room where "room = RXBUF_SIZE - rx_tail pe"
    have pe: "rx_wf pe" "rx_bytes pe = rx_bytes (aget t p)" "kind pe = kind (aget t p)"
      using rx_compact_wf(1) [OF wf_p] rx_bytes_compact [OF wf_p] by (simp_all add: pe_def)
    have room: "RXBUF_SIZE - int (length (rx_bytes (aget t p))) = room"
      using length_rx_bytes [OF wf_p] rx_compact_wf(3) [OF wf_p] by (simp add: room_def pe_def)
    have tail: "0 \<le> room" using pe(1) by (simp add: rx_wf_def room_def)
    have compact: "abs_sock pe = abs_sock (aget t p)"
      using pe(2) by (simp add: abs_sock_def pe_def)
    have append: "abs_sock (rx_append bs pe) = (abs_sock (aget t p))\<lparr>s_stream := rx_bytes (aget t p) @ bs\<rparr>"
      if "int (length bs) \<le> room" for bs
      using rx_append_wf(2) [OF pe(1) that [unfolded room_def]] pe(2) by (simp add: abs_sock_def pe_def)
    have conc: "fdtable_dispatch_send t r =
        (if ?len < 0 \<or> ?len > NETSTACK_MAX_PAYLOAD then (t, r\<lparr>err := NETSTACK_EMSGSIZE\<rparr>)
         else if room \<le> 0
         then (aset t p pe, r\<lparr>err := NETSTACK_EAGAIN, u_send := (u_send r)\<lparr>send_len_out := 0\<rparr>\<rparr>)
         else (aset t p (rx_append (take (nat (min ?len room)) (send_data (u_send r))) pe),
               r\<lparr>u_send := (u_send r)\<lparr>send_len_out := min ?len room\<rparr>, err := NETSTACK_OK\<rparr>))"
      using send_connected [of t r p] True by (simp add: p_def Let_def pe_def room_def)
    have spec: "spec_send (abs_table t) r =
        (if ?len < 0 \<or> ?len > NETSTACK_MAX_PAYLOAD then (abs_table t, r\<lparr>err := NETSTACK_EMSGSIZE\<rparr>)
         else if room = 0
         then (abs_table t, r\<lparr>err := NETSTACK_EAGAIN, u_send := (u_send r)\<lparr>send_len_out := 0\<rparr>\<rparr>)
         else ((abs_table t)(p \<mapsto> (abs_sock (aget t p))\<lparr>s_stream :=
                 rx_bytes (aget t p) @ take (nat (min ?len room)) (send_data (u_send r))\<rparr>),
               r\<lparr>err := NETSTACK_OK, u_send := (u_send r)\<lparr>send_len_out := min ?len room\<rparr>\<rparr>))"
      by (simp add: spec_send_def Let_def fd p room)
    have idem: "(abs_table t)(p := Some (abs_sock (aget t p))) = abs_table t"
      using p(2) by (simp add: fun_upd_idem)
    show ?thesis
      using wf p pe(3) tail unfolding conc spec
      by (simp add: abs_table_aset abs_entry_def compact append idem)
  qed
qed

lemma recv_refines:
  assumes wf: "fdtable_wf t"
  shows "spec_recv (abs_table t) r = map_prod abs_table id (fdtable_dispatch_recv t r)"
proof -
  let ?fd = "recv_sock (u_recv r)"
  let ?e = "aget t ?fd"
  show ?thesis
  proof (cases "fd_valid t ?fd \<and> kind ?e = FD_SOCKET_CONNECTED")
    case False
    then show ?thesis
      by (cases "fd_valid t ?fd")
        (auto simp: spec_recv_def fdtable_dispatch_recv_def abs_table_none abs_table_some Let_def)
  next
    case True
    then have fd: "fd_in_range ?fd" "abs_table t ?fd = Some (abs_sock ?e)"
      by (auto simp: fd_valid_iff abs_table_some)
    note wf_e = entry_wfD(2) [OF fdtable_wf_aget [OF wf fd(1)]]
    note len = length_rx_bytes [OF wf_e]
    have eof: "Option.bind (s_peer (abs_sock ?e)) (abs_table t) = None \<longleftrightarrow>
        peer_fd ?e < 0 \<or> \<not> fd_valid t (peer_fd ?e)"
      using True by (auto simp: abs_sock_def abs_table_none_iff)
    show ?thesis
    proof (cases "rx_bytes ?e = []")
      case empty: True
      with len have "rx_tail ?e - rx_head ?e \<le> 0" by simp
      with True fd empty eof show ?thesis
        by (simp add: spec_recv_def fdtable_dispatch_recv_def Let_def)
    next
      case False
      with len have avail: "\<not> rx_tail ?e - rx_head ?e \<le> 0" by (metis length_0_conv of_nat_le_0_iff)
      define n where "n = recv_count (recv_len_in (u_recv r)) (rx_tail ?e - rx_head ?e)"
      have n_eq: "n = min (int (length (rx_bytes ?e))) (min NETSTACK_MAX_PAYLOAD (max 0 (recv_len_in (u_recv r))))"
        by (simp add: n_def recv_count_min len)
      have n: "0 \<le> n" "n \<le> rx_tail ?e - rx_head ?e"
        using avail by (auto simp: n_def recv_count_bounds)
      note consume = rx_bytes_consume [OF wf_e n]
      have abs': "abs_sock (snd (rx_consume n ?e)) = (abs_sock ?e)\<lparr>s_stream := drop (nat n) (rx_bytes ?e)\<rparr>"
        by (simp add: abs_sock_def consume(2))
      have conc: "fdtable_dispatch_recv t r =
          (aset t ?fd (snd (rx_consume n ?e)),
           r\<lparr>u_recv := (u_recv r)\<lparr>recv_data := blit (recv_data (u_recv r)) 0 (take (nat n) (rx_bytes ?e)),
                                   recv_len_out := n\<rparr>, err := NETSTACK_OK\<rparr>)"
        using True avail unfolding fdtable_dispatch_recv_def Let_def n_def [symmetric] consume(1) [symmetric]
        by (simp add: split_beta)
      have spec: "spec_recv (abs_table t) r =
          ((abs_table t)(?fd \<mapsto> (abs_sock ?e)\<lparr>s_stream := drop (nat n) (rx_bytes ?e)\<rparr>),
           r\<lparr>err := NETSTACK_OK,
             u_recv := (u_recv r)\<lparr>recv_data := blit (recv_data (u_recv r)) 0 (take (nat n) (rx_bytes ?e)),
                                   recv_len_out := n\<rparr>\<rparr>)"
        using True False fd(2) unfolding n_eq spec_recv_def Let_def by simp
      show ?thesis
        using True fd(1) wf unfolding conc spec by (simp add: abs_table_aset abs_entry_def abs')
    qed
  qed
qed

end
