(* ===== verification/Engine.thy ===== *)
theory Engine
  imports SockSpec
begin

unbundle bit_operations_syntax

text \<open>
  \<open>netstack.process\<close> (\<open>src/phase2_engine/engine_main.c\<close>): the request dispatcher, the
  message loop of the engine task, and the launcher's start and stop.

  Exec is not part of the repository. What it answers is an argument of the definitions
  that call it: the port or task it allocates, the signal bits, the result of each
  \<open>Wait\<close> and the messages \<open>GetMsg\<close> hands out before it returns \<open>NULL\<close>. What the code
  asks of exec without using an answer (\<open>Signal\<close>, \<open>ReplyMsg\<close>, \<open>FreeSignal\<close>, \<open>FreeSysObject\<close>,
  \<open>PutMsg\<close>) is recorded in order as a list of \<open>exec_call\<close>s.
\<close>

datatype exec_call =
    Signal ptr uint32
  | ReplyMsg NetstackReq
  | PutMsg ptr NetstackReq
  | FreeSignal int
  | FreePort ptr
  | CreateTask uint32
  | Remove ptr
  | DeleteLibrary ptr

record engine =
  g_fdtable :: fdtable
  g_engine_task :: ptr
  g_launcher_task :: ptr
  g_launcher_ready_mask :: uint32
  g_launcher_stopped_mask :: uint32
  g_engine_ready :: bool
  g_engine_shutdown :: bool
  g_request_port :: ptr

definition engine_init :: engine where
  "engine_init =
     \<lparr>g_fdtable = g_fdtable_init, g_engine_task = NULL, g_launcher_task = NULL,
      g_launcher_ready_mask = 0, g_launcher_stopped_mask = 0, g_engine_ready = False,
      g_engine_shutdown = False, g_request_port = NULL\<rparr>"

section \<open>Dispatch\<close>

definition dispatch_ping :: "NetstackReq \<Rightarrow> NetstackReq" where
  "dispatch_ping r =
     r\<lparr>u_ping := (u_ping r)\<lparr>ping_payload := ping_payload (u_ping r) + 1\<rparr>, err := NETSTACK_OK\<rparr>"

definition dispatch_shutdown :: "engine \<Rightarrow> NetstackReq \<Rightarrow> engine \<times> NetstackReq" where
  "dispatch_shutdown s r = (s\<lparr>g_engine_shutdown := True\<rparr>, r\<lparr>err := NETSTACK_OK\<rparr>)"

text \<open>The socket operations: the table and the request as the handler leaves them.\<close>

definition with_fdtable ::
  "(fdtable \<Rightarrow> NetstackReq \<Rightarrow> fdtable \<times> NetstackReq) \<Rightarrow> engine \<Rightarrow> NetstackReq \<Rightarrow> engine \<times> NetstackReq"
where
  "with_fdtable h s r = (case h (g_fdtable s) r of (t, r') \<Rightarrow> (s\<lparr>g_fdtable := t\<rparr>, r'))"

definition dispatch_request :: "engine \<Rightarrow> NetstackReq \<Rightarrow> engine \<times> NetstackReq" where
  "dispatch_request s r =
     (if op r = NETSTACK_OP_PING then (s, dispatch_ping r)
      else if op r = NETSTACK_OP_SHUTDOWN then dispatch_shutdown s r
      else if op r = NETSTACK_OP_SOCKET then with_fdtable fdtable_dispatch_socket s r
      else if op r = NETSTACK_OP_CLOSE then with_fdtable fdtable_dispatch_close s r
      else if op r = NETSTACK_OP_BIND then with_fdtable fdtable_dispatch_bind s r
      else if op r = NETSTACK_OP_LISTEN then with_fdtable fdtable_dispatch_listen s r
      else if op r = NETSTACK_OP_CONNECT then with_fdtable fdtable_dispatch_connect s r
      else if op r = NETSTACK_OP_ACCEPT then with_fdtable fdtable_dispatch_accept s r
      else if op r = NETSTACK_OP_SEND then with_fdtable fdtable_dispatch_send s r
      else if op r = NETSTACK_OP_RECV then with_fdtable fdtable_dispatch_recv s r
      else (s, r\<lparr>err := NETSTACK_ENOSYS\<rparr>))"

section \<open>The engine task\<close>

abbreviation (input) SIGBREAKF_CTRL_C :: uint32 where "SIGBREAKF_CTRL_C \<equiv> 0x1000"

text \<open>
  \<open>engine_open s port\<close>: the task up to its \<open>READY\<close> signal, with the port
  \<open>AllocSysObjectTags\<close> returned.
\<close>

definition engine_open :: "engine \<Rightarrow> ptr \<Rightarrow> engine \<times> exec_call list" where
  "engine_open s port =
     (let s1 = s\<lparr>g_request_port := port\<rparr> in
      if port = NULL then (s1, [Signal (g_launcher_task s) (g_launcher_ready_mask s)])
      else (s1\<lparr>g_engine_ready := True, g_engine_shutdown := False\<rparr>,
            [Signal (g_launcher_task s) (g_launcher_ready_mask s)]))"

text \<open>The inner loop: every message \<open>GetMsg\<close> returns is dispatched and replied.\<close>

fun drain_port :: "engine \<Rightarrow> NetstackReq list \<Rightarrow> engine \<times> exec_call list" where
  "drain_port s [] = (s, [])"
| "drain_port s (r # rs) =
     (let (s1, r1) = dispatch_request s r;
          (s2, calls) = drain_port s1 rs
      in (s2, ReplyMsg r1 # calls))"

text \<open>
  The outer loop. A wakeup is what \<open>Wait\<close> returned and the messages the port then held.
  The loop ends by a shutdown request or by a break signal, or it is still waiting when no
  wakeup is left.
\<close>

datatype loop_end = Shut_down | Break_signal | Waiting

fun engine_loop ::
  "uint32 \<Rightarrow> engine \<Rightarrow> (uint32 \<times> NetstackReq list) list \<Rightarrow> loop_end \<times> engine \<times> exec_call list"
where
  "engine_loop port_sig s [] = (if g_engine_shutdown s then Shut_down else Waiting, s, [])"
| "engine_loop port_sig s ((got, msgs) # ws) =
     (if g_engine_shutdown s then (Shut_down, s, [])
      else if got AND SIGBREAKF_CTRL_C \<noteq> 0 then (Break_signal, s, [])
      else
        let (s1, calls1) = (if got AND port_sig \<noteq> 0 then drain_port s msgs else (s, []));
            (e, s2, calls2) = engine_loop port_sig s1 ws
        in (e, s2, calls1 @ calls2))"

definition engine_teardown :: "engine \<Rightarrow> engine \<times> exec_call list" where
  "engine_teardown s =
     (s\<lparr>g_request_port := NULL, g_engine_ready := False\<rparr>,
      [FreePort (g_request_port s), Signal (g_launcher_task s) (g_launcher_stopped_mask s)])"

text \<open>The whole task: \<open>mp_SigBit\<close> is the signal bit exec gave the port.\<close>

definition engine_process_main ::
  "ptr \<Rightarrow> nat \<Rightarrow> (uint32 \<times> NetstackReq list) list \<Rightarrow> engine \<Rightarrow> loop_end option \<times> engine \<times> exec_call list"
where
  "engine_process_main port mp_SigBit wakeups s =
     (let (s1, calls1) = engine_open s port in
      if port = NULL then (None, s1, calls1)
      else
        let (e, s2, calls2) = engine_loop (push_bit mp_SigBit 1) s1 wakeups in
        if e = Waiting then (Some e, s2, calls1 @ calls2)
        else let (s3, calls3) = engine_teardown s2 in (Some e, s3, calls1 @ calls2 @ calls3))"

section \<open>Start, stop\<close>

record NetstackConfig =
  priority :: uint32
  mbuf_pool_kb :: uint32
  socket_max :: uint32
  default_iface :: ptr

text \<open>What exec answers to a start: the caller, two signal bits, the task, the task's port.\<close>

record start_env =
  self_task :: ptr
  ready_bit :: int
  stopped_bit :: int
  new_task :: ptr
  new_port :: ptr

definition bit_mask :: "int \<Rightarrow> uint32" where
  "bit_mask b = push_bit (nat b) 1"

definition start_priority :: "NetstackConfig option \<Rightarrow> uint32" where
  "start_priority cfg =
     (case cfg of Some c \<Rightarrow> if priority c \<noteq> 0 then priority c else 5 | None \<Rightarrow> 5)"

definition NetstackEngine_Start ::
  "NetstackConfig option \<Rightarrow> start_env \<Rightarrow> engine \<Rightarrow> int32 \<times> engine \<times> exec_call list"
where
  "NetstackEngine_Start cfg env s =
     (if g_engine_task s \<noteq> NULL then (-1, s, [])
      else
        let s1 = s\<lparr>g_launcher_task := self_task env\<rparr> in
        if ready_bit env < 0 \<or> stopped_bit env < 0
        then (-1, s1, (if ready_bit env \<ge> 0 then [FreeSignal (ready_bit env)] else []) @
                      (if stopped_bit env \<ge> 0 then [FreeSignal (stopped_bit env)] else []))
        else
          let s2 = s1\<lparr>g_launcher_ready_mask := bit_mask (ready_bit env),
                      g_launcher_stopped_mask := bit_mask (stopped_bit env),
                      g_engine_ready := False\<rparr>;
              s3 = s2\<lparr>g_engine_task := new_task env\<rparr>;
              calls = [CreateTask (start_priority cfg)]
          in
          if new_task env = NULL
          then (-1, s3, calls @ [FreeSignal (ready_bit env), FreeSignal (stopped_bit env)])
          else
            let (s4, ocalls) = engine_open s3 (new_port env) in
            if \<not> g_engine_ready s4
            then (-1, s4\<lparr>g_engine_task := NULL\<rparr>,
                  calls @ ocalls @ [FreeSignal (ready_bit env), FreeSignal (stopped_bit env)])
            else (0, s4, calls @ ocalls))"

definition shutdown_req :: "ptr \<Rightarrow> NetstackReq" where
  "shutdown_req reply = req_zero\<lparr>mn_ReplyPort := reply, op := NETSTACK_OP_SHUTDOWN\<rparr>"

text \<open>How the launcher asks the engine to stop; \<open>reply\<close> is the reply port exec allocated.\<close>

definition stop_request :: "ptr \<Rightarrow> engine \<Rightarrow> exec_call list" where
  "stop_request reply s =
     (if g_request_port s \<noteq> NULL
      then if reply \<noteq> NULL
           then [PutMsg (g_request_port s) (shutdown_req reply), FreePort reply]
           else [Signal (g_engine_task s) SIGBREAKF_CTRL_C]
      else [Signal (g_engine_task s) SIGBREAKF_CTRL_C])"

fun free_masks :: "uint32 \<Rightarrow> uint32 \<Rightarrow> nat \<Rightarrow> exec_call list" where
  "free_masks rm sm 0 = []"
| "free_masks rm sm (Suc b) =
     free_masks rm sm b @
     (if rm = push_bit b 1 then [FreeSignal (int b)] else []) @
     (if sm = push_bit b 1 then [FreeSignal (int b)] else [])"

text \<open>
  The launcher's part after the engine has signalled that it stopped: \<open>s\<close> is the state the
  engine's teardown left.
\<close>

definition stop_finish :: "engine \<Rightarrow> engine \<times> exec_call list" where
  "stop_finish s =
     (s\<lparr>g_launcher_ready_mask := 0, g_launcher_stopped_mask := 0, g_engine_task := NULL\<rparr>,
      free_masks (g_launcher_ready_mask s) (g_launcher_stopped_mask s) 32)"

text \<open>
  A stop while the engine sits in its loop with an empty port: the engine takes the request
  or the break signal, tears down, and the launcher finishes.
\<close>

definition engine_stops :: "ptr \<Rightarrow> engine \<Rightarrow> engine \<times> exec_call list" where
  "engine_stops reply s =
     (if g_request_port s \<noteq> NULL \<and> reply \<noteq> NULL
      then let (s1, calls) = drain_port s [shutdown_req reply];
               (s2, calls') = engine_teardown s1
           in (s2, calls @ calls')
      else if g_engine_ready s then engine_teardown s
      else (s, []))"

definition NetstackEngine_Stop :: "ptr \<Rightarrow> engine \<Rightarrow> int32 \<times> engine \<times> exec_call list" where
  "NetstackEngine_Stop reply s =
     (if g_engine_task s = NULL then (0, s, [])
      else
        let (s1, ecalls) = engine_stops reply s;
            (s2, fcalls) = stop_finish s1
        in (0, s2, stop_request reply s @ ecalls @ fcalls))"

definition NetstackEngine_IsRunning :: "engine \<Rightarrow> bool" where
  "NetstackEngine_IsRunning s \<longleftrightarrow> g_engine_task s \<noteq> NULL \<and> g_engine_ready s"

section \<open>The engine seen abstractly\<close>

text \<open>The sockets, and whether a shutdown was requested.\<close>

definition abs_engine :: "engine \<Rightarrow> socks \<times> bool" where
  "abs_engine s = (abs_table (g_fdtable s), g_engine_shutdown s)"

definition spec_handler :: "uint16 \<Rightarrow> (socks \<Rightarrow> NetstackReq \<Rightarrow> socks \<times> NetstackReq) option" where
  "spec_handler code =
     map_of [(NETSTACK_OP_SOCKET, spec_socket), (NETSTACK_OP_CLOSE, spec_close),
             (NETSTACK_OP_BIND, spec_bind), (NETSTACK_OP_LISTEN, spec_listen),
             (NETSTACK_OP_CONNECT, spec_connect), (NETSTACK_OP_ACCEPT, spec_accept),
             (NETSTACK_OP_SEND, spec_send), (NETSTACK_OP_RECV, spec_recv)] code"

definition spec_dispatch :: "socks \<times> bool \<Rightarrow> NetstackReq \<Rightarrow> (socks \<times> bool) \<times> NetstackReq" where
  "spec_dispatch a r =
     (case spec_handler (op r) of
        Some g \<Rightarrow> (case g (fst a) r of (m, r') \<Rightarrow> ((m, snd a), r'))
      | None \<Rightarrow>
          if op r = NETSTACK_OP_PING
          then (a, r\<lparr>err := NETSTACK_OK, u_ping := (u_ping r)\<lparr>ping_payload := ping_payload (u_ping r) + 1\<rparr>\<rparr>)
          else if op r = NETSTACK_OP_SHUTDOWN then ((fst a, True), r\<lparr>err := NETSTACK_OK\<rparr>)
          else (a, r\<lparr>err := NETSTACK_ENOSYS\<rparr>))"

fun spec_run :: "socks \<times> bool \<Rightarrow> NetstackReq list \<Rightarrow> (socks \<times> bool) \<times> NetstackReq list" where
  "spec_run a [] = (a, [])"
| "spec_run a (r # rs) =
     (case spec_dispatch a r of (a1, r1) \<Rightarrow>
        (case spec_run a1 rs of (a2, rs2) \<Rightarrow> (a2, r1 # rs2)))"

text \<open>What every handler leaves alone in a request.\<close>

definition req_frame :: "NetstackReq \<Rightarrow> NetstackReq \<Rightarrow> bool" where
  "req_frame r r' \<longleftrightarrow>
     mn_ReplyPort r' = mn_ReplyPort r \<and> op r' = op r \<and> (req_wf r \<longrightarrow> req_wf r')"

section \<open>The contract of a socket handler\<close>

text \<open>
  What the dispatcher relies on: a handler keeps the table well-formed, computes what its
  abstract counterpart computes, and leaves the message header and the sizes of the data
  arrays of the request alone.
\<close>

locale socket_handler =
  fixes h :: "fdtable \<Rightarrow> NetstackReq \<Rightarrow> fdtable \<times> NetstackReq"
    and g :: "socks \<Rightarrow> NetstackReq \<Rightarrow> socks \<times> NetstackReq"
  assumes keeps_wf: "fdtable_wf t \<Longrightarrow> fdtable_wf (fst (h t r))"
    and refines: "fdtable_wf t \<Longrightarrow> g (abs_table t) r = map_prod abs_table id (h t r)"
    and frame: "fdtable_wf t \<Longrightarrow> req_frame r (snd (h t r))"
begin

lemma engine_state: "fst (with_fdtable h s r) = s\<lparr>g_fdtable := fst (h (g_fdtable s) r)\<rparr>"
  and engine_reply: "snd (with_fdtable h s r) = snd (h (g_fdtable s) r)"
  by (simp_all add: with_fdtable_def split_beta)

lemma engine_keeps_wf: "fdtable_wf (g_fdtable s) \<Longrightarrow> fdtable_wf (g_fdtable (fst (with_fdtable h s r)))"
  by (simp add: engine_state keeps_wf)

lemma engine_frame: "fdtable_wf (g_fdtable s) \<Longrightarrow> req_frame r (snd (with_fdtable h s r))"
  by (simp add: engine_reply frame)

lemma engine_refines:
  assumes "fdtable_wf (g_fdtable s)"
  shows "map_prod (\<lambda>s. abs_table (g_fdtable s)) id (with_fdtable h s r) = g (abs_table (g_fdtable s)) r"
  using refines [OF assms] by (simp add: with_fdtable_def map_prod_def split_beta)

lemma spec_frame: "fdtable_wf t \<Longrightarrow> req_frame r (snd (g (abs_table t) r))"
  by (simp add: refines frame)

end

interpretation h_socket: socket_handler fdtable_dispatch_socket spec_socket
proof (unfold_locales, goal_cases)
  case (3 t r)
  then show ?case
    by (auto simp: req_frame_def req_wf_def fdtable_dispatch_socket_def split_beta Let_def)
qed (simp_all add: socket_wf socket_refines)

interpretation h_close: socket_handler fdtable_dispatch_close spec_close
proof (unfold_locales, goal_cases)
  case (3 t r)
  then show ?case by (auto simp: req_frame_def req_wf_def fdtable_dispatch_close_def Let_def)
qed (simp_all add: close_wf close_refines)

interpretation h_bind: socket_handler fdtable_dispatch_bind spec_bind
proof (unfold_locales, goal_cases)
  case (3 t r)
  then show ?case by (auto simp: req_frame_def req_wf_def fdtable_dispatch_bind_def Let_def)
qed (simp_all add: bind_wf bind_refines)

interpretation h_listen: socket_handler fdtable_dispatch_listen spec_listen
proof (unfold_locales, goal_cases)
  case (3 t r)
  then show ?case by (auto simp: req_frame_def req_wf_def fdtable_dispatch_listen_def Let_def)
qed (simp_all add: listen_wf listen_refines)

interpretation h_connect: socket_handler fdtable_dispatch_connect spec_connect
proof (unfold_locales, goal_cases)
  case (3 t r)
  then show ?case by (auto simp: req_frame_def req_wf_def fdtable_dispatch_connect_def Let_def)
qed (simp_all add: connect_wf connect_refines)

interpretation h_accept: socket_handler fdtable_dispatch_accept spec_accept
proof (unfold_locales, goal_cases)
  case (3 t r)
  then show ?case
    by (auto simp: req_frame_def req_wf_def fdtable_dispatch_accept_def Let_def split_beta)
qed (simp_all add: accept_wf accept_refines)

interpretation h_send: socket_handler fdtable_dispatch_send spec_send
proof (unfold_locales, goal_cases)
  case (3 t r)
  then show ?case by (auto simp: req_frame_def req_wf_def fdtable_dispatch_send_def Let_def)
qed (simp_all add: send_wf send_refines)

lemma length_recv_data:
  assumes "length (recv_data (u_recv r)) = 1024" "n \<le> 1024"
  shows "length (blit (recv_data (u_recv r)) 0 (fst (rx_consume n e))) = 1024"
proof -
  have "length (fst (rx_consume n e)) \<le> nat n" by (simp add: rx_consume_def Let_def)
  with assms show ?thesis by (intro trans [OF length_blit]) auto
qed

interpretation h_recv: socket_handler fdtable_dispatch_recv spec_recv
proof (unfold_locales, goal_cases)
  case (3 t r)
  then show ?case
    by (auto simp: req_frame_def req_wf_def fdtable_dispatch_recv_def Let_def split_beta
        recv_count_bounds(3) intro: length_recv_data)
qed (simp_all add: recv_wf recv_refines)

section \<open>The dispatcher\<close>

lemma op_codes_cases [case_names ping shutdown socket close bind listen connect accept send recv other]:
  obtains "op r = NETSTACK_OP_PING" | "op r = NETSTACK_OP_SHUTDOWN" | "op r = NETSTACK_OP_SOCKET"
  | "op r = NETSTACK_OP_CLOSE" | "op r = NETSTACK_OP_BIND" | "op r = NETSTACK_OP_LISTEN"
  | "op r = NETSTACK_OP_CONNECT" | "op r = NETSTACK_OP_ACCEPT" | "op r = NETSTACK_OP_SEND"
  | "op r = NETSTACK_OP_RECV"
  | "op r \<notin> {NETSTACK_OP_PING, NETSTACK_OP_SHUTDOWN, NETSTACK_OP_SOCKET, NETSTACK_OP_CLOSE,
             NETSTACK_OP_BIND, NETSTACK_OP_LISTEN, NETSTACK_OP_CONNECT, NETSTACK_OP_ACCEPT,
             NETSTACK_OP_SEND, NETSTACK_OP_RECV}"
  by blast

lemma dispatch_ops:
  "op r = NETSTACK_OP_PING \<Longrightarrow> dispatch_request s r = (s, dispatch_ping r)"
  "op r = NETSTACK_OP_SHUTDOWN \<Longrightarrow> dispatch_request s r = dispatch_shutdown s r"
  "op r = NETSTACK_OP_SOCKET \<Longrightarrow> dispatch_request s r = with_fdtable fdtable_dispatch_socket s r"
  "op r = NETSTACK_OP_CLOSE \<Longrightarrow> dispatch_request s r = with_fdtable fdtable_dispatch_close s r"
  "op r = NETSTACK_OP_BIND \<Longrightarrow> dispatch_request s r = with_fdtable fdtable_dispatch_bind s r"
  "op r = NETSTACK_OP_LISTEN \<Longrightarrow> dispatch_request s r = with_fdtable fdtable_dispatch_listen s r"
  "op r = NETSTACK_OP_CONNECT \<Longrightarrow> dispatch_request s r = with_fdtable fdtable_dispatch_connect s r"
  "op r = NETSTACK_OP_ACCEPT \<Longrightarrow> dispatch_request s r = with_fdtable fdtable_dispatch_accept s r"
  "op r = NETSTACK_OP_SEND \<Longrightarrow> dispatch_request s r = with_fdtable fdtable_dispatch_send s r"
  "op r = NETSTACK_OP_RECV \<Longrightarrow> dispatch_request s r = with_fdtable fdtable_dispatch_recv s r"
  by (simp_all add: dispatch_request_def)

lemma dispatch_other:
  "op r \<notin> {NETSTACK_OP_PING, NETSTACK_OP_SHUTDOWN, NETSTACK_OP_SOCKET, NETSTACK_OP_CLOSE,
     NETSTACK_OP_BIND, NETSTACK_OP_LISTEN, NETSTACK_OP_CONNECT, NETSTACK_OP_ACCEPT,
     NETSTACK_OP_SEND, NETSTACK_OP_RECV} \<Longrightarrow>
   dispatch_request s r = (s, r\<lparr>err := NETSTACK_ENOSYS\<rparr>)"
  by (simp add: dispatch_request_def)

lemmas handler_keeps_wf =
  h_socket.engine_keeps_wf h_close.engine_keeps_wf h_bind.engine_keeps_wf h_listen.engine_keeps_wf
  h_connect.engine_keeps_wf h_accept.engine_keeps_wf h_send.engine_keeps_wf h_recv.engine_keeps_wf

lemmas handler_frame =
  h_socket.engine_frame h_close.engine_frame h_bind.engine_frame h_listen.engine_frame
  h_connect.engine_frame h_accept.engine_frame h_send.engine_frame h_recv.engine_frame

lemmas handler_refines =
  h_socket.refines h_close.refines h_bind.refines h_listen.refines
  h_connect.refines h_accept.refines h_send.refines h_recv.refines

lemma dispatch_keeps_wf:
  assumes "fdtable_wf (g_fdtable s)"
  shows "fdtable_wf (g_fdtable (fst (dispatch_request s r)))"
  by (cases r rule: op_codes_cases)
    (simp_all add: assms dispatch_ops dispatch_other handler_keeps_wf dispatch_shutdown_def)

lemma dispatch_frame:
  assumes "fdtable_wf (g_fdtable s)"
  shows "req_frame r (snd (dispatch_request s r))"
  by (cases r rule: op_codes_cases)
    (simp_all add: assms dispatch_ops dispatch_other handler_frame dispatch_shutdown_def
      dispatch_ping_def req_frame_def [of r "r\<lparr>err := e\<rparr>" for e]
      req_frame_def [of r "r\<lparr>u_ping := p, err := e\<rparr>" for p e] req_wf_def)

lemma dispatch_refines:
  assumes "fdtable_wf (g_fdtable s)"
  shows "spec_dispatch (abs_engine s) r = map_prod abs_engine id (dispatch_request s r)"
  by (cases r rule: op_codes_cases)
    (simp_all add: assms dispatch_ops dispatch_other handler_refines dispatch_shutdown_def
      dispatch_ping_def spec_dispatch_def spec_handler_def abs_engine_def with_fdtable_def
      map_prod_def split_beta)

lemma dispatch_shutdown_flag:
  "g_engine_shutdown (fst (dispatch_request s r)) \<longleftrightarrow> g_engine_shutdown s \<or> op r = NETSTACK_OP_SHUTDOWN"
  by (cases r rule: op_codes_cases)
    (simp_all add: dispatch_ops dispatch_other dispatch_shutdown_def with_fdtable_def split_beta)

lemma dispatch_engine_frame:
  "g_engine_task (fst (dispatch_request s r)) = g_engine_task s"
  "g_launcher_task (fst (dispatch_request s r)) = g_launcher_task s"
  "g_launcher_ready_mask (fst (dispatch_request s r)) = g_launcher_ready_mask s"
  "g_launcher_stopped_mask (fst (dispatch_request s r)) = g_launcher_stopped_mask s"
  "g_engine_ready (fst (dispatch_request s r)) = g_engine_ready s"
  "g_request_port (fst (dispatch_request s r)) = g_request_port s"
  by (cases r rule: op_codes_cases;
      simp add: dispatch_ops dispatch_other dispatch_shutdown_def with_fdtable_def split_beta)+

section \<open>Draining the port\<close>

lemma drain_Cons:
  "drain_port s (r # rs) =
     (fst (drain_port (fst (dispatch_request s r)) rs),
      ReplyMsg (snd (dispatch_request s r)) # snd (drain_port (fst (dispatch_request s r)) rs))"
  by (simp add: split_beta Let_def)

declare drain_port.simps(2) [simp del]

lemma drain_append:
  "drain_port s (rs @ rs') =
     (fst (drain_port (fst (drain_port s rs)) rs'),
      snd (drain_port s rs) @ snd (drain_port (fst (drain_port s rs)) rs'))"
  by (induction rs arbitrary: s) (simp_all add: drain_Cons)

lemma drain_keeps_wf:
  "fdtable_wf (g_fdtable s) \<Longrightarrow> fdtable_wf (g_fdtable (fst (drain_port s rs)))"
  by (induction rs arbitrary: s) (simp_all add: drain_Cons dispatch_keeps_wf)

lemma drain_engine_frame:
  "g_engine_task (fst (drain_port s rs)) = g_engine_task s"
  "g_launcher_task (fst (drain_port s rs)) = g_launcher_task s"
  "g_launcher_ready_mask (fst (drain_port s rs)) = g_launcher_ready_mask s"
  "g_launcher_stopped_mask (fst (drain_port s rs)) = g_launcher_stopped_mask s"
  "g_engine_ready (fst (drain_port s rs)) = g_engine_ready s"
  "g_request_port (fst (drain_port s rs)) = g_request_port s"
  by (induction rs arbitrary: s) (simp_all add: drain_Cons dispatch_engine_frame)

lemma drain_shutdown_flag:
  "g_engine_shutdown (fst (drain_port s rs)) \<longleftrightarrow>
     g_engine_shutdown s \<or> (\<exists>r \<in> set rs. op r = NETSTACK_OP_SHUTDOWN)"
  by (induction rs arbitrary: s) (auto simp: drain_Cons dispatch_shutdown_flag)

lemma drain_refines:
  assumes "fdtable_wf (g_fdtable s)"
  shows "snd (drain_port s rs) = map ReplyMsg (snd (spec_run (abs_engine s) rs))"
    and "abs_engine (fst (drain_port s rs)) = fst (spec_run (abs_engine s) rs)"
  using assms
proof (induction rs arbitrary: s)
  case (Cons r rs)
  {
    case 1
    from dispatch_refines [OF 1, of r] Cons.IH(1) [OF dispatch_keeps_wf [OF 1]] show ?case
      by (simp add: drain_Cons split_beta map_prod_def)
  next
    case 2
    from dispatch_refines [OF 2, of r] Cons.IH(2) [OF dispatch_keeps_wf [OF 2]] show ?case
      by (simp add: drain_Cons split_beta map_prod_def)
  }
qed simp_all

lemma drain_replies:
  assumes "fdtable_wf (g_fdtable s)"
  shows "list_all2 (\<lambda>r c. \<exists>r'. c = ReplyMsg r' \<and> req_frame r r') rs (snd (drain_port s rs))"
  using assms
  by (induction rs arbitrary: s) (simp_all add: drain_Cons dispatch_frame dispatch_keeps_wf)

section \<open>The message loop\<close>

definition woken :: "uint32 \<Rightarrow> uint32 \<times> NetstackReq list \<Rightarrow> bool" where
  "woken port_sig w \<longleftrightarrow> fst w AND SIGBREAKF_CTRL_C = 0 \<and> fst w AND port_sig \<noteq> 0"

definition asks_shutdown :: "uint32 \<times> NetstackReq list \<Rightarrow> bool" where
  "asks_shutdown w \<longleftrightarrow> list_ex (\<lambda>r. op r = NETSTACK_OP_SHUTDOWN) (snd w)"

lemma loop_serves:
  assumes "\<not> g_engine_shutdown s" "list_all (woken port_sig) ws" "list_all (\<lambda>w. \<not> asks_shutdown w) ws"
  shows "engine_loop port_sig s (ws @ ws') =
    (let (s1, calls) = drain_port s (concat (map snd ws));
         (e, s2, calls') = engine_loop port_sig s1 ws'
     in (e, s2, calls @ calls'))"
  using assms
proof (induction ws arbitrary: s)
  case Nil
  then show ?case by simp
next
  case (Cons w ws)
  obtain got msgs where w: "w = (got, msgs)" by (cases w)
  have "\<not> g_engine_shutdown (fst (drain_port s msgs))"
    using Cons.prems by (simp add: drain_shutdown_flag asks_shutdown_def list_ex_iff w)
  from Cons.IH [OF this] Cons.prems show ?case
    by (simp add: w woken_def drain_append split_beta Let_def)
qed

lemma loop_shutdown:
  assumes "\<not> g_engine_shutdown s" "woken port_sig w" "asks_shutdown w"
  shows "engine_loop port_sig s (w # ws) = (Shut_down, drain_port s (snd w))"
proof -
  obtain got msgs where w: "w = (got, msgs)" by (cases w)
  have "g_engine_shutdown (fst (drain_port s msgs))"
    using assms(3) by (auto simp: drain_shutdown_flag asks_shutdown_def list_ex_iff w)
  then have "engine_loop port_sig (fst (drain_port s msgs)) ws = (Shut_down, fst (drain_port s msgs), [])"
    by (cases ws) auto
  with assms show ?thesis by (simp add: w woken_def split_beta Let_def)
qed

lemma loop_break:
  "\<not> g_engine_shutdown s \<Longrightarrow> got AND SIGBREAKF_CTRL_C \<noteq> 0 \<Longrightarrow>
   engine_loop port_sig s ((got, msgs) # ws) = (Break_signal, s, [])"
  by simp

end
