(* ===== verification/Lifecycle.thy ===== *)
theory Lifecycle
  imports Engine "HOL-Library.Multiset"
begin

unbundle bit_operations_syntax

text \<open>
  The life of the engine as a state machine (\<open>src/phase2_engine/engine_main.c\<close>): the launcher
  starts and stops it, the engine serves batches of messages, and it tears down after a
  shutdown request or a break signal. Every step carries the signal bits exec handed to the
  launcher and the calls made, so that the launcher's use of signals can be balanced along a
  whole run.
\<close>

section \<open>Signal bits\<close>

fun freed :: "exec_call list \<Rightarrow> int multiset" where
  "freed [] = {#}"
| "freed (FreeSignal b # cs) = add_mset b (freed cs)"
| "freed (c # cs) = freed cs"

text \<open>The bits \<open>AllocSignal\<close> hands out in a start.\<close>

definition start_allocs :: "start_env \<Rightarrow> engine \<Rightarrow> int multiset" where
  "start_allocs env s =
     (if g_engine_task s \<noteq> NULL then {#}
      else filter_mset (\<lambda>b. 0 \<le> b) {#ready_bit env, stopped_bit env#})"

text \<open>The bits the launcher holds on behalf of a task: those whose masks it stored.\<close>

definition held :: "engine \<Rightarrow> int multiset" where
  "held s =
     (if g_engine_task s = NULL then {#}
      else filter_mset (\<lambda>b. g_launcher_ready_mask s = bit_mask b \<or> g_launcher_stopped_mask s = bit_mask b)
             (image_mset int (mset [0..<32])))"

text \<open>
  \<open>AllocSignal(-1)\<close> returns a bit of 0 to 31 that is not in use, or -1: the two bits of a
  start differ.
\<close>

definition env_ok :: "start_env \<Rightarrow> bool" where
  "env_ok env \<longleftrightarrow>
     -1 \<le> ready_bit env \<and> ready_bit env < 32 \<and> -1 \<le> stopped_bit env \<and> stopped_bit env < 32 \<and>
     (0 \<le> ready_bit env \<longrightarrow> ready_bit env \<noteq> stopped_bit env)"

section \<open>Steps and runs\<close>

inductive sys_step :: "engine \<Rightarrow> int multiset \<Rightarrow> exec_call list \<Rightarrow> engine \<Rightarrow> bool" where
  start: "env_ok env \<Longrightarrow> NetstackEngine_Start cfg env s = (rc, s', calls) \<Longrightarrow>
    sys_step s (start_allocs env s) calls s'"
| serve: "g_engine_ready s \<Longrightarrow> \<not> g_engine_shutdown s \<Longrightarrow> drain_port s msgs = (s', calls) \<Longrightarrow>
    sys_step s {#} calls s'"
| leave: "g_engine_ready s \<Longrightarrow> engine_teardown s = (s', calls) \<Longrightarrow> sys_step s {#} calls s'"
| stop: "\<not> g_engine_ready s \<or> \<not> g_engine_shutdown s \<Longrightarrow> NetstackEngine_Stop reply s = (rc, s', calls) \<Longrightarrow>
    sys_step s {#} calls s'"

text \<open>
  \<open>sys_run a f s\<close>: \<open>s\<close> is reached from the initial state by steps that were given the bits \<open>a\<close>
  and freed the bits \<open>f\<close>.
\<close>

inductive sys_run :: "int multiset \<Rightarrow> int multiset \<Rightarrow> engine \<Rightarrow> bool" where
  boot: "sys_run {#} {#} engine_init"
| next_step: "sys_run a f s \<Longrightarrow> sys_step s al calls s' \<Longrightarrow> sys_run (a + al) (f + freed calls) s'"

definition masks_of :: "engine \<Rightarrow> int \<Rightarrow> int \<Rightarrow> bool" where
  "masks_of s a b \<longleftrightarrow>
     0 \<le> a \<and> a < 32 \<and> 0 \<le> b \<and> b < 32 \<and> a \<noteq> b \<and>
     g_launcher_ready_mask s = bit_mask a \<and> g_launcher_stopped_mask s = bit_mask b"

definition engine_inv :: "engine \<Rightarrow> bool" where
  "engine_inv s \<longleftrightarrow>
     fdtable_wf (g_fdtable s) \<and>
     (g_engine_ready s \<longleftrightarrow> g_request_port s \<noteq> NULL) \<and>
     (g_engine_ready s \<longrightarrow> g_engine_task s \<noteq> NULL) \<and>
     (g_engine_task s \<noteq> NULL \<longrightarrow> (\<exists>a b. masks_of s a b))"

section \<open>Masks and bits\<close>

lemma power_two_inj:
  assumes "i < 32" "j < 32"
  shows "(2 :: uint32) ^ i = 2 ^ j \<longleftrightarrow> i = j"
proof
  assume "(2 :: uint32) ^ i = 2 ^ j"
  then have "bit ((2 :: uint32) ^ i) i \<longleftrightarrow> bit ((2 :: uint32) ^ j) i" by simp
  with assms show "i = j" by (simp add: bit_exp_iff possible_bit_word)
qed simp

lemma bit_mask_inj:
  "0 \<le> a \<Longrightarrow> a < 32 \<Longrightarrow> 0 \<le> b \<Longrightarrow> b < 32 \<Longrightarrow> bit_mask a = bit_mask b \<longleftrightarrow> a = b"
  by (simp add: bit_mask_def power_two_inj eq_nat_nat_iff)

lemma freed_append [simp]: "freed (xs @ ys) = freed xs + freed ys"
  by (induction xs rule: freed.induct) simp_all

lemma freed_free_masks:
  assumes "masks_of s a b" "n \<le> 32"
  shows "freed (free_masks (g_launcher_ready_mask s) (g_launcher_stopped_mask s) n) =
    (if a < int n then {#a#} else {#}) + (if b < int n then {#b#} else {#})"
  using assms(2)
proof (induction n)
  case 0
  then show ?case using assms(1) by (simp add: masks_of_def)
next
  case (Suc n)
  have eq: "bit_mask x = push_bit n 1 \<longleftrightarrow> x = int n" if "0 \<le> x" "x < 32" for x
    using Suc.prems that by (auto simp: bit_mask_def power_two_inj)
  have "a < int (Suc n) \<longleftrightarrow> a < int n \<or> a = int n" "b < int (Suc n) \<longleftrightarrow> b < int n \<or> b = int n"
    by auto
  with Suc.IH Suc.prems assms(1) eq [of a] eq [of b] show ?case
    unfolding masks_of_def free_masks.simps freed_append by (auto simp del: push_bit_of_1)
qed

lemma held_masks:
  assumes "g_engine_task s \<noteq> NULL" "masks_of s a b"
  shows "held s = {#a, b#}"
proof -
  have "held s = filter_mset (\<lambda>x. x = a \<or> x = b) (image_mset int (mset [0..<32]))"
    using assms unfolding held_def masks_of_def
    by (auto intro!: filter_mset_cong simp: bit_mask_inj simp del: upt_conv_Cons mset_upt)
  also have "\<dots> = mset_set {x \<in> int ` {0..<32}. x = a \<or> x = b}"
    by (simp add: image_mset_mset_set mset_set_set flip: mset_set_upto_eq_mset_upto)
  also have "{x \<in> int ` {0..<32}. x = a \<or> x = b} = {a, b}"
    using assms(2) by (auto simp: masks_of_def image_iff Bex_def intro: exI [of _ "nat a"] exI [of _ "nat b"])
  finally show ?thesis using assms(2) by (simp add: masks_of_def)
qed

section \<open>Every step keeps the invariant and balances the bits\<close>

lemma engine_inv_init: "engine_inv engine_init" "held engine_init = {#}"
  by (simp_all add: engine_inv_def engine_init_def held_def)

lemma held_none: "g_engine_task s = NULL \<Longrightarrow> held s = {#}"
  by (simp add: held_def)

lemma start_balance:
  assumes inv: "engine_inv s" and env: "env_ok env"
    and start: "NetstackEngine_Start cfg env s = (rc, s', calls)"
  shows "engine_inv s' \<and> held s + start_allocs env s = freed calls + held s'"
proof (cases "g_engine_task s = NULL")
  case False
  with inv start show ?thesis by (simp add: NetstackEngine_Start_def start_allocs_def)
next
  case up: True
  with inv have down: "\<not> g_engine_ready s" "g_request_port s = NULL" by (auto simp: engine_inv_def)
  show ?thesis
  proof (cases "ready_bit env < 0 \<or> stopped_bit env < 0")
    case True
    with up down inv start show ?thesis
      by (auto simp: NetstackEngine_Start_def start_allocs_def engine_inv_def held_none)
  next
    case False
    then have bits: "masks_of s' (ready_bit env) (stopped_bit env)"
      using env up start
      by (auto simp: NetstackEngine_Start_def engine_open_def masks_of_def env_ok_def Let_def split: if_splits)
    from False up down inv start bits held_masks [OF _ bits] show ?thesis
      by (auto simp: NetstackEngine_Start_def engine_open_def start_allocs_def engine_inv_def Let_def
          held_none split: if_splits)
  qed
qed

lemma held_cong:
  "g_engine_task s' = g_engine_task s \<Longrightarrow> g_launcher_ready_mask s' = g_launcher_ready_mask s \<Longrightarrow>
   g_launcher_stopped_mask s' = g_launcher_stopped_mask s \<Longrightarrow>
   held s' = held s \<and> (masks_of s' a b = masks_of s a b)"
  by (simp add: held_def masks_of_def)

lemma freed_replies: "fdtable_wf (g_fdtable s) \<Longrightarrow> freed (snd (drain_port s rs)) = {#}"
  by (induction rs arbitrary: s) (simp_all add: drain_Cons dispatch_keeps_wf)

lemma serve_balance:
  assumes "engine_inv s" "drain_port s msgs = (s', calls)"
  shows "engine_inv s' \<and> held s = freed calls + held s'"
proof -
  have s': "s' = fst (drain_port s msgs)" "calls = snd (drain_port s msgs)" using assms(2) by simp_all
  note frame = drain_engine_frame [of s msgs, folded s']
  from assms(1) frame held_cong [OF frame(1,3,4)] show ?thesis
    by (simp add: s'(2) engine_inv_def freed_replies drain_keeps_wf s'(1))
qed

lemma leave_balance:
  assumes "engine_inv s" "engine_teardown s = (s', calls)"
  shows "engine_inv s' \<and> held s = freed calls + held s'"
proof -
  have s': "s' = s\<lparr>g_request_port := NULL, g_engine_ready := False\<rparr>" and calls: "freed calls = {#}"
    using assms(2) by (auto simp: engine_teardown_def)
  with assms(1) held_cong [of s' s] show ?thesis by (simp add: engine_inv_def)
qed

lemma engine_stops_balance:
  assumes inv: "engine_inv s" and stops: "engine_stops reply s = (s', calls)"
  shows "engine_inv s' \<and> held s = freed calls + held s' \<and> \<not> g_engine_ready s' \<and>
    g_engine_task s' = g_engine_task s"
proof (cases "g_request_port s \<noteq> NULL \<and> reply \<noteq> NULL")
  case True
  obtain s1 c1 where d: "drain_port s [shutdown_req reply] = (s1, c1)" by fastforce
  obtain s2 c2 where t: "engine_teardown s1 = (s2, c2)" by fastforce
  have "s' = s2" "calls = c1 @ c2" using stops True d t by (simp_all add: engine_stops_def)
  with serve_balance [OF inv d] leave_balance [OF _ t] t drain_engine_frame(1) [of s "[shutdown_req reply]"] d
  show ?thesis by (auto simp: engine_teardown_def ac_simps)
next
  case False
  with stops inv leave_balance [OF inv, of s' calls] show ?thesis
    by (auto simp: engine_stops_def engine_teardown_def split: if_splits)
qed

lemma stop_balance:
  assumes inv: "engine_inv s" and stop: "NetstackEngine_Stop reply s = (rc, s', calls)"
  shows "engine_inv s' \<and> held s = freed calls + held s' \<and> g_engine_task s' = NULL \<and> rc = 0"
proof (cases "g_engine_task s = NULL")
  case True
  with inv stop show ?thesis by (simp add: NetstackEngine_Stop_def)
next
  case False
  obtain s1 c1 where e: "engine_stops reply s = (s1, c1)" by fastforce
  note b = engine_stops_balance [OF inv e]
  with False obtain x y where m: "masks_of s1 x y" by (auto simp: engine_inv_def)
  have "freed (stop_request reply s) = {#}" by (simp add: stop_request_def)
  moreover have "freed (snd (stop_finish s1)) = held s1"
    using freed_free_masks [OF m, of 32] held_masks [OF _ m] b False m
    by (simp add: stop_finish_def masks_of_def)
  ultimately show ?thesis using False stop e b
    by (auto simp: NetstackEngine_Stop_def stop_finish_def engine_inv_def held_none)
qed

lemma step_balance:
  assumes "sys_step s al calls s'" "engine_inv s"
  shows "engine_inv s' \<and> held s + al = freed calls + held s'"
  using assms
proof (cases rule: sys_step.cases)
  case (start env cfg rc)
  with start_balance [of s env cfg rc s' calls] assms(2) show ?thesis by simp
next
  case (serve msgs)
  with serve_balance [of s msgs s' calls] assms(2) show ?thesis by simp
next
  case leave
  with leave_balance [of s s' calls] assms(2) show ?thesis by simp
next
  case (stop reply rc)
  with stop_balance [of s reply rc s' calls] assms(2) show ?thesis by simp
qed

lemma run_balance:
  "sys_run a f s \<Longrightarrow> engine_inv s \<and> a = f + held s"
proof (induction rule: sys_run.induct)
  case boot
  then show ?case by (simp add: engine_inv_init)
next
  case (next_step a f s al calls s')
  with step_balance [OF next_step.hyps(2)] show ?case by (simp add: ac_simps)
qed

end
