(* ===== verification/Pairing.thy ===== *)
theory Pairing
  imports Engine
begin

text \<open>
  Connections are symmetric: if a socket's peer is \<open>p\<close> then \<open>p\<close> is a connected socket whose
  peer is the first. Every operation keeps this, and that a queued client is connected and
  has no peer yet, with one exception: closing a client that is still queued on a listener
  leaves its descriptor in the backlog, where a later accept finds it
  (\<open>fdtable_dispatch_close\<close> does not search the backlogs).
\<close>

section \<open>Who is connected to whom\<close>

definition conn_of :: "socks \<Rightarrow> int32 \<Rightarrow> bool" where
  "conn_of m fd = (case m fd of None \<Rightarrow> False | Some s \<Rightarrow> s_kind s = Connected)"

definition peer_of :: "socks \<Rightarrow> int32 \<Rightarrow> int32 option" where
  "peer_of m fd = (case m fd of None \<Rightarrow> None | Some s \<Rightarrow> s_peer s)"

definition queue_of :: "socks \<Rightarrow> int32 \<Rightarrow> int32 list" where
  "queue_of m fd = (case m fd of None \<Rightarrow> [] | Some s \<Rightarrow> s_queue s)"

definition paired :: "(int32 \<Rightarrow> bool) \<Rightarrow> (int32 \<Rightarrow> int32 option) \<Rightarrow> (int32 \<Rightarrow> int32 list) \<Rightarrow> bool" where
  "paired C P Q \<longleftrightarrow>
     (\<forall>a b. P a = Some b \<longrightarrow> C b \<and> P b = Some a \<and> b \<noteq> a) \<and>
     (\<forall>l. distinct (Q l) \<and> (\<forall>c \<in> set (Q l). C c \<and> P c = None)) \<and>
     (\<forall>l l'. l \<noteq> l' \<longrightarrow> set (Q l) \<inter> set (Q l') = {})"

definition socks_paired :: "socks \<Rightarrow> bool" where
  "socks_paired m \<longleftrightarrow>
     (\<forall>fd. m fd \<noteq> None \<longrightarrow> fd_in_range fd) \<and> paired (conn_of m) (peer_of m) (queue_of m)"

text \<open>A close of a descriptor that some backlog still holds.\<close>

definition closes_queued :: "socks \<Rightarrow> NetstackReq \<Rightarrow> bool" where
  "closes_queued m r \<longleftrightarrow>
     op r = NETSTACK_OP_CLOSE \<and> list_ex (\<lambda>l. close_sock (u_close r) \<in> set (queue_of m l)) all_fds"

fun orderly :: "socks \<times> bool \<Rightarrow> NetstackReq list \<Rightarrow> bool" where
  "orderly a [] = True"
| "orderly a (r # rs) = (\<not> closes_queued (fst a) r \<and> orderly (fst (spec_dispatch a r)) rs)"

section \<open>The relation under updates\<close>

lemma conn_of_upd [simp]:
  "conn_of (m(fd := x)) = (conn_of m)(fd := (case x of None \<Rightarrow> False | Some s \<Rightarrow> s_kind s = Connected))"
  by (auto simp: conn_of_def fun_eq_iff)

lemma peer_of_upd [simp]:
  "peer_of (m(fd := x)) = (peer_of m)(fd := (case x of None \<Rightarrow> None | Some s \<Rightarrow> s_peer s))"
  by (auto simp: peer_of_def fun_eq_iff)

lemma queue_of_upd [simp]:
  "queue_of (m(fd := x)) = (queue_of m)(fd := (case x of None \<Rightarrow> [] | Some s \<Rightarrow> s_queue s))"
  by (auto simp: queue_of_def fun_eq_iff)

lemma views_some:
  "m fd = Some s \<Longrightarrow> conn_of m fd \<longleftrightarrow> s_kind s = Connected"
  "m fd = Some s \<Longrightarrow> peer_of m fd = s_peer s"
  "m fd = Some s \<Longrightarrow> queue_of m fd = s_queue s"
  by (simp_all add: conn_of_def peer_of_def queue_of_def)

lemma views_none:
  "m fd = None \<Longrightarrow> \<not> conn_of m fd" "m fd = None \<Longrightarrow> peer_of m fd = None"
  "m fd = None \<Longrightarrow> queue_of m fd = []"
  by (simp_all add: conn_of_def peer_of_def queue_of_def)

lemma pairedI:
  assumes "\<And>a b. P a = Some b \<Longrightarrow> C b" "\<And>a b. P a = Some b \<Longrightarrow> P b = Some a"
    "\<And>a b. P a = Some b \<Longrightarrow> b \<noteq> a"
    and "\<And>l. distinct (Q l)" "\<And>l c. c \<in> set (Q l) \<Longrightarrow> C c" "\<And>l c. c \<in> set (Q l) \<Longrightarrow> P c = None"
    and "\<And>l l' c. c \<in> set (Q l) \<Longrightarrow> c \<in> set (Q l') \<Longrightarrow> l = l'"
  shows "paired C P Q"
  unfolding paired_def using assms by blast

lemma paired_peer:
  assumes "paired C P Q" "P a = Some b"
  shows "C b" "P b = Some a" "b \<noteq> a" "C a"
  using assms unfolding paired_def by metis+

lemma paired_queue:
  assumes "paired C P Q"
  shows "distinct (Q l)" "c \<in> set (Q l) \<Longrightarrow> C c" "c \<in> set (Q l) \<Longrightarrow> P c = None"
    "c \<in> set (Q l) \<Longrightarrow> c \<in> set (Q l') \<Longrightarrow> l = l'"
  using assms unfolding paired_def by blast+

lemma paired_no_peer: "paired C P Q \<Longrightarrow> \<not> C a \<Longrightarrow> P a = None"
  using paired_peer(4) [of C P Q a] by (cases "P a") auto

lemma paired_peer_inj: "paired C P Q \<Longrightarrow> P a = Some p \<Longrightarrow> P b = Some p \<Longrightarrow> a = b"
  using paired_peer(2) by (metis option.inject)

lemma paired_clear_queue: "paired C P Q \<Longrightarrow> paired C P (Q(l := []))"
  by (rule pairedI) (auto dest: paired_peer paired_queue split: if_splits intro: paired_queue(1))

lemma paired_connect:
  assumes "paired C P Q" "\<not> C fd"
  shows "paired (C(fd := True)) P (Q(l := Q l @ [fd]))"
proof -
  have q: "fd \<notin> set (Q k)" for k using assms(2) paired_queue(2) [OF assms(1)] by blast
  show ?thesis
    by (rule pairedI)
      (use paired_no_peer [OF assms] q in
        \<open>auto dest: paired_peer [OF assms(1)] paired_queue(2-) [OF assms(1)] split: if_splits
          intro: paired_queue(1) [OF assms(1)]\<close>)
qed

lemma paired_pop:
  assumes "paired C P Q" "Q l = c # q"
  shows "paired C P (Q(l := q))" "\<And>k. c \<notin> set ((Q(l := q)) k)"
proof -
  have sub: "set ((Q(l := q)) k) \<subseteq> set (Q k)" for k using assms(2) by auto
  have d: "distinct (c # q)" using paired_queue(1) [OF assms(1), of l] assms(2) by simp
  show "c \<notin> set ((Q(l := q)) k)" for k
    using d paired_queue(4) [OF assms(1), of c k l] assms(2) by auto
  show "paired C P (Q(l := q))"
  proof (rule pairedI)
    show "distinct ((Q(l := q)) k)" for k using d paired_queue(1) [OF assms(1), of k] by simp
  qed (use sub in \<open>blast dest: paired_peer [OF assms(1)] paired_queue(2-) [OF assms(1)]\<close>)+
qed

lemma paired_attach:
  assumes "paired C P Q" "C c" "P c = None" "\<And>k. c \<notin> set (Q k)" "\<not> C n"
  shows "paired (C(n := True)) (P(n := Some c, c := Some n)) Q"
proof -
  have n: "P n = None" "n \<notin> set (Q k)" for k
    using paired_no_peer [OF assms(1,5)] assms(5) paired_queue(2) [OF assms(1)] by blast+
  have other: "b \<noteq> c \<and> b \<noteq> n" if "P a = Some b" for a b
    using paired_peer(2) [OF assms(1) that] assms(3) n(1) by auto
  show ?thesis
    by (rule pairedI)
      (use assms(2-) n in \<open>auto dest: other paired_peer [OF assms(1)] paired_queue(2-) [OF assms(1)]
        split: if_splits intro: paired_queue(1) [OF assms(1)]\<close>)
qed

lemma paired_unpeer:
  assumes "paired C P Q" "P fd = Some p"
  shows "paired C (P(p := None, fd := None)) Q"
proof -
  have other: "b \<noteq> p \<and> b \<noteq> fd" if "P a = Some b" "a \<noteq> fd" "a \<noteq> p" for a b
    using paired_peer(2) [OF assms(1)] that assms(2) by (metis option.inject)
  show ?thesis
    by (rule pairedI)
      (auto dest: other paired_peer [OF assms(1)] paired_queue(2-) [OF assms(1)]
        split: if_splits intro: paired_queue(1) [OF assms(1)])
qed

lemma paired_remove:
  assumes "paired C P Q" "P fd = None" "\<And>l. fd \<notin> set (Q l)"
  shows "paired (C(fd := False)) P (Q(fd := []))"
proof -
  have other: "b \<noteq> fd" if "P a = Some b" for a b
    using paired_peer(2) [OF assms(1) that] assms(2) by auto
  show ?thesis
    by (rule pairedI)
      (use assms(2,3) in \<open>auto dest: other paired_peer [OF assms(1)] paired_queue(2-) [OF assms(1)]
        split: if_splits intro: paired_queue(1) [OF assms(1)]\<close>)
qed

section \<open>Every orderly request keeps connections symmetric\<close>

lemma socks_pairedD:
  assumes "socks_paired m"
  shows "m fd = Some s \<Longrightarrow> fd_in_range fd" "paired (conn_of m) (peer_of m) (queue_of m)"
  using assms by (auto simp: socks_paired_def)

text \<open>An update that changes neither the kind towards connected, nor peer, nor queue.\<close>

lemma socks_paired_idle:
  assumes "socks_paired m" "fd_in_range fd" "conn_of m fd \<longleftrightarrow> s_kind s = Connected"
    "peer_of m fd = s_peer s" "queue_of m fd = s_queue s"
  shows "socks_paired (m(fd \<mapsto> s))"
  using assms by (auto simp: socks_paired_def fun_upd_idem)

lemma socket_paired: "socks_paired m \<Longrightarrow> socks_paired (fst (spec_socket m r))"
  by (auto simp: spec_socket_def split: option.split dest!: free_fd_Some
      intro!: socks_paired_idle simp: views_none)

lemma bind_paired: "socks_paired m \<Longrightarrow> socks_paired (fst (spec_bind m r))"
  by (auto simp: spec_bind_def Let_def split: option.split dest: socks_pairedD
      intro!: socks_paired_idle simp: views_some)

lemma send_paired: "socks_paired m \<Longrightarrow> socks_paired (fst (spec_send m r))"
  by (auto simp: spec_send_def Let_def bind_eq_Some_conv split: option.split dest: socks_pairedD
      intro!: socks_paired_idle simp: views_some)

lemma recv_paired: "socks_paired m \<Longrightarrow> socks_paired (fst (spec_recv m r))"
  by (auto simp: spec_recv_def Let_def split: option.split dest: socks_pairedD
      intro!: socks_paired_idle simp: views_some)

lemma listen_paired:
  assumes "socks_paired m"
  shows "socks_paired (fst (spec_listen m r))"
proof -
  let ?fd = "listen_sock (u_listen r)"
  have "socks_paired (m(?fd \<mapsto> s\<lparr>s_kind := Listening, s_queue := []\<rparr>))"
    if "m ?fd = Some s" "s_kind s = Unbound" for s
    using assms that paired_clear_queue [OF socks_pairedD(2) [OF assms], of ?fd]
    by (auto simp: socks_paired_def fun_upd_idem views_some)
  with assms show ?thesis by (auto simp: spec_listen_def Let_def split: option.split)
qed

lemma connect_paired:
  assumes "socks_paired m"
  shows "socks_paired (fst (spec_connect m r))"
proof -
  let ?fd = "connect_sock (u_connect r)"
  note inv = socks_pairedD(2) [OF assms]
  have "socks_paired (m(?fd \<mapsto> s\<lparr>s_kind := Connected, s_peer := None\<rparr>,
                        lfd \<mapsto> l\<lparr>s_queue := s_queue l @ [?fd]\<rparr>))"
    if "m ?fd = Some s" "s_kind s = Unbound" "m lfd = Some l" "s_kind l = Listening" for s lfd l
  proof -
    have "\<not> conn_of m ?fd" "?fd \<noteq> lfd" using that by (auto simp: views_some)
    with paired_connect [OF inv this(1), of lfd] paired_no_peer [OF inv this(1)] assms that
    show ?thesis by (auto simp: socks_paired_def fun_upd_idem views_some fun_upd_twist)
  qed
  with assms show ?thesis
    by (auto simp: spec_connect_def Let_def listener_on_def split: option.split option.split_asm
        dest!: find_all_fds_Some)
qed

lemma accept_paired:
  assumes "socks_paired m"
  shows "socks_paired (fst (spec_accept m r))"
proof -
  let ?fd = "accept_sock (u_accept r)"
  note inv = socks_pairedD(2) [OF assms]
  have "socks_paired (attach c n (m(?fd \<mapsto> l\<lparr>s_queue := q\<rparr>, n \<mapsto> new)))"
    if l: "m ?fd = Some l" "s_kind l = Listening" "s_queue l = c # q" and n: "m n = None" "fd_in_range n"
      and new: "s_kind new = Connected" "s_peer new = Some c" "s_queue new = []" for l c q n new
  proof -
    have Q: "queue_of m ?fd = c # q" using l by (simp add: views_some)
    have ne: "?fd \<noteq> n" using l n by auto
    have c: "conn_of m c" "peer_of m c = None" using paired_queue(2,3) [OF inv, of c ?fd] Q by auto
    have cn: "c \<noteq> n" "c \<noteq> ?fd" using c n l by (auto simp: views_none views_some)
    from c obtain sc where sc: "m c = Some sc" "s_kind sc = Connected" by (cases "m c") (auto simp: conn_of_def)
    have "paired ((conn_of m)(n := True)) ((peer_of m)(n := Some c, c := Some n)) ((queue_of m)(?fd := q))"
      using paired_attach [OF paired_pop(1) [OF inv Q] c paired_pop(2) [OF inv Q]] n views_none(1) [of m n]
      by blast
    with assms l n new ne cn sc show ?thesis
      by (auto simp: attach_def socks_paired_def fun_upd_idem views_some views_none)
  qed
  with assms show ?thesis
    by (auto simp: spec_accept_def Let_def split: option.split list.split dest!: free_fd_Some)
qed

lemma disconnect_views:
  "conn_of (disconnect p m) = conn_of m" "queue_of (disconnect p m) = queue_of m"
  "peer_of (disconnect p m) = (case p of None \<Rightarrow> peer_of m | Some q \<Rightarrow> (peer_of m)(q := None))"
  "disconnect p m fd = Some s \<Longrightarrow> \<exists>s'. m fd = Some s'"
  by (auto simp: disconnect_def fun_upd_idem views_some views_none split: option.splits if_splits)

lemma close_paired:
  assumes "socks_paired m" "op r = NETSTACK_OP_CLOSE" "\<not> closes_queued m r"
  shows "socks_paired (fst (spec_close m r))"
proof -
  let ?fd = "close_sock (u_close r)"
  note inv = socks_pairedD(2) [OF assms(1)]
  have "?fd \<notin> set (queue_of m l)" for l
  proof (cases "m l")
    case None
    then show ?thesis by (simp add: views_none)
  next
    case (Some s)
    with socks_pairedD(1) [OF assms(1) Some] assms(2,3) show ?thesis
      by (auto simp: closes_queued_def list_ex_iff set_all_fds)
  qed
  moreover have "paired (conn_of m) ((peer_of (disconnect (peer_of m ?fd) m))(?fd := None)) (queue_of m)"
    using inv paired_unpeer [OF inv] by (cases "peer_of m ?fd") (auto simp: disconnect_views fun_upd_idem)
  ultimately have "paired ((conn_of m)(?fd := False))
      ((peer_of (disconnect (peer_of m ?fd) m))(?fd := None)) ((queue_of m)(?fd := []))"
    using paired_remove by fastforce
  with assms(1) show ?thesis
    by (auto simp: spec_close_def Let_def socks_paired_def disconnect_views views_some
        dest: disconnect_views(4) split: option.split)
qed

lemma dispatch_paired:
  assumes "socks_paired (fst a)" "\<not> closes_queued (fst a) r"
  shows "socks_paired (fst (fst (spec_dispatch a r)))"
  by (cases r rule: op_codes_cases)
    (use assms in \<open>simp_all add: spec_dispatch_def spec_handler_def split_beta socket_paired bind_paired
      listen_paired connect_paired accept_paired send_paired recv_paired close_paired\<close>)

lemma orderly_paired:
  "socks_paired (fst a) \<Longrightarrow> orderly a rs \<Longrightarrow> socks_paired (fst (fst (spec_run a rs)))"
  by (induction rs arbitrary: a) (simp_all add: split_beta dispatch_paired)

lemma abs_table_init: "abs_table g_fdtable_init = Map.empty"
  by (auto simp: fun_eq_iff abs_table_def abs_entry_def g_fdtable_init_def aget_def fd_in_range_def)

lemma socks_paired_init: "socks_paired Map.empty"
  by (auto simp: socks_paired_def conn_of_def peer_of_def queue_of_def intro: pairedI)

section \<open>Lemmas that carry facts to the descriptor table\<close>

lemma peer_of_abs:
  "fd_valid t fd \<Longrightarrow> kind (aget t fd) = FD_SOCKET_CONNECTED \<Longrightarrow> 0 \<le> peer_fd (aget t fd) \<Longrightarrow>
   peer_of (abs_table t) fd = Some (peer_fd (aget t fd))"
  by (simp add: peer_of_def abs_table_some abs_sock_def)

lemma peer_of_absD:
  assumes "peer_of (abs_table t) fd = Some p"
  shows "fd_valid t fd" "kind (aget t fd) = FD_SOCKET_CONNECTED" "peer_fd (aget t fd) = p"
  using assms by (auto simp: peer_of_def abs_table_def abs_entry_def abs_sock_def fd_valid_iff split: if_splits)

end
