(* ===== verification/ByteStream.thy ===== *)
theory ByteStream
  imports Pairing
begin

text \<open>
  A connection is a reliable byte stream. Let two sockets be linked: each is the other's peer, no
  third socket has one of them as its peer, and neither waits in a backlog. For any sequence
  of requests the engine serves, from any clients and on any descriptors, except a close of one of the two:
  they stay linked, and the bytes read from one end, followed by those still in flight, are the bytes
  that were in flight at first followed by the bytes the other end's sends reported as
  accepted. Nothing is lost, duplicated, reordered or mixed with another connection's bytes,
  whatever is done to other sockets, clients closed in a backlog included.
\<close>

section \<open>Runs of a service\<close>

fun run_all :: "('s \<Rightarrow> 'r \<Rightarrow> 's \<times> 'q) \<Rightarrow> 's \<Rightarrow> 'r list \<Rightarrow> 's \<times> 'q list" where
  "run_all step s [] = (s, [])"
| "run_all step s (r # rs) =
     (case step s r of (s1, q) \<Rightarrow> (case run_all step s1 rs of (s2, qs) \<Rightarrow> (s2, q # qs)))"

text \<open>What one request and its reply put into a connection at \<open>a\<close>, and take out at \<open>b\<close>.\<close>

definition sent_by :: "int32 \<Rightarrow> NetstackReq \<Rightarrow> NetstackReq \<Rightarrow> uint8 list" where
  "sent_by a r r' =
     (if op r = NETSTACK_OP_SEND \<and> send_sock (u_send r) = a \<and> err r' = NETSTACK_OK
      then take (nat (send_len_out (u_send r'))) (send_data (u_send r)) else [])"

definition received_by :: "int32 \<Rightarrow> NetstackReq \<Rightarrow> NetstackReq \<Rightarrow> uint8 list" where
  "received_by b r r' =
     (if op r = NETSTACK_OP_RECV \<and> recv_sock (u_recv r) = b \<and> err r' = NETSTACK_OK
      then take (nat (recv_len_out (u_recv r'))) (recv_data (u_recv r')) else [])"

definition stream_of :: "socks \<Rightarrow> int32 \<Rightarrow> uint8 list" where
  "stream_of m fd = (case m fd of None \<Rightarrow> [] | Some s \<Rightarrow> s_stream s)"

text \<open>The requests allowed while the connection is observed: all but a close of one of its ends.\<close>

definition keeps_open :: "int32 \<Rightarrow> int32 \<Rightarrow> NetstackReq \<Rightarrow> bool" where
  "keeps_open a b r \<longleftrightarrow> (op r = NETSTACK_OP_CLOSE \<longrightarrow> close_sock (u_close r) \<notin> {a, b})"

text \<open>Two sockets that are connected to each other, and that nothing else in the table refers to.\<close>

definition linked :: "socks \<Rightarrow> int32 \<Rightarrow> int32 \<Rightarrow> bool" where
  "linked m a b \<longleftrightarrow>
     conn_of m a \<and> conn_of m b \<and> a \<noteq> b \<and>
     (\<forall>c. peer_of m c = Some b \<longleftrightarrow> c = a) \<and> (\<forall>c. peer_of m c = Some a \<longleftrightarrow> c = b) \<and>
     (\<forall>l. a \<notin> set (queue_of m l) \<and> b \<notin> set (queue_of m l))"

definition connected_engine :: "int32 \<Rightarrow> int32 \<Rightarrow> engine \<Rightarrow> bool" where
  "connected_engine a b s \<longleftrightarrow> fdtable_wf (g_fdtable s) \<and> linked (abs_table (g_fdtable s)) a b"

lemma run_all_Cons:
  "run_all step s (r # rs) =
     (fst (run_all step (fst (step s r)) rs), snd (step s r) # snd (run_all step (fst (step s r)) rs))"
  by (simp add: split_beta)

declare run_all.simps(2) [simp del]

section \<open>The contract of a service that carries a stream\<close>

locale stream_service =
  fixes step :: "'s \<Rightarrow> 'r \<Rightarrow> 's \<times> 'q"
    and ok :: "'r \<Rightarrow> bool"
    and invar :: "'s \<Rightarrow> bool"
    and in_flight :: "'s \<Rightarrow> 'b list"
    and sent :: "'r \<Rightarrow> 'q \<Rightarrow> 'b list"
    and received :: "'r \<Rightarrow> 'q \<Rightarrow> 'b list"
  assumes step_invar: "invar s \<Longrightarrow> ok r \<Longrightarrow> invar (fst (step s r))"
    and step_conserves: "invar s \<Longrightarrow> ok r \<Longrightarrow>
      in_flight s @ sent r (snd (step s r)) = received r (snd (step s r)) @ in_flight (fst (step s r))"
begin

lemma run_conserves:
  assumes "invar s" "list_all ok rs"
  shows "invar (fst (run_all step s rs))"
    and "in_flight s @ concat (map2 sent rs (snd (run_all step s rs))) =
      concat (map2 received rs (snd (run_all step s rs))) @ in_flight (fst (run_all step s rs))"
  using assms
proof (induction rs arbitrary: s)
  case (Cons r rs)
  {
    case 1
    with Cons.IH(1) [of "fst (step s r)"] step_invar [of s r] show ?case by (simp add: run_all_Cons)
  next
    case 2
    let ?s1 = "fst (step s r)"
    from 2 have "in_flight ?s1 @ concat (map2 sent rs (snd (run_all step ?s1 rs))) =
        concat (map2 received rs (snd (run_all step ?s1 rs))) @ in_flight (fst (run_all step ?s1 rs))"
      using Cons.IH(2) [of ?s1] step_invar [of s r] by simp
    then have "(in_flight s @ sent r (snd (step s r))) @ concat (map2 sent rs (snd (run_all step ?s1 rs))) =
        received r (snd (step s r)) @ concat (map2 received rs (snd (run_all step ?s1 rs))) @
        in_flight (fst (run_all step ?s1 rs))"
      using 2 by (simp only: step_conserves list.pred_inject append.assoc)
    then show ?case by (simp add: run_all_Cons)
  }
qed simp_all

lemma received_prefix:
  assumes "invar s" "in_flight s = []" "list_all ok rs"
  shows "\<exists>rest. concat (map2 sent rs (snd (run_all step s rs))) =
    concat (map2 received rs (snd (run_all step s rs))) @ rest"
  using run_conserves(2) [OF assms(1,3)] assms(2) by auto

end

section \<open>Every request conserves the stream\<close>

lemma stream_of_upd [simp]:
  "stream_of (m(fd := x)) = (stream_of m)(fd := (case x of None \<Rightarrow> [] | Some s \<Rightarrow> s_stream s))"
  by (auto simp: stream_of_def fun_eq_iff)

lemma stream_some: "m fd = Some s \<Longrightarrow> stream_of m fd = s_stream s"
  by (simp add: stream_of_def)

text \<open>Every operation but send and receive leaves the streams of two linked sockets alone, and them linked.\<close>

definition idle_on :: "int32 \<Rightarrow> int32 \<Rightarrow> socks \<Rightarrow> socks \<Rightarrow> bool" where
  "idle_on a b m m' \<longleftrightarrow> linked m' a b \<and> stream_of m' b = stream_of m b"

lemma linkedD:
  assumes "linked m a b"
  shows "conn_of m a" "conn_of m b" "a \<noteq> b" "peer_of m c = Some b \<longleftrightarrow> c = a" "peer_of m c = Some a \<longleftrightarrow> c = b"
    "a \<notin> set (queue_of m l)" "b \<notin> set (queue_of m l)"
  using assms by (auto simp: linked_def)

lemma linked_cong:
  assumes "linked m a b" "conn_of m' a" "conn_of m' b"
    and "\<And>c. peer_of m' c = peer_of m c \<or> c \<notin> {a, b} \<and> peer_of m' c \<notin> {Some a, Some b}"
    and "\<And>l. a \<notin> set (queue_of m' l)" "\<And>l. b \<notin> set (queue_of m' l)"
  shows "linked m' a b"
proof -
  have "peer_of m' c = Some b \<longleftrightarrow> c = a" "peer_of m' c = Some a \<longleftrightarrow> c = b" for c
    using assms(4) [of c] linkedD(4,5) [OF assms(1), of c] by auto
  with assms(2,3,5,6) linkedD(3) [OF assms(1)] show ?thesis by (simp add: linked_def)
qed

lemma paired_linked:
  assumes "socks_paired m" "peer_of m a = Some b"
  shows "linked m a b"
proof -
  note inv = socks_pairedD(2) [OF assms(1)]
  note ab = paired_peer [OF inv assms(2)]
  have "peer_of m c = Some b \<longleftrightarrow> c = a" "peer_of m c = Some a \<longleftrightarrow> c = b" for c
    using paired_peer_inj [OF inv] assms(2) ab(2) by blast+
  moreover have "a \<notin> set (queue_of m l)" "b \<notin> set (queue_of m l)" for l
    using paired_queue(3) [OF inv, of _ l] assms(2) ab(2) by fastforce+
  ultimately show ?thesis using ab by (simp add: linked_def)
qed

lemma idle_refl [simp]: "linked m a b \<Longrightarrow> idle_on a b m m"
  by (simp add: idle_on_def)

text \<open>A change to one other socket, whose new peer and queue do not refer to the two.\<close>

lemma idle_upd:
  assumes "linked m a b" "fd \<notin> {a, b}"
    and "\<And>s. x = Some s \<Longrightarrow> s_peer s \<notin> {Some a, Some b} \<and> set (s_queue s) \<inter> {a, b} = {}"
  shows "idle_on a b m (m(fd := x))"
proof -
  have "linked (m(fd := x)) a b"
    by (rule linked_cong [OF assms(1)])
      (use assms linkedD [OF assms(1)] in \<open>auto split: option.splits\<close>)
  with assms(2) show ?thesis by (auto simp: idle_on_def)
qed

lemma idle_trans: "idle_on a b m m' \<Longrightarrow> idle_on a b m' m'' \<Longrightarrow> idle_on a b m m''"
  by (simp add: idle_on_def)

lemma linked_some:
  assumes "linked m a b" "m fd = Some s"
  shows "s_kind s \<noteq> Connected \<Longrightarrow> fd \<notin> {a, b}" "s_peer s = Some b \<longleftrightarrow> fd = a" "s_peer s = Some a \<longleftrightarrow> fd = b"
    "a \<notin> set (s_queue s)" "b \<notin> set (s_queue s)"
  using linkedD(1,2) [OF assms(1)] linkedD(4-7) [OF assms(1), of fd] assms(2) by (auto simp: views_some)

lemma socket_idle: "linked m a b \<Longrightarrow> idle_on a b m (fst (spec_socket m r))"
  by (auto simp: spec_socket_def split: option.split dest!: free_fd_Some intro!: idle_upd
      dest: linkedD(1,2) simp: views_none)

text \<open>Bind, listen, send and receive rewrite one socket, and keep its peer and its queue or clear the queue.\<close>

lemma linked_upd:
  assumes "linked m a b" "m fd = Some s" "s_kind s' = s_kind s \<or> s_kind s \<noteq> Connected" "s_peer s' = s_peer s"
    "set (s_queue s') \<subseteq> set (s_queue s)"
  shows "linked (m(fd \<mapsto> s')) a b"
proof -
  note l = linked_some [OF assms(1,2)]
  show ?thesis
    by (rule linked_cong [OF assms(1)])
      (use assms l linkedD [OF assms(1)] in \<open>auto simp: views_some\<close>)
qed

lemma bind_idle: "linked m a b \<Longrightarrow> idle_on a b m (fst (spec_bind m r))"
  by (auto simp: spec_bind_def Let_def idle_on_def stream_some split: option.split intro!: linked_upd)

lemma listen_idle: "linked m a b \<Longrightarrow> idle_on a b m (fst (spec_listen m r))"
  by (auto simp: spec_listen_def Let_def idle_on_def stream_some split: option.split intro!: linked_upd)

lemma connect_idle:
  assumes "linked m a b"
  shows "idle_on a b m (fst (spec_connect m r))"
proof -
  let ?fd = "connect_sock (u_connect r)"
  have "idle_on a b m (m(?fd \<mapsto> s\<lparr>s_kind := Connected, s_peer := None\<rparr>,
                        lfd \<mapsto> l\<lparr>s_queue := s_queue l @ [?fd]\<rparr>))"
    if "m ?fd = Some s" "s_kind s = Unbound" "m lfd = Some l" "s_kind l = Listening" for s lfd l
  proof -
    note s = linked_some [OF assms that(1)] and l = linked_some [OF assms that(3)]
    have i: "idle_on a b m (m(?fd \<mapsto> s\<lparr>s_kind := Connected, s_peer := None\<rparr>))"
      by (rule idle_upd [OF assms]) (use s that in auto)
    then have "linked (m(?fd \<mapsto> s\<lparr>s_kind := Connected, s_peer := None\<rparr>)) a b" by (simp add: idle_on_def)
    then show ?thesis
      by (rule idle_trans [OF i idle_upd]) (use s l that in auto)
  qed
  with assms show ?thesis
    by (auto simp: spec_connect_def Let_def listener_on_def split: option.split option.split_asm
        dest!: find_all_fds_Some)
qed

lemma attach_idle:
  assumes "linked m a b" "c \<notin> {a, b}" "n \<notin> {a, b}"
  shows "idle_on a b m (attach c n m)"
  using assms by (auto simp: attach_def linked_some split: option.split intro!: idle_upd)

text \<open>The client an accept finds is not one of the two, since neither waits in a backlog.\<close>

lemma accept_idle:
  assumes "linked m a b"
  shows "idle_on a b m (fst (spec_accept m r))"
proof -
  let ?fd = "accept_sock (u_accept r)"
  have "idle_on a b m (attach c n (m(?fd \<mapsto> l\<lparr>s_queue := q\<rparr>, n \<mapsto> new)))"
    if l: "m ?fd = Some l" "s_kind l = Listening" "s_queue l = c # q" and n: "m n = None"
      and new: "s_peer new = Some c" "s_queue new = []" for l c q n new
  proof -
    let ?m1 = "m(?fd \<mapsto> l\<lparr>s_queue := q\<rparr>)" and ?m2 = "m(?fd \<mapsto> l\<lparr>s_queue := q\<rparr>, n \<mapsto> new)"
    note v = linked_some [OF assms l(1)]
    have c: "c \<notin> {a, b}" using v(4,5) l(3) by auto
    have nn: "n \<notin> {a, b}" using linkedD(1,2) [OF assms] n by (auto simp: views_none)
    have 1: "idle_on a b m ?m1"
      by (rule idle_upd [OF assms]) (use v l in auto)
    then have 2: "idle_on a b ?m1 ?m2"
      by (intro idle_upd) (use nn c new in \<open>auto simp: idle_on_def\<close>)
    then have "idle_on a b ?m2 (attach c n ?m2)"
      by (intro attach_idle c nn) (simp add: idle_on_def)
    with 1 2 show ?thesis by (blast intro: idle_trans)
  qed
  with assms show ?thesis
    by (auto simp: spec_accept_def Let_def split: option.split list.split dest!: free_fd_Some)
qed

lemma disconnect_idle:
  assumes "linked m a b" "p \<notin> {Some a, Some b}"
  shows "idle_on a b m (disconnect p m)"
  using assms by (auto simp: disconnect_def linked_some split: option.split intro!: idle_upd)

lemma close_idle:
  assumes "linked m a b" "close_sock (u_close r) \<notin> {a, b}"
  shows "idle_on a b m (fst (spec_close m r))"
proof -
  let ?fd = "close_sock (u_close r)"
  have "idle_on a b m ((disconnect (s_peer s) m)(?fd := None))" if "m ?fd = Some s" for s
  proof -
    have i: "idle_on a b m (disconnect (s_peer s) m)"
      by (rule disconnect_idle [OF assms(1)]) (use linked_some(2,3) [OF assms(1) that] assms(2) in auto)
    then have "linked (disconnect (s_peer s) m) a b" by (simp add: idle_on_def)
    then show ?thesis by (rule idle_trans [OF i idle_upd]) (use assms(2) in auto)
  qed
  with assms show ?thesis by (auto simp: spec_close_def Let_def split: option.split)
qed

lemma spec_send_cases [case_names fail ok]:
  obtains "fst (spec_send m r) = m" "err (snd (spec_send m r)) \<noteq> NETSTACK_OK"
  | s p ps n where "m (send_sock (u_send r)) = Some s" "s_peer s = Some p" "m p = Some ps"
      "spec_send m r = (m(p \<mapsto> ps\<lparr>s_stream := s_stream ps @ take (nat n) (send_data (u_send r))\<rparr>),
         r\<lparr>err := NETSTACK_OK, u_send := (u_send r)\<lparr>send_len_out := n\<rparr>\<rparr>)"
proof (cases "m (send_sock (u_send r))")
  case None
  then show ?thesis by (intro that(1)) (simp_all add: spec_send_def)
next
  case (Some s)
  show ?thesis
  proof (cases "Option.bind (s_peer s) (\<lambda>p. map_option (Pair p) (m p))")
    case None
    with Some show ?thesis by (intro that(1)) (simp_all add: spec_send_def)
  next
    case (Some q)
    then obtain p ps where p: "s_peer s = Some p" "m p = Some ps" "q = (p, ps)"
      by (auto simp: bind_eq_Some_conv)
    show ?thesis
    proof (cases "err (snd (spec_send m r)) = NETSTACK_OK")
      case True
      with p \<open>m (send_sock (u_send r)) = Some s\<close> show ?thesis
        by (intro that(2)) (simp_all add: spec_send_def Let_def split: if_splits)
    next
      case False
      with p \<open>m (send_sock (u_send r)) = Some s\<close> show ?thesis
        by (intro that(1)) (auto simp: spec_send_def Let_def split: if_splits)
    qed
  qed
qed

lemma send_conserves:
  assumes "linked m a b" "op r = NETSTACK_OP_SEND"
  shows "linked (fst (spec_send m r)) a b \<and>
    stream_of m b @ sent_by a r (snd (spec_send m r)) = stream_of (fst (spec_send m r)) b"
proof (cases rule: spec_send_cases [of m r])
  case fail
  then show ?thesis using assms(1) by (simp add: sent_by_def)
next
  case (ok s p ps n)
  have "send_sock (u_send r) = a \<longleftrightarrow> p = b"
    using linked_some(2) [OF assms(1) ok(1)] ok(2) by auto
  moreover have "linked (fst (spec_send m r)) a b"
    unfolding ok(4) by (simp add: linked_upd [OF assms(1) ok(3)])
  ultimately show ?thesis
    using assms(2) ok(3) unfolding ok(4) by (cases "p = b") (simp_all add: sent_by_def stream_some)
qed

lemma spec_recv_cases [case_names fail eof data]:
  obtains "fst (spec_recv m r) = m" "err (snd (spec_recv m r)) \<noteq> NETSTACK_OK"
  | "fst (spec_recv m r) = m" "recv_len_out (u_recv (snd (spec_recv m r))) = 0"
  | s n where "m (recv_sock (u_recv r)) = Some s" "0 \<le> n" "n \<le> int (length (s_stream s))"
      "spec_recv m r = (m(recv_sock (u_recv r) \<mapsto> s\<lparr>s_stream := drop (nat n) (s_stream s)\<rparr>),
         r\<lparr>err := NETSTACK_OK,
           u_recv := (u_recv r)\<lparr>recv_data := blit (recv_data (u_recv r)) 0 (take (nat n) (s_stream s)),
                                 recv_len_out := n\<rparr>\<rparr>)"
proof (cases "m (recv_sock (u_recv r))")
  case None
  then show ?thesis by (intro that(1)) (simp_all add: spec_recv_def)
next
  case (Some s)
  consider "s_kind s \<noteq> Connected" | "s_kind s = Connected" "s_stream s = []"
    | "s_kind s = Connected" "s_stream s \<noteq> []" by blast
  then show ?thesis
  proof cases
    case 1
    with Some show ?thesis by (intro that(1)) (simp_all add: spec_recv_def)
  next
    case 2
    with Some show ?thesis by (intro that(2)) (simp_all add: spec_recv_def)
  next
    case 3
    show ?thesis
      by (rule that(3) [OF Some, of "min (int (length (s_stream s)))
            (min NETSTACK_MAX_PAYLOAD (max 0 (recv_len_in (u_recv r))))"])
        (use 3 Some in \<open>simp_all add: spec_recv_def Let_def\<close>)
  qed
qed

lemma recv_conserves:
  assumes "linked m a b" "op r = NETSTACK_OP_RECV"
  shows "linked (fst (spec_recv m r)) a b \<and>
    stream_of m b = received_by b r (snd (spec_recv m r)) @ stream_of (fst (spec_recv m r)) b"
proof (cases rule: spec_recv_cases [of m r])
  case (data s n)
  then have "take (nat n) (blit (recv_data (u_recv r)) 0 (take (nat n) (s_stream s))) = take (nat n) (s_stream s)"
    by (intro take_blit_prefix) simp
  with data assms linked_upd [OF assms(1) data(1)] show ?thesis
    by (auto simp: received_by_def stream_some)
qed (use assms in \<open>simp_all add: received_by_def\<close>)

lemma dispatch_conserves:
  assumes a: "linked m a b" and ok: "keeps_open a b r"
  shows "linked (fst (fst (spec_dispatch (m, sd) r))) a b \<and>
    stream_of m b @ sent_by a r (snd (spec_dispatch (m, sd) r)) =
    received_by b r (snd (spec_dispatch (m, sd) r)) @ stream_of (fst (fst (spec_dispatch (m, sd) r))) b"
proof -
  have idle: "linked m' a b \<and> stream_of m b = stream_of m' b" if "idle_on a b m m'" for m'
    using that by (simp add: idle_on_def)
  note disp = spec_dispatch_def spec_handler_def split_beta sent_by_def received_by_def
  show ?thesis
  proof (cases r rule: op_codes_cases)
    case socket
    with idle [OF socket_idle [OF a]] show ?thesis by (simp add: disp)
  next
    case bind
    with idle [OF bind_idle [OF a]] show ?thesis by (simp add: disp)
  next
    case listen
    with idle [OF listen_idle [OF a]] show ?thesis by (simp add: disp)
  next
    case connect
    with idle [OF connect_idle [OF a]] show ?thesis by (simp add: disp)
  next
    case accept
    with idle [OF accept_idle [OF a]] show ?thesis by (simp add: disp)
  next
    case close
    with idle [OF close_idle [OF a]] ok show ?thesis by (simp add: disp keeps_open_def)
  next
    case send
    with send_conserves [OF a send] show ?thesis
      by (simp add: spec_dispatch_def spec_handler_def split_beta received_by_def)
  next
    case recv
    with recv_conserves [OF a recv] show ?thesis
      by (simp add: spec_dispatch_def spec_handler_def split_beta sent_by_def)
  qed (simp_all add: spec_dispatch_def spec_handler_def sent_by_def received_by_def a)
qed

lemma stream_abs: "linked (abs_table t) a b \<Longrightarrow> stream_of (abs_table t) b = rx_bytes (aget t b)"
  by (auto dest!: linkedD(2) simp: stream_of_def conn_of_def abs_table_def abs_entry_def abs_sock_def split: if_splits)

interpretation conn: stream_service dispatch_request "keeps_open a b" "connected_engine a b"
  "\<lambda>s. rx_bytes (aget (g_fdtable s) b)" "sent_by a" "received_by b" for a b
proof (unfold_locales, goal_cases)
  case (1 s r)
  then show ?case
    using dispatch_conserves [of "abs_table (g_fdtable s)" a b r "g_engine_shutdown s"] dispatch_refines [of s r]
    by (simp add: connected_engine_def dispatch_keeps_wf abs_engine_def map_prod_def split_beta)
next
  case (2 s r)
  then show ?case
    using dispatch_conserves [of "abs_table (g_fdtable s)" a b r "g_engine_shutdown s"] dispatch_refines [of s r]
    by (simp add: connected_engine_def abs_engine_def map_prod_def split_beta stream_abs [of _ a b])
qed

end
