(* ===== verification/Client.thy ===== *)
theory Client
  imports Engine Slots "HOL-Library.Monad_Syntax"
begin

text \<open>
  The client library (\<open>src/phase3_bsdsocket/socket_ipc.c\<close>): the cached engine port, the table
  of reply ports, the remote call and one wrapper per operation.

  \<open>ipc_env\<close> is what exec answers during one call: the calling task, what \<open>FindPort\<close> returns
  and the port \<open>AllocSysObjectTags\<close> returns. \<open>PutMsg\<close> to the engine's port followed by
  \<open>WaitPort\<close> is the engine serving the message; when no engine loop serves that port the call
  blocks for ever, which is the result \<open>None\<close>. A wrapper returns what the C function returns
  together with what it stored through its output pointers.
\<close>

record reply_slot =
  rs_owner :: ptr
  rs_port :: ptr

record client =
  g_engine_port_sem_init :: bool
  g_engine_port :: ptr
  g_reply_sem_init :: bool
  g_reply_slots :: "reply_slot list"

record world =
  cl :: client
  eng :: engine

record ipc_env =
  env_me :: ptr
  env_find_port :: ptr
  env_alloc_port :: ptr

definition reply_slot_zero :: reply_slot where
  "reply_slot_zero = \<lparr>rs_owner = NULL, rs_port = NULL\<rparr>"

definition client_zero :: client where
  "client_zero =
     \<lparr>g_engine_port_sem_init = False, g_engine_port = NULL, g_reply_sem_init = False,
      g_reply_slots = replicate (nat TASK_SLOT_MAX) reply_slot_zero\<rparr>"

section \<open>Ports\<close>

definition ensure_engine_port :: "ptr \<Rightarrow> client \<Rightarrow> ptr \<times> client" where
  "ensure_engine_port found c =
     (let c1 = (if \<not> g_engine_port_sem_init c then c\<lparr>g_engine_port_sem_init := True\<rparr> else c);
          c2 = (if g_engine_port c1 = NULL then c1\<lparr>g_engine_port := found\<rparr> else c1)
      in (g_engine_port c2, c2))"

text \<open>The part of \<open>ensure_reply_port\<close> under the semaphore; \<open>p\<close> is the port exec would allocate.\<close>

definition reply_slot_for :: "ptr \<Rightarrow> ptr \<Rightarrow> reply_slot list \<Rightarrow> ptr \<times> reply_slot list" where
  "reply_slot_for p me slots =
     (let i = c_search (\<lambda>i. rs_owner (aget slots i) = me) 0 TASK_SLOT_MAX in
      if i \<ge> 0 then (rs_port (aget slots i), slots)
      else
        let j = c_search (\<lambda>j. rs_owner (aget slots j) = NULL) 0 TASK_SLOT_MAX in
        if j \<ge> 0
        then if p = NULL then (NULL, slots)
             else (p, aset slots j \<lparr>rs_owner = me, rs_port = p\<rparr>)
        else (NULL, slots))"

definition ensure_reply_port :: "ipc_env \<Rightarrow> client \<Rightarrow> ptr \<times> client" where
  "ensure_reply_port env c =
     (let c1 = (if \<not> g_reply_sem_init c then c\<lparr>g_reply_sem_init := True\<rparr> else c);
          (p, slots) = reply_slot_for (env_alloc_port env) (env_me env) (g_reply_slots c1)
      in (p, c1\<lparr>g_reply_slots := slots\<rparr>))"

section \<open>The remote call\<close>

text \<open>
  \<open>PutMsg\<close>, \<open>WaitPort\<close> and \<open>GetMsg\<close> in one step, with the engine's part between them: a message put to
  \<open>port\<close> comes back while the engine is in its loop on that port, and never otherwise. Theory
  \<open>Concurrent\<close> takes this step apart into those of exec, the caller and the engine, and shows that the
  two agree (\<open>lone_call_atomic\<close>).
\<close>

definition serve :: "ptr \<Rightarrow> NetstackReq \<Rightarrow> engine \<Rightarrow> (engine \<times> NetstackReq) option" where
  "serve port r e =
     (if g_engine_ready e \<and> \<not> g_engine_shutdown e \<and> g_request_port e = port
      then Some (dispatch_request e r) else None)"

definition netstack_ipc_call :: "ipc_env \<Rightarrow> NetstackReq \<Rightarrow> world \<Rightarrow> (int32 \<times> NetstackReq \<times> world) option" where
  "netstack_ipc_call env req w =
     (let (engine, c1) = ensure_engine_port (env_find_port env) (cl w) in
      if engine = NULL then Some (-1, req, w\<lparr>cl := c1\<rparr>)
      else
        let (reply, c2) = ensure_reply_port env c1 in
        if reply = NULL then Some (-1, req, w\<lparr>cl := c2\<rparr>)
        else
          do {
            (e, req') \<leftarrow> serve engine (req\<lparr>mn_ReplyPort := reply\<rparr>) (eng w);
            Some (0, req', w\<lparr>cl := c2, eng := e\<rparr>)
          })"

section \<open>Public functions\<close>

definition netstack_client_init :: "ipc_env \<Rightarrow> client \<Rightarrow> int32 \<times> client" where
  "netstack_client_init env c =
     (let c1 = (if \<not> g_engine_port_sem_init c then c\<lparr>g_engine_port_sem_init := True\<rparr> else c);
          c2 = (if \<not> g_reply_sem_init c1 then c1\<lparr>g_reply_sem_init := True\<rparr> else c1);
          (p, c3) = ensure_engine_port (env_find_port env) c2
      in (if p \<noteq> NULL then 0 else -1, c3))"

text \<open>Every reply port is freed and its slot cleared, in slot order.\<close>

definition free_reply_slots :: "reply_slot list \<Rightarrow> reply_slot list \<times> exec_call list" where
  "free_reply_slots slots =
     (map (\<lambda>s. if rs_port s \<noteq> NULL then reply_slot_zero else s) slots,
      map (\<lambda>s. FreePort (rs_port s)) (filter (\<lambda>s. rs_port s \<noteq> NULL) slots))"

definition netstack_client_shutdown :: "client \<Rightarrow> client \<times> exec_call list" where
  "netstack_client_shutdown c =
     (if \<not> g_reply_sem_init c then (c, [])
      else let (slots, calls) = free_reply_slots (g_reply_slots c)
           in (c\<lparr>g_reply_slots := slots, g_engine_port := NULL\<rparr>, calls))"

definition netstack_ping ::
  "ipc_env \<Rightarrow> uint32 \<Rightarrow> uint32 \<Rightarrow> world \<Rightarrow> (int32 \<times> uint32 option \<times> world) option"
where
  "netstack_ping env seq payload w =
     do {
       (rc, req, w') \<leftarrow> netstack_ipc_call env
         (req_zero\<lparr>op := NETSTACK_OP_PING,
                   u_ping := \<lparr>ping_seq = seq, ping_payload = payload\<rparr>\<rparr>) w;
       if rc \<noteq> 0 then Some (-1, None, w')
       else Some (err req, Some (ping_payload (u_ping req)), w')
     }"

definition netstack_socket ::
  "ipc_env \<Rightarrow> int32 \<Rightarrow> int32 \<Rightarrow> int32 \<Rightarrow> world \<Rightarrow> (int32 \<times> int32 option \<times> world) option"
where
  "netstack_socket env dmn typ prot w =
     do {
       (rc, req, w') \<leftarrow> netstack_ipc_call env
         (req_zero\<lparr>op := NETSTACK_OP_SOCKET,
                   u_socket := \<lparr>socket_domain = dmn, socket_type = typ, socket_proto = prot,
                                socket_sock = 0\<rparr>\<rparr>) w;
       if rc \<noteq> 0 then Some (-1, None, w')
       else Some (err req, Some (socket_sock (u_socket req)), w')
     }"

definition netstack_close :: "ipc_env \<Rightarrow> int32 \<Rightarrow> world \<Rightarrow> (int32 \<times> world) option" where
  "netstack_close env sock w =
     do {
       (rc, req, w') \<leftarrow> netstack_ipc_call env
         (req_zero\<lparr>op := NETSTACK_OP_CLOSE, u_close := \<lparr>close_sock = sock\<rparr>\<rparr>) w;
       if rc \<noteq> 0 then Some (-1, w') else Some (err req, w')
     }"

definition netstack_bind :: "ipc_env \<Rightarrow> int32 \<Rightarrow> uint16 \<Rightarrow> world \<Rightarrow> (int32 \<times> world) option" where
  "netstack_bind env sock port w =
     do {
       (rc, req, w') \<leftarrow> netstack_ipc_call env
         (req_zero\<lparr>op := NETSTACK_OP_BIND, u_bind := \<lparr>bind_sock = sock, bind_port = port\<rparr>\<rparr>) w;
       if rc \<noteq> 0 then Some (-1, w') else Some (err req, w')
     }"

definition netstack_listen :: "ipc_env \<Rightarrow> int32 \<Rightarrow> int32 \<Rightarrow> world \<Rightarrow> (int32 \<times> world) option" where
  "netstack_listen env sock bl w =
     do {
       (rc, req, w') \<leftarrow> netstack_ipc_call env
         (req_zero\<lparr>op := NETSTACK_OP_LISTEN,
                   u_listen := \<lparr>listen_sock = sock, listen_backlog = bl\<rparr>\<rparr>) w;
       if rc \<noteq> 0 then Some (-1, w') else Some (err req, w')
     }"

definition netstack_connect :: "ipc_env \<Rightarrow> int32 \<Rightarrow> uint16 \<Rightarrow> world \<Rightarrow> (int32 \<times> world) option" where
  "netstack_connect env sock port w =
     do {
       (rc, req, w') \<leftarrow> netstack_ipc_call env
         (req_zero\<lparr>op := NETSTACK_OP_CONNECT,
                   u_connect := \<lparr>connect_sock = sock, connect_port = port\<rparr>\<rparr>) w;
       if rc \<noteq> 0 then Some (-1, w') else Some (err req, w')
     }"

definition netstack_accept ::
  "ipc_env \<Rightarrow> int32 \<Rightarrow> world \<Rightarrow> (int32 \<times> (int32 \<times> uint16) option \<times> world) option"
where
  "netstack_accept env sock w =
     do {
       (rc, req, w') \<leftarrow> netstack_ipc_call env
         (req_zero\<lparr>op := NETSTACK_OP_ACCEPT,
                   u_accept := \<lparr>accept_sock = sock, accept_new_sock = 0, accept_peer_port = 0\<rparr>\<rparr>) w;
       if rc \<noteq> 0 then Some (-1, None, w')
       else Some (err req, Some (accept_new_sock (u_accept req), accept_peer_port (u_accept req)), w')
     }"

text \<open>\<open>buf\<close> is the caller's buffer; the code reads its first \<open>len\<close> bytes.\<close>

definition netstack_send :: "ipc_env \<Rightarrow> int32 \<Rightarrow> uint8 list \<Rightarrow> int32 \<Rightarrow> world \<Rightarrow> (int32 \<times> world) option" where
  "netstack_send env sock buf len w =
     (if len < 0 \<or> len > NETSTACK_MAX_PAYLOAD then Some (NETSTACK_EMSGSIZE, w)
      else
        do {
          (rc, req, w') \<leftarrow> netstack_ipc_call env
            (req_zero\<lparr>op := NETSTACK_OP_SEND,
                      u_send := \<lparr>send_sock = sock, send_len_in = len, send_len_out = 0,
                                 send_data = blit zero_payload 0 (take (nat len) buf)\<rparr>\<rparr>) w;
          if rc \<noteq> 0 then Some (-1, w')
          else if err req \<noteq> NETSTACK_OK then Some (err req, w')
          else Some (send_len_out (u_send req), w')
        })"

text \<open>The second component is the caller's buffer afterwards (\<open>None\<close> is a NULL buffer).\<close>

definition netstack_recv ::
  "ipc_env \<Rightarrow> int32 \<Rightarrow> uint8 list option \<Rightarrow> int32 \<Rightarrow> world \<Rightarrow> (int32 \<times> uint8 list option \<times> world) option"
where
  "netstack_recv env sock buf max0 w =
     (if max0 < 0 then Some (NETSTACK_EMSGSIZE, buf, w)
      else
        let mx = (if max0 > NETSTACK_MAX_PAYLOAD then NETSTACK_MAX_PAYLOAD else max0) in
        do {
          (rc, req, w') \<leftarrow> netstack_ipc_call env
            (req_zero\<lparr>op := NETSTACK_OP_RECV,
                      u_recv := \<lparr>recv_sock = sock, recv_len_in = mx, recv_len_out = 0,
                                 recv_data = zero_payload\<rparr>\<rparr>) w;
          if rc \<noteq> 0 then Some (-1, buf, w')
          else if err req \<noteq> NETSTACK_OK then Some (err req, buf, w')
          else
            let n = recv_len_out (u_recv req) in
            Some (n,
                  (case buf of
                     Some b \<Rightarrow> if n > 0 then Some (blit b 0 (take (nat n) (recv_data (u_recv req)))) else buf
                   | None \<Rightarrow> None),
                  w')
        })"

section \<open>A client that can reach the engine\<close>

definition engine_target :: "ipc_env \<Rightarrow> world \<Rightarrow> ptr" where
  "engine_target env w = (if g_engine_port (cl w) = NULL then env_find_port env else g_engine_port (cl w))"

definition reply_target :: "ipc_env \<Rightarrow> world \<Rightarrow> ptr" where
  "reply_target env w = fst (reply_slot_for (env_alloc_port env) (env_me env) (g_reply_slots (cl w)))"

definition in_loop :: "ptr \<Rightarrow> engine \<Rightarrow> bool" where
  "in_loop port e \<longleftrightarrow> g_engine_ready e \<and> \<not> g_engine_shutdown e \<and> g_request_port e = port"

definition online :: "ipc_env \<Rightarrow> world \<Rightarrow> bool" where
  "online env w \<longleftrightarrow>
     fdtable_wf (g_fdtable (eng w)) \<and> owners_wf (map rs_owner (g_reply_slots (cl w))) \<and>
     env_me env \<noteq> NULL \<and> engine_target env w \<noteq> NULL \<and> reply_target env w \<noteq> NULL \<and>
     in_loop (engine_target env w) (eng w)"

definition sockets :: "world \<Rightarrow> socks" where
  "sockets w = abs_table (g_fdtable (eng w))"

section \<open>The reply ports are a table of task slots\<close>

interpretation rp: task_slots reply_slot_for rs_owner "\<lambda>i s. rs_port s" NULL
proof (unfold_locales, goal_cases)
  case (1 ts me i env)
  then have len: "TASK_SLOT_MAX = int (length ts)" by (simp add: owners_wf_def)
  show ?case
  proof (cases rule: c_search_list [OF len, of "\<lambda>s. rs_owner s = me", case_names none found])
    case none
    with 1 show ?thesis by (metis nth_mem)
  next
    case (found k)
    have "k = i" using owners_unique [of "map rs_owner ts" k i] 1 found by simp
    with found show ?thesis by (simp add: reply_slot_for_def aget_def)
  qed
next
  case (2 ts me env r ts')
  then have len: "TASK_SLOT_MAX = int (length ts)" by (simp add: owners_wf_def)
  from 2(3) have "c_search (\<lambda>i. rs_owner (aget ts i) = me) 0 TASK_SLOT_MAX = -1"
    by (cases rule: c_search_list [OF len, of "\<lambda>s. rs_owner s = me"]) auto
  with 2(4) show ?case
    by (cases rule: c_search_list [OF len, of "\<lambda>s. rs_owner s = NULL"])
      (auto simp: reply_slot_for_def Let_def aset_def split: if_splits
        intro!: exI [of _ "\<lparr>rs_owner = me, rs_port = r\<rparr>"])
next
  case (3 ts me env)
  then have len: "TASK_SLOT_MAX = int (length ts)" by (simp add: owners_wf_def)
  from 3(3) have "c_search (\<lambda>i. rs_owner (aget ts i) = me) 0 TASK_SLOT_MAX = -1"
    by (cases rule: c_search_list [OF len, of "\<lambda>s. rs_owner s = me"]) auto
  moreover from 3(4) have "c_search (\<lambda>i. rs_owner (aget ts i) = NULL) 0 TASK_SLOT_MAX = -1"
    by (cases rule: c_search_list [OF len, of "\<lambda>s. rs_owner s = NULL"]) auto
  ultimately show ?case by (simp add: reply_slot_for_def)
qed

section \<open>The remote call\<close>

text \<open>What the call leaves in the client whatever happens to the message.\<close>

definition client_after :: "ipc_env \<Rightarrow> client \<Rightarrow> client" where
  "client_after env c = snd (ensure_reply_port env (snd (ensure_engine_port (env_find_port env) c)))"

lemma ensure_engine_port_fst:
  "fst (ensure_engine_port (env_find_port env) (cl w)) = engine_target env w"
  by (simp add: ensure_engine_port_def engine_target_def Let_def)

lemma ensure_reply_port_fst:
  "fst (ensure_reply_port env (snd (ensure_engine_port (env_find_port env) (cl w)))) = reply_target env w"
  by (simp add: ensure_engine_port_def ensure_reply_port_def reply_target_def Let_def split_beta)

lemma ipc_call_eq:
  "netstack_ipc_call env req w =
     (if engine_target env w = NULL
      then Some (-1, req, w\<lparr>cl := snd (ensure_engine_port (env_find_port env) (cl w))\<rparr>)
      else if reply_target env w = NULL then Some (-1, req, w\<lparr>cl := client_after env (cl w)\<rparr>)
      else if in_loop (engine_target env w) (eng w)
      then (case dispatch_request (eng w) (req\<lparr>mn_ReplyPort := reply_target env w\<rparr>) of
              (e, r) \<Rightarrow> Some (0, r, w\<lparr>cl := client_after env (cl w), eng := e\<rparr>))
      else None)"
  by (simp add: netstack_ipc_call_def split_beta Let_def ensure_engine_port_fst ensure_reply_port_fst
      client_after_def serve_def in_loop_def)

lemma client_after_targets:
  assumes "online env w"
  shows "g_engine_port (client_after env (cl w)) = engine_target env w"
    and "owners_wf (map rs_owner (g_reply_slots (client_after env (cl w))))"
    and "reply_slot_for p (env_me env) (g_reply_slots (client_after env (cl w))) =
      (reply_target env w, g_reply_slots (client_after env (cl w)))"
proof -
  let ?slots = "g_reply_slots (cl w)"
  have wf: "owners_wf (map rs_owner ?slots)" and me: "env_me env \<noteq> NULL" and ok: "reply_target env w \<noteq> NULL"
    using assms by (simp_all add: online_def)
  obtain q slots' where e: "reply_slot_for (env_alloc_port env) (env_me env) ?slots = (q, slots')" by fastforce
  have q: "q = reply_target env w" using e by (simp add: reply_target_def)
  have after: "g_reply_slots (client_after env (cl w)) = slots'"
    using e by (simp add: client_after_def ensure_engine_port_def ensure_reply_port_def Let_def)
  show "g_engine_port (client_after env (cl w)) = engine_target env w"
    by (simp add: client_after_def ensure_engine_port_def ensure_reply_port_def Let_def split_beta engine_target_def)
  show "owners_wf (map rs_owner (g_reply_slots (client_after env (cl w))))"
    using rp.ensure_wf [OF wf me e] by (simp add: after)
  have "env_me env \<in> rs_owner ` set slots'"
  proof (cases "env_me env \<in> rs_owner ` set ?slots")
    case True
    then obtain i where "i < length ?slots" "rs_owner (?slots ! i) = env_me env"
      by (auto simp: in_set_conv_nth)
    from rp.hit [OF wf me this] e have "slots' = ?slots" by simp
    with True show ?thesis by simp
  next
    case False
    from rp.miss [OF wf me False e] ok q show ?thesis by (metis image_eqI set_update_memI)
  qed
  from rp.same_answer [OF wf me e this, of "[]"] q
  show "reply_slot_for p (env_me env) (g_reply_slots (client_after env (cl w))) =
      (reply_target env w, g_reply_slots (client_after env (cl w)))"
    by (simp add: after)
qed

text \<open>
  An online call returns the engine's answer, moves the sockets as the abstract operation
  says, and leaves the caller online.
\<close>

lemma ipc_online:
  assumes on: "online env w" and op: "op req \<noteq> NETSTACK_OP_SHUTDOWN"
  obtains w' where
    "netstack_ipc_call env req w =
       Some (0, snd (spec_dispatch (abs_engine (eng w)) (req\<lparr>mn_ReplyPort := reply_target env w\<rparr>)), w')"
    "online env w'" "abs_engine (eng w') =
       fst (spec_dispatch (abs_engine (eng w)) (req\<lparr>mn_ReplyPort := reply_target env w\<rparr>))"
proof -
  let ?r = "req\<lparr>mn_ReplyPort := reply_target env w\<rparr>"
  obtain e r where d: "dispatch_request (eng w) ?r = (e, r)" by fastforce
  have wf: "fdtable_wf (g_fdtable (eng w))" using on by (simp add: online_def)
  note refine = dispatch_refines [OF wf, of ?r]
  let ?w' = "w\<lparr>cl := client_after env (cl w), eng := e\<rparr>"
  have "netstack_ipc_call env req w = Some (0, r, ?w')"
    using on d by (simp add: ipc_call_eq online_def)
  moreover have "online env ?w'"
  proof -
    have e: "e = fst (dispatch_request (eng w) ?r)" using d by simp
    have "in_loop (engine_target env w) e"
      using on op by (simp add: e online_def in_loop_def dispatch_engine_frame dispatch_shutdown_flag)
    with on client_after_targets [OF on] dispatch_keeps_wf [OF wf, of ?r] show ?thesis
      by (simp add: e online_def engine_target_def reply_target_def)
  qed
  ultimately show thesis using refine d by (intro that [of ?w']) simp_all
qed

section \<open>The wrappers\<close>

lemma spec_dispatch_ops:
  "op r = NETSTACK_OP_SEND \<Longrightarrow> spec_dispatch a r = (case spec_send (fst a) r of (m, r') \<Rightarrow> ((m, snd a), r'))"
  "op r = NETSTACK_OP_RECV \<Longrightarrow> spec_dispatch a r = (case spec_recv (fst a) r of (m, r') \<Rightarrow> ((m, snd a), r'))"
  by (simp_all add: spec_dispatch_def spec_handler_def)

lemma client_send:
  assumes on: "online env w" and s: "sockets w a = Some sa" "s_peer sa = Some b" "sockets w b = Some sb"
    and len: "0 \<le> len" "len \<le> NETSTACK_MAX_PAYLOAD" "nat len \<le> length buf"
    and room: "int (length (s_stream sb)) < RXBUF_SIZE"
  obtains w' where
    "netstack_send env a buf len w = Some (min len (RXBUF_SIZE - int (length (s_stream sb))), w')"
    "online env w'"
    "sockets w' = (sockets w)(b \<mapsto> sb\<lparr>s_stream := s_stream sb @
       take (nat (min len (RXBUF_SIZE - int (length (s_stream sb))))) buf\<rparr>)"
proof -
  let ?req = "req_zero\<lparr>op := NETSTACK_OP_SEND, u_send := \<lparr>send_sock = a, send_len_in = len,
      send_len_out = 0, send_data = blit zero_payload 0 (take (nat len) buf)\<rparr>\<rparr>"
  let ?n = "min len (RXBUF_SIZE - int (length (s_stream sb)))"
  obtain w' where w': "netstack_ipc_call env ?req w =
       Some (0, snd (spec_dispatch (abs_engine (eng w)) (?req\<lparr>mn_ReplyPort := reply_target env w\<rparr>)), w')"
    "online env w'" "abs_engine (eng w') =
       fst (spec_dispatch (abs_engine (eng w)) (?req\<lparr>mn_ReplyPort := reply_target env w\<rparr>))"
    using ipc_online [OF on, of ?req] by auto
  have data: "take (nat ?n) (blit zero_payload 0 (take (nat len) buf)) = take (nat ?n) buf"
    using len by (simp add: blit_def min_def)
  have spec: "spec_send (sockets w) (?req\<lparr>mn_ReplyPort := reply_target env w\<rparr>) =
      ((sockets w)(b \<mapsto> sb\<lparr>s_stream := s_stream sb @ take (nat ?n) buf\<rparr>),
       ?req\<lparr>mn_ReplyPort := reply_target env w, err := NETSTACK_OK,
            u_send := (u_send ?req)\<lparr>send_len_out := ?n\<rparr>\<rparr>)"
    using s len room data by (simp add: spec_send_def Let_def)
  show thesis
    using w' len spec by (intro that [of w'])
      (simp_all add: netstack_send_def spec_dispatch_ops abs_engine_def sockets_def)
qed

lemma client_recv:
  assumes on: "online env w" and s: "sockets w b = Some sb" "s_kind sb = Connected" "s_stream sb \<noteq> []"
    and mx: "0 \<le> mx"
  obtains w' where
    "netstack_recv env b (Some rbuf) mx w =
       (let n = min (int (length (s_stream sb))) (min NETSTACK_MAX_PAYLOAD mx) in
        Some (n, Some (if n > 0 then blit rbuf 0 (take (nat n) (s_stream sb)) else rbuf), w'))"
    "online env w'"
    "sockets w' = (sockets w)(b \<mapsto> sb\<lparr>s_stream :=
       drop (nat (min (int (length (s_stream sb))) (min NETSTACK_MAX_PAYLOAD mx))) (s_stream sb)\<rparr>)"
proof -
  let ?req = "req_zero\<lparr>op := NETSTACK_OP_RECV, u_recv := \<lparr>recv_sock = b, recv_len_in = min NETSTACK_MAX_PAYLOAD mx,
      recv_len_out = 0, recv_data = zero_payload\<rparr>\<rparr>"
  let ?n = "min (int (length (s_stream sb))) (min NETSTACK_MAX_PAYLOAD mx)"
  obtain w' where w': "netstack_ipc_call env ?req w =
       Some (0, snd (spec_dispatch (abs_engine (eng w)) (?req\<lparr>mn_ReplyPort := reply_target env w\<rparr>)), w')"
    "online env w'" "abs_engine (eng w') =
       fst (spec_dispatch (abs_engine (eng w)) (?req\<lparr>mn_ReplyPort := reply_target env w\<rparr>))"
    using ipc_online [OF on, of ?req] by auto
  have data: "take (nat ?n) (blit zero_payload 0 (take (nat ?n) (s_stream sb))) = take (nat ?n) (s_stream sb)"
    by (intro take_blit_prefix) auto
  have spec: "spec_recv (sockets w) (?req\<lparr>mn_ReplyPort := reply_target env w\<rparr>) =
      ((sockets w)(b \<mapsto> sb\<lparr>s_stream := drop (nat ?n) (s_stream sb)\<rparr>),
       ?req\<lparr>mn_ReplyPort := reply_target env w, err := NETSTACK_OK,
            u_recv := (u_recv ?req)\<lparr>recv_data := blit zero_payload 0 (take (nat ?n) (s_stream sb)),
                                      recv_len_out := ?n\<rparr>\<rparr>)"
    using s mx by (simp add: spec_recv_def Let_def)
  have clamp: "(if mx > NETSTACK_MAX_PAYLOAD then NETSTACK_MAX_PAYLOAD else mx) = min NETSTACK_MAX_PAYLOAD mx"
    by simp
  have call: "netstack_recv env b (Some rbuf) mx w =
       Some (?n, Some (if ?n > 0 then blit rbuf 0 (take (nat ?n) (s_stream sb)) else rbuf), w')"
    using w'(1) mx spec unfolding netstack_recv_def clamp Let_def
    by (simp add: spec_dispatch_ops abs_engine_def sockets_def data)
  show thesis
    using w' spec call by (intro that [of w'])
      (simp_all add: Let_def spec_dispatch_ops abs_engine_def sockets_def)
qed

end
