(* ===== verification/Scenario.thy ===== *)
theory Scenario
  imports ByteStream Lifecycle Client
begin

text \<open>
  Concrete runs of the engine, evaluated on the abstract socket layer and carried to the
  descriptor table by the refinement: the requests as clients build them, and the
  handshake that the echo test performs.
\<close>

section \<open>Requests as clients build them\<close>

definition rq_socket :: NetstackReq where
  "rq_socket = req_zero\<lparr>op := NETSTACK_OP_SOCKET,
     u_socket := \<lparr>socket_domain = 2, socket_type = 1, socket_proto = 0, socket_sock = 0\<rparr>\<rparr>"

definition rq_close :: "int32 \<Rightarrow> NetstackReq" where
  "rq_close fd = req_zero\<lparr>op := NETSTACK_OP_CLOSE, u_close := \<lparr>close_sock = fd\<rparr>\<rparr>"

definition rq_bind :: "int32 \<Rightarrow> uint16 \<Rightarrow> NetstackReq" where
  "rq_bind fd p = req_zero\<lparr>op := NETSTACK_OP_BIND, u_bind := \<lparr>bind_sock = fd, bind_port = p\<rparr>\<rparr>"

definition rq_listen :: "int32 \<Rightarrow> NetstackReq" where
  "rq_listen fd = req_zero\<lparr>op := NETSTACK_OP_LISTEN, u_listen := \<lparr>listen_sock = fd, listen_backlog = 4\<rparr>\<rparr>"

definition rq_connect :: "int32 \<Rightarrow> uint16 \<Rightarrow> NetstackReq" where
  "rq_connect fd p = req_zero\<lparr>op := NETSTACK_OP_CONNECT, u_connect := \<lparr>connect_sock = fd, connect_port = p\<rparr>\<rparr>"

definition rq_accept :: "int32 \<Rightarrow> NetstackReq" where
  "rq_accept fd = req_zero\<lparr>op := NETSTACK_OP_ACCEPT,
     u_accept := \<lparr>accept_sock = fd, accept_new_sock = 0, accept_peer_port = 0\<rparr>\<rparr>"

definition rq_send :: "int32 \<Rightarrow> uint8 list \<Rightarrow> NetstackReq" where
  "rq_send fd bs = req_zero\<lparr>op := NETSTACK_OP_SEND,
     u_send := \<lparr>send_sock = fd, send_len_in = int (length bs), send_len_out = 0,
                send_data = blit zero_payload 0 bs\<rparr>\<rparr>"

definition rq_recv :: "int32 \<Rightarrow> int32 \<Rightarrow> NetstackReq" where
  "rq_recv fd n = req_zero\<lparr>op := NETSTACK_OP_RECV,
     u_recv := \<lparr>recv_sock = fd, recv_len_in = n, recv_len_out = 0, recv_data = zero_payload\<rparr>\<rparr>"

lemmas rq_defs = rq_socket_def rq_close_def rq_bind_def rq_listen_def rq_connect_def rq_accept_def
  rq_send_def rq_recv_def

definition handshake :: "NetstackReq list" where
  "handshake = [rq_socket, rq_bind 3 1234, rq_listen 3, rq_socket, rq_connect 4 1234, rq_accept 3]"

definition echo_sock :: sock where
  "echo_sock = \<lparr>s_kind = Connected, s_domain = 2, s_type = 1, s_proto = 0, s_port = 0, s_queue = [],
     s_peer = None, s_stream = []\<rparr>"

definition echo_socks :: socks where
  "echo_socks = [3 \<mapsto> echo_sock\<lparr>s_kind := Listening, s_port := 1234\<rparr>,
                 5 \<mapsto> echo_sock\<lparr>s_port := 1234, s_peer := Some 4\<rparr>,
                 4 \<mapsto> echo_sock\<lparr>s_peer := Some 5\<rparr>]"

text \<open>The engine as a successful start leaves it, and after the handshake.\<close>

definition boot_env :: start_env where
  "boot_env = \<lparr>self_task = 0x100, ready_bit = 16, stopped_bit = 17, new_task = 0x200, new_port = 0x300\<rparr>"

definition started_engine :: engine where
  "started_engine = fst (snd (NetstackEngine_Start None boot_env engine_init))"

definition echo_engine :: engine where
  "echo_engine = fst (drain_port started_engine handshake)"

definition task_env :: ipc_env where
  "task_env = \<lparr>env_me = 0x100, env_find_port = 0x300, env_alloc_port = 0x400\<rparr>"

definition echo_world :: world where
  "echo_world = \<lparr>cl = client_zero, eng = echo_engine\<rparr>"

section \<open>Evaluating the abstract layer\<close>

lemma find_all_fds_eval:
  "find P all_fds = (if P 3 then Some 3 else if P 4 then Some 4 else if P 5 then Some 5
     else if P 6 then Some 6 else find P [7..127])"
proof -
  have eq: "all_fds = 3 # 4 # 5 # 6 # [7..127]"
    unfolding all_fds_def by (simp add: upto_rec1 del: upto_rec_numeral)
  show ?thesis by (subst eq) (simp del: upto_rec_numeral)
qed

lemma free_fd_eval:
  "free_fd m = (if m 3 = None then Some 3 else if m 4 = None then Some 4 else if m 5 = None then Some 5
     else if m 6 = None then Some 6 else find (\<lambda>i. m i = None) [7..127])"
  by (simp add: free_fd_def find_all_fds_eval del: upto_rec_numeral)

lemma list_ex_all_fds: "list_ex P all_fds \<longleftrightarrow> (\<exists>i. fd_in_range i \<and> P i)"
  by (auto simp: list_ex_iff set_all_fds)

lemmas spec_eval = spec_dispatch_def spec_handler_def spec_socket_def spec_bind_def spec_listen_def
  spec_connect_def spec_accept_def spec_close_def attach_def disconnect_def free_fd_eval
  find_all_fds_eval listener_on_def holds_port_def list_ex_all_fds rq_defs req_zero_def

lemma handshake_run: "fst (spec_run (Map.empty, False) handshake) = (echo_socks, False)"
  by (simp add: handshake_def spec_eval echo_socks_def echo_sock_def del: upto_rec_numeral)

lemma abs_engine_init: "abs_engine engine_init = (Map.empty, False)"
  by (simp add: abs_engine_def engine_init_def abs_table_init)

lemma wf_engine_init: "fdtable_wf (g_fdtable engine_init)"
  by (simp add: engine_init_def)

lemma start_boot: "NetstackEngine_Start None boot_env engine_init =
    (0, started_engine, [CreateTask 5, Signal 0x100 (bit_mask 16)])"
  by (simp add: started_engine_def NetstackEngine_Start_def boot_env_def engine_init_def
      engine_open_def start_priority_def Let_def)

lemma started_engine_eq:
  "started_engine = engine_init\<lparr>g_engine_task := 0x200, g_launcher_task := 0x100,
     g_launcher_ready_mask := bit_mask 16, g_launcher_stopped_mask := bit_mask 17,
     g_engine_ready := True, g_engine_shutdown := False, g_request_port := 0x300\<rparr>"
  by (simp add: started_engine_def NetstackEngine_Start_def boot_env_def engine_init_def
      engine_open_def start_priority_def Let_def)

lemma started_fdtable: "fdtable_wf (g_fdtable started_engine)" "abs_engine started_engine = (Map.empty, False)"
  by (simp_all add: started_engine_eq engine_init_def abs_engine_def abs_table_init)

lemma env_ok_boot: "env_ok boot_env"
  by (simp add: env_ok_def boot_env_def)

lemma sys_run_started: "sys_run {#16, 17#} {#} started_engine"
proof -
  have "start_allocs boot_env engine_init = {#16, 17#}"
    by (simp add: start_allocs_def boot_env_def engine_init_def)
  with sys_run.next_step [OF sys_run.boot sys_step.start [OF env_ok_boot start_boot]]
  show ?thesis by simp
qed

lemma abs_echo_engine: "abs_engine echo_engine = (echo_socks, False)"
  using drain_refines(2) [OF started_fdtable(1), of handshake]
  by (simp add: echo_engine_def started_fdtable handshake_run)

lemma echo_engine_wf: "fdtable_wf (g_fdtable echo_engine)"
  unfolding echo_engine_def by (rule drain_keeps_wf [OF started_fdtable(1)])

lemma sys_run_echo: "sys_run {#16, 17#} {#} echo_engine"
proof -
  obtain calls where d: "drain_port started_engine handshake = (echo_engine, calls)"
    by (cases "drain_port started_engine handshake") (simp add: echo_engine_def)
  have "freed calls = {#}" using freed_replies [OF started_fdtable(1), of handshake] d by simp
  with sys_run.next_step [OF sys_run_started sys_step.serve [OF _ _ d]] show ?thesis
    by (simp add: started_engine_eq)
qed

lemma handshake_orderly: "orderly (Map.empty, False) handshake"
  by (simp add: handshake_def closes_queued_def spec_eval del: upto_rec_numeral)

lemma echo_table: "abs_table (g_fdtable echo_engine) = echo_socks"
  using abs_echo_engine by (simp add: abs_engine_def)

lemma echo_paired: "socks_paired echo_socks"
  using orderly_paired [of "(Map.empty, False)" handshake] handshake_orderly
  by (simp add: handshake_run socks_paired_init)

lemma echo_connected: "connected_engine 4 5 echo_engine"
  using paired_linked [OF echo_paired, of 4 5]
  by (simp add: connected_engine_def echo_engine_wf echo_table) (simp add: peer_of_def echo_socks_def)

lemma echo_in_loop: "in_loop 0x300 echo_engine"
  using abs_echo_engine
  by (simp add: in_loop_def echo_engine_def drain_engine_frame abs_engine_def started_engine_eq)

lemma reply_slot_first: "reply_slot_for p me (g_reply_slots client_zero) =
    (if me = NULL then (NULL, g_reply_slots client_zero)
     else if p = NULL then (NULL, g_reply_slots client_zero)
     else (p, (g_reply_slots client_zero)[0 := \<lparr>rs_owner = me, rs_port = p\<rparr>]))"
proof -
  have owner: "rs_owner (aget (g_reply_slots client_zero) i) = NULL \<and> rs_port (aget (g_reply_slots client_zero) i) = NULL"
    if "0 \<le> i" "i < 16" for i
    using that by (auto simp: client_zero_def reply_slot_zero_def aget_def nth_replicate)
  have "c_search (\<lambda>i. rs_owner (aget (g_reply_slots client_zero) i) = me) 0 16 = -1" if "me \<noteq> NULL"
    by (cases rule: c_search_cases [of "\<lambda>i. rs_owner (aget (g_reply_slots client_zero) i) = me" 0 16])
      (use owner that in auto)
  moreover have "c_search (\<lambda>i. rs_owner (aget (g_reply_slots client_zero) i) = NULL) 0 16 = 0"
    by (rule c_search_hit) (use owner in auto)
  ultimately show ?thesis using owner by (auto simp: reply_slot_for_def aset_def)
qed

lemma echo_online: "online task_env echo_world"
  using echo_in_loop echo_engine_wf
  by (simp add: online_def engine_target_def reply_target_def echo_world_def task_env_def
      reply_slot_first owners_wf_def)
    (simp add: client_zero_def reply_slot_zero_def)

end
