(* ===== verification/SocketProps.thy ===== *)
theory SocketProps
  imports Scenario
begin

text \<open>
  What each socket operation of \<open>fdtable.c\<close> does to the descriptor table, on success and on
  failure, and what modelling showed about closing queued clients and binding twice.
\<close>

section \<open>Socket and accept\<close>

text \<open>
  Socket hands out the lowest free descriptor, initialised from the request and nothing else
  left over from its last use; when no descriptor is free it fails and changes nothing.
\<close>

theorem socket_lowest_free:
  assumes "fdtable_wf t" "fdtable_dispatch_socket t r = (t', r')"
  shows "(\<exists>fd. fd_in_range fd \<and> kind (aget t fd) = FD_FREE \<and>
            (\<forall>i. FD_FIRST \<le> i \<longrightarrow> i < fd \<longrightarrow> kind (aget t i) \<noteq> FD_FREE) \<and>
            err r' = NETSTACK_OK \<and> socket_sock (u_socket r') = fd \<and>
            t' = aset t fd (fd_entry_zero\<lparr>peer_fd := -1, kind := FD_SOCKET_UNBOUND, domain := socket_domain (u_socket r),
                   type := socket_type (u_socket r), proto := socket_proto (u_socket r)\<rparr>)) \<or>
         (\<forall>i. fd_in_range i \<longrightarrow> kind (aget t i) \<noteq> FD_FREE) \<and>
            err r' = EMFILE \<and> socket_sock (u_socket r') = -1 \<and> t' = t"
proof (cases rule: alloc_fd_cases [of t])
  case full
  with assms(2) have "err r' = EMFILE \<and> socket_sock (u_socket r') = -1 \<and> t' = t"
    by (auto simp: fdtable_dispatch_socket_def)
  with full(2) show ?thesis by blast
next
  case (slot fd)
  with assms have "err r' = NETSTACK_OK \<and> socket_sock (u_socket r') = fd \<and>
      t' = aset t fd (fd_entry_zero\<lparr>peer_fd := -1, kind := FD_SOCKET_UNBOUND, domain := socket_domain (u_socket r),
             type := socket_type (u_socket r), proto := socket_proto (u_socket r)\<rparr>)"
    by (auto simp: fdtable_dispatch_socket_def)
  with slot(2-) show ?thesis by blast
qed

theorem socket_lowest_free_witness:
  "\<exists>fd. fd_in_range fd \<and> socket_sock (u_socket (snd (fdtable_dispatch_socket g_fdtable_init rq_socket))) = fd"
proof -
  let ?d = "fdtable_dispatch_socket g_fdtable_init rq_socket"
  have "kind (aget g_fdtable_init 3) = FD_FREE" by (simp add: g_fdtable_init_def aget_def)
  moreover have "fd_in_range 3" by (simp add: fd_in_range_def)
  ultimately show ?thesis
    using socket_lowest_free [OF fdtable_wf_init, of rq_socket "fst ?d" "snd ?d"] by auto
qed

text \<open>
  An accept that finds no free descriptor puts the client back exactly where it was: the whole
  table is as before, so that the caller can retry.
\<close>

theorem accept_full_table_unchanged:
  assumes "fdtable_wf t" "\<And>i. fd_in_range i \<Longrightarrow> kind (aget t i) \<noteq> FD_FREE"
    and "fd_valid t (accept_sock (u_accept r))" "kind (aget t (accept_sock (u_accept r))) = FD_SOCKET_LISTEN"
    and "pending (aget t (accept_sock (u_accept r))) \<noteq> []"
  shows "fdtable_dispatch_accept t r =
    (t, r\<lparr>err := EMFILE, u_accept := (u_accept r)\<lparr>accept_new_sock := -1\<rparr>\<rparr>)"
proof -
  let ?fd = "accept_sock (u_accept r)"
  have fd: "fd_in_range ?fd" using assms(3) by (simp add: fd_valid_iff)
  note wf_l = fdtable_wf_aget [OF assms(1) fd]
  have ne: "backlog_count (aget t ?fd) \<noteq> 0" using length_pending [OF wf_l] assms(5) by auto
  obtain c lst where pop: "backlog_pop (aget t ?fd) = (c, lst)" by fastforce
  note p = listener_popped [OF assms(1,3,4) ne pop]
  have "free_fd (abs_table t) = None"
    using assms(2) by (auto simp: free_fd_def find_None_iff set_all_fds abs_table_def abs_entry_def)
  then have "alloc_fd (aset t ?fd lst) = (-1, aset t ?fd lst)" by (simp add: alloc_fd_spec p(7))
  then show ?thesis
    using assms(1,3,4) ne fd pop backlog_unpop_pop [OF entry_wfD(1) [OF wf_l] pop]
    by (simp add: fdtable_dispatch_accept_def Let_def)
qed

definition full_table :: fdtable where
  "full_table = aset (replicate 128 (fd_entry_zero\<lparr>kind := FD_SOCKET_UNBOUND\<rparr>)) 3
     (backlog_push 4 (fd_entry_zero\<lparr>kind := FD_SOCKET_LISTEN\<rparr>))"

lemma full_table_get:
  "fd_in_range i \<Longrightarrow> aget full_table i =
     (if i = 3 then backlog_push 4 (fd_entry_zero\<lparr>kind := FD_SOCKET_LISTEN\<rparr>)
      else fd_entry_zero\<lparr>kind := FD_SOCKET_UNBOUND\<rparr>)"
  by (auto simp: full_table_def aget_def aset_def fd_in_range_def nth_list_update nth_replicate)

theorem accept_full_table_unchanged_witness:
  "fdtable_dispatch_accept full_table (rq_accept 3) =
     (full_table, (rq_accept 3)\<lparr>err := EMFILE, u_accept := (u_accept (rq_accept 3))\<lparr>accept_new_sock := -1\<rparr>\<rparr>)"
proof (rule accept_full_table_unchanged)
  have l: "entry_wf (backlog_push 4 (fd_entry_zero\<lparr>kind := FD_SOCKET_LISTEN\<rparr>))"
    by (rule entry_wf_backlog_push) (simp_all add: entry_wf_def fd_in_range_def)
  then show "fdtable_wf full_table"
    unfolding full_table_def
    by (intro fdtable_wf_aset) (simp_all add: fdtable_wf_def list_all_iff entry_wf_def)
  have three: "fd_in_range 3" by (simp add: fd_in_range_def)
  show "kind (aget full_table i) \<noteq> FD_FREE" if "fd_in_range i" for i
    using that by (simp add: full_table_get)
  show "fd_valid full_table (accept_sock (u_accept (rq_accept 3)))"
    "kind (aget full_table (accept_sock (u_accept (rq_accept 3)))) = FD_SOCKET_LISTEN"
    "pending (aget full_table (accept_sock (u_accept (rq_accept 3)))) \<noteq> []"
    using three by (simp_all add: rq_accept_def fd_valid_iff full_table_get pending_push)
qed

text \<open>
  C24: a successful accept takes the client that has waited longest, gives it a fresh connected
  socket with the listener's parameters, pairs the two both ways and touches no other entry.
\<close>

theorem accept_pairs_oldest:
  assumes "fdtable_wf t" "fdtable_dispatch_accept t r = (t', r')" "err r' = NETSTACK_OK"
    and "fd = accept_sock (u_accept r)" "n = accept_new_sock (u_accept r')"
  shows "\<exists>c q. pending (aget t fd) = c # q \<and> pending (aget t' fd) = q \<and>
    fd_in_range n \<and> kind (aget t n) = FD_FREE \<and> kind (aget t' n) = FD_SOCKET_CONNECTED \<and>
    local_port (aget t' n) = local_port (aget t fd) \<and>
    peer_fd (aget t' n) = c \<and> peer_fd (aget t' c) = n \<and>
    (\<forall>i. 0 \<le> i \<longrightarrow> i \<notin> {fd, n, c} \<longrightarrow> aget t' i = aget t i)"
proof -
  have l: "fd_valid t fd" "kind (aget t fd) = FD_SOCKET_LISTEN" "backlog_count (aget t fd) \<noteq> 0"
    using assms(2-4) by (auto simp: fdtable_dispatch_accept_def Let_def split: if_splits)
  obtain c lst where pop: "backlog_pop (aget t fd) = (c, lst)" by fastforce
  note p = listener_popped [OF assms(1) l pop]
  have fd: "fd_in_range fd" using l by (simp add: fd_valid_iff)
  obtain n' where n': "free_fd (abs_table t) = Some n'"
  proof (cases "free_fd (abs_table t)")
    case None
    then have "alloc_fd (aset t fd lst) = (-1, aset t fd lst)" by (simp add: alloc_fd_spec p(7))
    with assms(2-4) l pop have False by (auto simp: fdtable_dispatch_accept_def Let_def)
    then show ?thesis ..
  qed
  note ok = accept_success [OF assms(1) l [unfolded assms(4)] pop [unfolded assms(4)] n', folded assms(4)]
  have n: "n = n'" and t': "t' = accepted_table t fd lst n' c" using assms(2,5) ok by auto
  have free: "fd_in_range n'" "kind (aget t n') = FD_FREE"
    using free_fd_Some [OF n'] by (auto simp: abs_table_def abs_entry_def split: if_splits)
  then have ne: "n' \<noteq> fd" using l by auto
  have frame: "pending (e\<lparr>peer_fd := x\<rparr>) = pending e" for e x by simp
  have "pending (aget t' fd) = pending lst" "kind (aget t' n) = FD_SOCKET_CONNECTED"
    "local_port (aget t' n) = local_port (aget t fd)" "peer_fd (aget t' n) = c" "peer_fd (aget t' c) = n"
    using assms(1) fd free ne p(2,5) frame
    by (auto simp: t' n accepted_table_def Let_def aget_aset accepted_entry_def)
  moreover have "aget t' i = aget t i" if "0 \<le> i" "i \<notin> {fd, n, c}" for i
    using assms(1) fd free p(2) that by (auto simp: t' n accepted_table_def Let_def aget_aset)
  ultimately show ?thesis using p(3) free n by blast
qed

text \<open>The table after the requests \<open>rs\<close>, and its sockets.\<close>

definition table_after :: "NetstackReq list \<Rightarrow> fdtable" where
  "table_after rs = g_fdtable (fst (drain_port engine_init rs))"

lemma table_after_wf: "fdtable_wf (table_after rs)"
  unfolding table_after_def by (rule drain_keeps_wf [OF wf_engine_init])

lemma abs_table_after: "abs_table (table_after rs) = fst (fst (spec_run (Map.empty, False) rs))"
  using drain_refines(2) [OF wf_engine_init, of rs]
  by (simp add: table_after_def abs_engine_init) (metis abs_engine_def fst_conv)

definition waiting_socks :: socks where
  "waiting_socks = [3 \<mapsto> echo_sock\<lparr>s_kind := Listening, s_port := 1234, s_queue := [4]\<rparr>, 4 \<mapsto> echo_sock]"

lemma waiting_run: "abs_table (table_after (take 5 handshake)) = waiting_socks"
  by (simp add: abs_table_after)
    (simp add: handshake_def spec_eval waiting_socks_def echo_sock_def fun_upd_twist del: upto_rec_numeral)

theorem accept_pairs_oldest_witness:
  "\<exists>c q. pending (aget (table_after (take 5 handshake)) 3) = c # q \<and>
     peer_fd (aget (fst (fdtable_dispatch_accept (table_after (take 5 handshake)) (rq_accept 3))) c) = 5"
proof -
  let ?t = "table_after (take 5 handshake)" and ?r = "rq_accept 3"
  have "snd (fdtable_dispatch_accept ?t ?r) = snd (spec_accept waiting_socks ?r)"
    using accept_refines [OF table_after_wf, of "take 5 handshake" ?r] by (simp add: waiting_run)
  also have "\<dots> = ?r\<lparr>err := NETSTACK_OK, u_accept := (u_accept ?r)\<lparr>accept_new_sock := 5, accept_peer_port := 1234\<rparr>\<rparr>"
    by (simp add: spec_accept_def rq_accept_def waiting_socks_def echo_sock_def free_fd_eval del: upto_rec_numeral)
  finally have "err (snd (fdtable_dispatch_accept ?t ?r)) = NETSTACK_OK"
    "accept_new_sock (u_accept (snd (fdtable_dispatch_accept ?t ?r))) = 5" by simp_all
  moreover have "accept_sock (u_accept ?r) = 3" by (simp add: rq_accept_def)
  ultimately show ?thesis
    using accept_pairs_oldest [OF table_after_wf surjective_pairing, of "take 5 handshake" ?r 3 5] by metis
qed

section \<open>Connect and the backlog\<close>

text \<open>
  C25: a successful connect joins the end of the queue of the lowest-numbered listener on the port,
  which had room, marks the caller connected without a peer, and touches no other entry.
\<close>

theorem connect_joins_queue:
  assumes "fdtable_wf t" "fdtable_dispatch_connect t r = (t', r')" "err r' = NETSTACK_OK"
    and "fd = connect_sock (u_connect r)" "l = find_listener t (connect_port (u_connect r))"
  shows "kind (aget t fd) = FD_SOCKET_UNBOUND \<and> kind (aget t l) = FD_SOCKET_LISTEN \<and>
    local_port (aget t l) = connect_port (u_connect r) \<and>
    (\<forall>i. FD_FIRST \<le> i \<longrightarrow> i < l \<longrightarrow>
       \<not> (kind (aget t i) = FD_SOCKET_LISTEN \<and> local_port (aget t i) = connect_port (u_connect r))) \<and>
    int (length (pending (aget t l))) < BACKLOG_MAX \<and>
    pending (aget t' l) = pending (aget t l) @ [fd] \<and>
    kind (aget t' fd) = FD_SOCKET_CONNECTED \<and> peer_fd (aget t' fd) = -1 \<and>
    (\<forall>i. 0 \<le> i \<longrightarrow> i \<notin> {fd, l} \<longrightarrow> aget t' i = aget t i)"
proof (cases rule: find_listener_cases [of t "connect_port (u_connect r)"])
  case none
  with assms(2,3) show ?thesis by (auto simp: fdtable_dispatch_connect_def Let_def split: if_splits)
next
  case (listener lfd)
  note wf_l = fdtable_wf_aget [OF assms(1) listener(2)]
  have ok: "fd_in_range fd" "kind (aget t fd) = FD_SOCKET_UNBOUND" "backlog_count (aget t lfd) < BACKLOG_MAX"
    using assms(2-4) listener(1) by (auto simp: fdtable_dispatch_connect_def Let_def fd_valid_iff split: if_splits)
  have ne: "fd \<noteq> lfd" using ok listener(3) by auto
  have t': "t' = aset (aset t fd ((aget t fd)\<lparr>kind := FD_SOCKET_CONNECTED, peer_fd := -1,
        peer_port := connect_port (u_connect r)\<rparr>)) lfd (backlog_push fd (aget t lfd))"
    using assms listener(1,2) ok ne
    by (auto simp: fdtable_dispatch_connect_def Let_def aget_aset split: if_splits)
  have "int (length (pending (aget t lfd))) < BACKLOG_MAX" using length_pending [OF wf_l] ok(3) by simp
  moreover have "pending (aget t' lfd) = pending (aget t lfd) @ [fd]"
    using assms(1) listener(2) ok(1) ne pending_push [OF entry_wfD(1) [OF wf_l] ok(3)]
    by (simp add: t' aget_aset)
  moreover have "kind (aget t' fd) = FD_SOCKET_CONNECTED \<and> peer_fd (aget t' fd) = -1"
    "\<forall>i. 0 \<le> i \<longrightarrow> i \<notin> {fd, lfd} \<longrightarrow> aget t' i = aget t i"
    using assms(1) listener(2) ok(1) ne by (simp_all add: t' aget_aset)
  moreover have "l = lfd" using listener(1) assms(5) by simp
  ultimately show ?thesis using listener(3-) ok(2) by blast
qed

theorem connect_joins_queue_witness:
  "pending (aget (fst (fdtable_dispatch_connect (table_after (take 4 handshake)) (rq_connect 4 1234)))
     (find_listener (table_after (take 4 handshake)) 1234)) =
   pending (aget (table_after (take 4 handshake)) (find_listener (table_after (take 4 handshake)) 1234)) @ [4]"
proof -
  let ?t = "table_after (take 4 handshake)" and ?r = "rq_connect 4 1234"
  have "abs_table ?t = fst (fst (spec_run (Map.empty, False) (take 4 handshake)))" by (rule abs_table_after)
  then have "snd (spec_connect (abs_table ?t) ?r) = ?r\<lparr>err := NETSTACK_OK\<rparr>"
    by (simp add: handshake_def spec_eval del: upto_rec_numeral)
  then have "err (snd (fdtable_dispatch_connect ?t ?r)) = NETSTACK_OK"
    using connect_refines [OF table_after_wf, of "take 4 handshake" ?r] by simp
  from connect_joins_queue [OF table_after_wf surjective_pairing this refl refl] show ?thesis
    by (simp add: rq_connect_def)
qed

text \<open>
  The backlog of a listener is a first-in first-out queue of four places: for any sequence of
  offers and takes on an empty backlog, what comes out is what went in, in that order, and
  what is left is the rest.
\<close>

theorem backlog_in_order:
  assumes "backlog_wf e" "pending e = []" "fifo_run backlog_offer backlog_take ops e = (ins, outs, e')"
  shows "outs = take (length outs) ins \<and> pending e' = drop (length outs) ins \<and>
    int (length ins) \<le> int (length outs) + BACKLOG_MAX \<and> backlog_wf e'"
proof -
  have "length (backlog e) = 4" using assms(1) by (simp add: backlog_wf_def)
  with bl.fifo.run_fifo [OF assms(1,3)] bl.fifo.delivered_in_order [OF assms(1) _ assms(3)] assms(2)
  show ?thesis by (auto simp: pending_def)
qed

theorem backlog_in_order_witness:
  "\<exists>e'. fifo_run backlog_offer backlog_take [Push 7, Push 9, Pop] (fd_entry_zero\<lparr>kind := FD_SOCKET_LISTEN\<rparr>) =
     ([7, 9], [7], e') \<and> pending e' = [9]"
proof -
  let ?e = "fd_entry_zero\<lparr>kind := FD_SOCKET_LISTEN\<rparr>"
  obtain e' where run: "fifo_run backlog_offer backlog_take [Push 7, Push 9, Pop] ?e = ([7, 9], [7], e')"
    by (simp add: backlog_offer_def backlog_take_def backlog_push_def backlog_pop_def fd_entry_zero_def
        aget_def aset_def nat_numeral)
  from backlog_in_order [OF _ _ run] show ?thesis using run by auto
qed

lemma echo_ends:
  "fd_valid (g_fdtable echo_engine) 4" "kind (aget (g_fdtable echo_engine) 4) = FD_SOCKET_CONNECTED"
  "peer_fd (aget (g_fdtable echo_engine) 4) = 5" "fd_valid (g_fdtable echo_engine) 5"
  "kind (aget (g_fdtable echo_engine) 5) = FD_SOCKET_CONNECTED" "peer_fd (aget (g_fdtable echo_engine) 5) = 4"
  "rx_bytes (aget (g_fdtable echo_engine) 5) = []"
proof -
  have "peer_of (abs_table (g_fdtable echo_engine)) 4 = Some 5" "peer_of (abs_table (g_fdtable echo_engine)) 5 = Some 4"
    by (simp_all add: echo_table) (simp_all add: peer_of_def echo_socks_def)
  from peer_of_absD [OF this(1)] peer_of_absD [OF this(2)]
  show ends: "fd_valid (g_fdtable echo_engine) 4" "kind (aget (g_fdtable echo_engine) 4) = FD_SOCKET_CONNECTED"
    "peer_fd (aget (g_fdtable echo_engine) 4) = 5" "fd_valid (g_fdtable echo_engine) 5"
    "kind (aget (g_fdtable echo_engine) 5) = FD_SOCKET_CONNECTED" "peer_fd (aget (g_fdtable echo_engine) 5) = 4"
    by simp_all
  have "stream_of echo_socks 5 = []" by (simp add: stream_of_def echo_socks_def echo_sock_def)
  then show "rx_bytes (aget (g_fdtable echo_engine) 5) = []"
    using abs_table_some [OF ends(4)] by (simp add: echo_table stream_of_def)
qed

section \<open>Close, bind, send\<close>

text \<open>
  C26: closing one end of a connection frees its descriptor, leaves the other end's unread bytes
  alone, makes the other end's sends fail with ENOTCONN, and lets it read end of file once its
  bytes are used up.
\<close>

theorem close_ends_connection:
  assumes "fdtable_wf t" "fd_valid t a" "kind (aget t a) = FD_SOCKET_CONNECTED" "peer_fd (aget t a) = b"
    and "fd_valid t b" "kind (aget t b) = FD_SOCKET_CONNECTED" "a \<noteq> b"
    and "close_sock (u_close r) = a" "t' = fst (fdtable_dispatch_close t r)"
  shows "\<not> fd_valid t' a \<and> rx_bytes (aget t' b) = rx_bytes (aget t b) \<and>
    (send_sock (u_send q) = b \<longrightarrow> fdtable_dispatch_send t' q = (t', q\<lparr>err := NETSTACK_ENOTCONN\<rparr>)) \<and>
    (recv_sock (u_recv q) = b \<longrightarrow> rx_bytes (aget t' b) = [] \<longrightarrow>
       fdtable_dispatch_recv t' q = (t', q\<lparr>u_recv := (u_recv q)\<lparr>recv_len_out := 0\<rparr>, err := NETSTACK_OK\<rparr>))"
proof -
  have rng: "fd_in_range a" "fd_in_range b" using assms(2,5) by (simp_all add: fd_valid_iff)
  have t': "t' = aset (aset t b ((aget t b)\<lparr>peer_fd := -1\<rparr>)) a (fd_entry_zero\<lparr>peer_fd := -1\<rparr>)"
    using assms rng by (simp add: fdtable_dispatch_close_def notify_peer_def Let_def)
  have get: "aget t' a = fd_entry_zero\<lparr>peer_fd := -1\<rparr>" "aget t' b = (aget t b)\<lparr>peer_fd := -1\<rparr>"
    using assms(1,7) rng by (simp_all add: t' aget_aset)
  have "rx_tail (aget t' b) \<le> rx_head (aget t' b)" if "rx_bytes (aget t' b) = []"
    using that length_rx_bytes [OF entry_wfD(2) [OF fdtable_wf_aget [OF assms(1) rng(2)]]]
    by (simp add: get(2))
  with get rng assms(6) show ?thesis
    by (auto simp: fd_valid_iff fdtable_dispatch_send_def fdtable_dispatch_recv_def Let_def)
qed

theorem close_ends_connection_witness:
  "fdtable_dispatch_send (fst (fdtable_dispatch_close (g_fdtable echo_engine) (rq_close 5))) (rq_send 4 [1]) =
     (fst (fdtable_dispatch_close (g_fdtable echo_engine) (rq_close 5)), (rq_send 4 [1])\<lparr>err := NETSTACK_ENOTCONN\<rparr>)"
proof -
  from close_ends_connection [OF echo_engine_wf echo_ends(4-6,1,2) _ _ refl, of "rq_close 5" "rq_send 4 [1]"] show ?thesis
    by (simp add: rq_close_def rq_send_def)
qed

text \<open>
  A bind succeeds exactly on an open, unbound socket when no listening or connected socket
  has the port; it then changes the socket's local port and nothing else, and a bind that
  fails changes nothing.
\<close>

theorem bind_succeeds_iff:
  assumes "fd = bind_sock (u_bind r)" "p = bind_port (u_bind r)" "fdtable_dispatch_bind t r = (t', r')"
  shows "(err r' = NETSTACK_OK \<longleftrightarrow>
      fd_valid t fd \<and> kind (aget t fd) = FD_SOCKET_UNBOUND \<and>
      (\<forall>i. fd_in_range i \<longrightarrow> kind (aget t i) \<in> {FD_SOCKET_LISTEN, FD_SOCKET_CONNECTED} \<longrightarrow> local_port (aget t i) \<noteq> p)) \<and>
    t' = (if err r' = NETSTACK_OK then aset t fd ((aget t fd)\<lparr>local_port := p\<rparr>) else t)"
proof -
  have "port_in_use t p \<longleftrightarrow>
      (\<exists>i. fd_in_range i \<and> kind (aget t i) \<in> {FD_SOCKET_LISTEN, FD_SOCKET_CONNECTED} \<and> local_port (aget t i) = p)"
    using c_search_none_iff [of FD_FIRST "\<lambda>i. (kind (aget t i) = FD_SOCKET_LISTEN \<or>
        kind (aget t i) = FD_SOCKET_CONNECTED) \<and> local_port (aget t i) = p" FDTABLE_MAX]
    by (auto simp: port_in_use_def fd_in_range_def not_less)
  with assms show ?thesis by (auto simp: fdtable_dispatch_bind_def Let_def split: if_splits)
qed

theorem bind_succeeds_iff_witness:
  "err (snd (fdtable_dispatch_bind g_fdtable_init (rq_bind 3 80))) \<noteq> NETSTACK_OK"
proof -
  have "\<not> fd_valid g_fdtable_init 3" by (simp add: fd_valid_def g_fdtable_init_def aget_def)
  with bind_succeeds_iff [OF refl refl surjective_pairing, of g_fdtable_init "rq_bind 3 80"] show ?thesis
    by (simp add: rq_bind_def)
qed

text \<open>
  A send on a connected socket queues at the other end as much of the message as its 4096
  bytes have room for, behind the bytes already there, and reports that length; with no room
  at all it reports EAGAIN and the other end keeps its bytes.
\<close>

theorem send_queues_what_fits:
  assumes "fdtable_wf t" "req_wf r" "fdtable_dispatch_send t r = (t', r')"
    and "fd_valid t (send_sock (u_send r))" "kind (aget t (send_sock (u_send r))) = FD_SOCKET_CONNECTED"
    and "peer_fd (aget t (send_sock (u_send r))) = b" "fd_valid t b"
    and "0 \<le> send_len_in (u_send r)" "send_len_in (u_send r) \<le> NETSTACK_MAX_PAYLOAD"
    and "room = RXBUF_SIZE - int (length (rx_bytes (aget t b)))"
  shows "send_len_out (u_send r') = min (send_len_in (u_send r)) room \<and>
    rx_bytes (aget t' b) =
      rx_bytes (aget t b) @ take (nat (min (send_len_in (u_send r)) room)) (send_data (u_send r)) \<and>
    int (length (rx_bytes (aget t' b))) = int (length (rx_bytes (aget t b))) + min (send_len_in (u_send r)) room \<and>
    err r' = (if room = 0 then NETSTACK_EAGAIN else NETSTACK_OK)"
proof -
  let ?n = "min (send_len_in (u_send r)) room"
  have b: "fd_in_range b" "0 \<le> b" using assms(7) by (simp_all add: fd_valid_iff)
  note wf_b = entry_wfD(2) [OF fdtable_wf_aget [OF assms(1) b(1)]]
  define pe where "pe = rx_compact (aget t b)"
  have pe: "rx_wf pe" "rx_bytes pe = rx_bytes (aget t b)"
    using rx_compact_wf(1) [OF wf_b] rx_bytes_compact [OF wf_b] by (simp_all add: pe_def)
  have room: "room = RXBUF_SIZE - rx_tail pe" "0 \<le> room"
    using length_rx_bytes [OF wf_b] rx_compact_wf(3) [OF wf_b] pe(1) assms(10) by (auto simp: pe_def rx_wf_def)
  have len: "length (take (nat ?n) (send_data (u_send r))) = nat ?n"
    using assms(2,8,9) room(2) by (auto simp: req_wf_def)
  have cases: "(t', r') = (if room = 0
      then (aset t b pe, r\<lparr>err := NETSTACK_EAGAIN, u_send := (u_send r)\<lparr>send_len_out := 0\<rparr>\<rparr>)
      else (aset t b (rx_append (take (nat ?n) (send_data (u_send r))) pe),
            r\<lparr>u_send := (u_send r)\<lparr>send_len_out := ?n\<rparr>, err := NETSTACK_OK\<rparr>))"
    using send_connected [OF assms(4-7)] assms(3,8,9) room by (auto simp: Let_def pe_def)
  have app: "rx_bytes (rx_append (take (nat ?n) (send_data (u_send r))) pe) =
      rx_bytes pe @ take (nat ?n) (send_data (u_send r))"
    by (rule rx_append_wf(2) [OF pe(1)]) (use len room assms(8) in auto)
  have "rx_bytes (aget t' b) = rx_bytes (aget t b) @ take (nat ?n) (send_data (u_send r)) \<and>
      send_len_out (u_send r') = ?n \<and> err r' = (if room = 0 then NETSTACK_EAGAIN else NETSTACK_OK)"
    using cases app assms(1,8) b pe(2) by (auto split: if_splits)
  with len room(2) assms(8) show ?thesis by (auto simp: min_def)
qed

theorem send_queues_what_fits_witness:
  "rx_bytes (aget (fst (fdtable_dispatch_send (g_fdtable echo_engine) (rq_send 4 [1, 2, 3]))) 5) = [1, 2, 3]"
proof -
  let ?r = "rq_send 4 [1, 2, 3]"
  have r: "send_sock (u_send ?r) = 4" "send_len_in (u_send ?r) = 3" "req_wf ?r"
    "take 3 (send_data (u_send ?r)) = [1, 2, 3]"
    by (simp_all add: rq_send_def req_wf_def req_zero_def blit_def)
  from send_queues_what_fits [OF echo_engine_wf r(3) surjective_pairing, of 5 4096] show ?thesis
    using echo_ends by (simp add: r)
qed

section \<open>Unknown operations\<close>

text \<open>
  The engine answers ENOSYS to exactly the operation codes it does not know, and such a
  request changes nothing of the engine.
\<close>

theorem unknown_operation_rejected:
  "(err (snd (dispatch_request s r)) = NETSTACK_ENOSYS \<longleftrightarrow>
      op r \<notin> {NETSTACK_OP_PING, NETSTACK_OP_SHUTDOWN, NETSTACK_OP_SOCKET, NETSTACK_OP_CLOSE,
              NETSTACK_OP_BIND, NETSTACK_OP_LISTEN, NETSTACK_OP_CONNECT, NETSTACK_OP_ACCEPT,
              NETSTACK_OP_SEND, NETSTACK_OP_RECV}) \<and>
   (err (snd (dispatch_request s r)) = NETSTACK_ENOSYS \<longrightarrow> fst (dispatch_request s r) = s)"
  by (cases r rule: op_codes_cases)
    (simp_all add: dispatch_ops dispatch_other dispatch_ping_def dispatch_shutdown_def with_fdtable_def
      split_beta fdtable_dispatch_socket_def fdtable_dispatch_close_def fdtable_dispatch_bind_def
      fdtable_dispatch_listen_def fdtable_dispatch_connect_def fdtable_dispatch_accept_def
      fdtable_dispatch_send_def fdtable_dispatch_recv_def Let_def)

theorem unknown_operation_rejected_witness:
  "fst (dispatch_request engine_init (req_zero\<lparr>op := 0x0999\<rparr>)) = engine_init"
  using unknown_operation_rejected [of engine_init "req_zero\<lparr>op := 0x0999\<rparr>"] by simp

section \<open>What a close does not undo\<close>

lemma free_fd_least:
  assumes "free_fd m = Some n" "fd_in_range i" "m i = None"
  shows "n \<le> i"
proof -
  obtain k where k: "k < length all_fds" "n = all_fds ! k" "\<forall>j<k. m (all_fds ! j) \<noteq> None"
    using assms(1) by (auto simp: free_fd_def find_Some_iff)
  have i: "all_fds ! nat (i - FD_FIRST) = i" "n = FD_FIRST + int k"
    using assms(2) k(1,2) by (auto simp: all_fds_def fd_in_range_def nth_upto simp del: upto_rec_numeral)
  with k(3) assms(3) have "\<not> nat (i - FD_FIRST) < k" by metis
  with i(2) assms(2) show ?thesis unfolding fd_in_range_def by arith
qed

lemma abs_listener:
  "abs_table t l = Some s \<Longrightarrow> s_kind s = Listening \<Longrightarrow>
   fd_valid t l \<and> kind (aget t l) = FD_SOCKET_LISTEN \<and> pending (aget t l) = s_queue s"
  by (auto simp: abs_table_def abs_entry_def fd_valid_iff split: if_splits)

text \<open>A close leaves every listener its queue.\<close>

lemma disconnect_keeps:
  "disconnect p m i = None \<longleftrightarrow> m i = None"
  "disconnect p m i = Some s' \<Longrightarrow> m i = Some s \<Longrightarrow> s_kind s' = s_kind s \<and> s_queue s' = s_queue s"
  by (auto simp: disconnect_def split: option.splits if_splits)

text \<open>An accept whose oldest client is not open any more.\<close>

lemma accept_closed:
  assumes "fdtable_wf t" "abs_table t l = Some s" "s_kind s = Listening" "s_queue s = c # q"
    and "abs_table t c = None" "free_fd (abs_table t) = Some n"
    and "accept_sock (u_accept r) = l" "fdtable_dispatch_accept t r = (t', r')"
  shows "err r' = NETSTACK_OK \<and> accept_new_sock (u_accept r') = n \<and> peer_of (abs_table t') n = Some c \<and>
    (n \<noteq> c \<longrightarrow> abs_table t' c = None)"
proof -
  have "l \<noteq> c" "l \<noteq> n" using assms(2,5) free_fd_Some [OF assms(6)] by auto
  moreover have "map_prod abs_table id (t', r') = spec_accept (abs_table t) r"
    using accept_refines [OF assms(1), of r] assms(8) by simp
  then have "abs_table t' = fst (spec_accept (abs_table t) r)" "r' = snd (spec_accept (abs_table t) r)"
    by (metis map_prod_simp fst_conv, metis map_prod_simp snd_conv id_apply)
  ultimately show ?thesis using assms(2-7) by (auto simp: spec_accept_def attach_def peer_of_def)
qed

text \<open>
  C36: closing a client that still waits in a backlog does not take it out of there. In any well-formed
  table, let an open socket \<open>c\<close> be closed. The close succeeds, \<open>c\<close> is free afterwards, and every other listener \<open>l\<close>
  has the queue it had. If \<open>c\<close> is the oldest client of that queue, the next accept on \<open>l\<close> succeeds all the
  same, and hands out a connected socket \<open>n\<close> whose peer is \<open>c\<close>. If no descriptor below \<open>c\<close> is free,
  \<open>n\<close> is \<open>c\<close> itself, a socket that is its own peer; otherwise its peer stays closed and a send on it
  fails with ENOTCONN.
\<close>

theorem closed_client_accepted:
  assumes "fdtable_wf t" "fd_valid t c" "close_sock (u_close r) = c" "fdtable_dispatch_close t r = (t1, r1)"
    and l: "fd_valid t l" "kind (aget t l) = FD_SOCKET_LISTEN" "c \<noteq> l"
    and "accept_sock (u_accept r') = l" "fdtable_dispatch_accept t1 r' = (t2, r2)" "n = accept_new_sock (u_accept r2)"
  shows "err r1 = NETSTACK_OK \<and> \<not> fd_valid t1 c \<and> pending (aget t1 l) = pending (aget t l) \<and>
    (\<forall>q. pending (aget t l) = c # q \<longrightarrow>
       err r2 = NETSTACK_OK \<and> fd_valid t2 n \<and> kind (aget t2 n) = FD_SOCKET_CONNECTED \<and> peer_fd (aget t2 n) = c \<and>
       (n = c \<longleftrightarrow> (\<forall>i. FD_FIRST \<le> i \<and> i < c \<longrightarrow> fd_valid t i)) \<and>
       (n \<noteq> c \<longrightarrow> \<not> fd_valid t2 c \<and>
          (send_sock (u_send r'') = n \<longrightarrow> fdtable_dispatch_send t2 r'' = (t2, r''\<lparr>err := NETSTACK_ENOTCONN\<rparr>))))"
proof -
  let ?d = "disconnect (s_peer (abs_sock (aget t c))) (abs_table t)"
  have wf1: "fdtable_wf t1" using close_wf [OF assms(1), of r] assms(4) by simp
  have close: "abs_table t1 = ?d(c := None)" "r1 = r\<lparr>err := NETSTACK_OK\<rparr>"
    using close_refines [OF assms(1), of r] assms(2-4) by (simp_all add: spec_close_def abs_table_some Let_def)
  then have c: "abs_table t1 c = None" "\<not> fd_valid t1 c" by (simp_all add: flip: abs_table_none_iff)
  have "?d l \<noteq> None" by (simp add: disconnect_keeps(1) abs_table_some [OF l(1)])
  then obtain s where d: "?d l = Some s" by blast
  from disconnect_keeps(2) [OF d abs_table_some [OF l(1)]] l(2,3) d
  have s: "abs_table t1 l = Some s" "s_kind s = Listening" "s_queue s = pending (aget t l)"
    by (simp_all add: close(1))
  note queue = abs_listener [OF s(1,2), unfolded s(3)]
  have rng: "fd_in_range c" using assms(2) by (simp add: fd_valid_iff)
  with c(1) obtain n' where n': "free_fd (abs_table t1) = Some n'"
    by (cases "free_fd (abs_table t1)") (auto simp: free_fd_def find_None_iff set_all_fds)
  have least: "n' = c \<longleftrightarrow> (\<forall>i. FD_FIRST \<le> i \<and> i < c \<longrightarrow> fd_valid t i)"
  proof -
    have free: "abs_table t1 i = None \<longleftrightarrow> \<not> fd_valid t i" if "i < c" for i
      using that by (simp add: close(1) disconnect_keeps(1) abs_table_none_iff)
    have "n' \<le> c" by (rule free_fd_least [OF n' rng c(1)])
    moreover have "\<not> fd_valid t n'" "FD_FIRST \<le> n'" if "n' < c"
      using free_fd_Some [OF n'] free [OF that] by (auto simp: fd_in_range_def)
    moreover have "n' \<le> i" if "FD_FIRST \<le> i" "i < c" "\<not> fd_valid t i" for i
      using that free [of i] rng by (intro free_fd_least [OF n']) (auto simp: fd_in_range_def)
    ultimately show ?thesis by force
  qed
  have acc: "err r2 = NETSTACK_OK" "fd_valid t2 n" "kind (aget t2 n) = FD_SOCKET_CONNECTED" "peer_fd (aget t2 n) = c"
     "n = n'" "n \<noteq> c \<Longrightarrow> \<not> fd_valid t2 c" if "pending (aget t l) = c # q" for q
    using accept_closed [OF wf1 s(1,2) s(3) [unfolded that] c(1) n' assms(8,9)] peer_of_absD [of t2 n c] assms(10)
    by (simp_all add: abs_table_none_iff)
  have "fdtable_dispatch_send t2 r'' = (t2, r''\<lparr>err := NETSTACK_ENOTCONN\<rparr>)"
    if "pending (aget t l) = c # q" "n \<noteq> c" "send_sock (u_send r'') = n" for q
    using acc(2,3,4,6) [OF that(1)] that(2,3) by (simp add: fdtable_dispatch_send_def Let_def)
  with close(2) c(2) queue least acc show ?thesis by simp
qed

text \<open>The client 4 of the listener 3 is closed before it is accepted.\<close>

lemma waiting_listener:
  "fd_valid (table_after (take 5 handshake)) 3" "kind (aget (table_after (take 5 handshake)) 3) = FD_SOCKET_LISTEN"
  "pending (aget (table_after (take 5 handshake)) 3) = [4]" "fd_valid (table_after (take 5 handshake)) 4"
  using abs_listener [of "table_after (take 5 handshake)" 3] abs_table_none_iff [of "table_after (take 5 handshake)" 4]
  by (auto simp: waiting_run waiting_socks_def)

theorem closed_client_accepted_witness:
  "\<exists>t1 r1 t2 r2. fdtable_dispatch_close (table_after (take 5 handshake)) (rq_close 4) = (t1, r1) \<and>
     fdtable_dispatch_accept t1 (rq_accept 3) = (t2, r2) \<and> err r2 = NETSTACK_OK \<and> \<not> fd_valid t1 4 \<and>
     accept_new_sock (u_accept r2) = 4 \<and> peer_fd (aget t2 4) = 4"
proof -
  let ?t = "table_after (take 5 handshake)"
  obtain t1 r1 t2 r2 where d: "fdtable_dispatch_close ?t (rq_close 4) = (t1, r1)"
    "fdtable_dispatch_accept t1 (rq_accept 3) = (t2, r2)" by fastforce
  have "fd_valid ?t i" if "FD_FIRST \<le> i \<and> i < 4" for i
    using that waiting_listener(1) by (cases "i = 3") auto
  with closed_client_accepted [OF table_after_wf waiting_listener(4) _ d(1) waiting_listener(1,2) _ _ d(2) refl, of req_zero]
    waiting_listener(3)
  have n: "accept_new_sock (u_accept r2) = 4" and "err r2 = NETSTACK_OK" "\<not> fd_valid t1 4"
    "peer_fd (aget t2 (accept_new_sock (u_accept r2))) = 4"
    by (simp_all add: rq_close_def rq_accept_def) metis
  with d show ?thesis by (metis n)
qed

definition rebind_run :: "NetstackReq list" where
  "rebind_run = [rq_socket, rq_socket, rq_bind 3 80, rq_bind 4 80, rq_listen 3, rq_listen 4]"

text \<open>
  Two sockets that bind one port before either listens both succeed and both listen on it; a
  connect then only ever reaches the first.
\<close>

theorem two_listeners_one_port:
  "kind (aget (table_after rebind_run) 3) = FD_SOCKET_LISTEN \<and> local_port (aget (table_after rebind_run) 3) = 80 \<and>
   kind (aget (table_after rebind_run) 4) = FD_SOCKET_LISTEN \<and> local_port (aget (table_after rebind_run) 4) = 80 \<and>
   find_listener (table_after rebind_run) 80 = 3"
proof -
  have m: "abs_table (table_after rebind_run) 3 = Some (echo_sock\<lparr>s_kind := Listening, s_port := 80\<rparr>)"
    "abs_table (table_after rebind_run) 4 = Some (echo_sock\<lparr>s_kind := Listening, s_port := 80\<rparr>)"
    by (simp_all add: abs_table_after)
      (simp_all add: rebind_run_def spec_eval echo_sock_def del: upto_rec_numeral)
  have "find_listener (table_after rebind_run) 80 = 3"
    by (simp add: find_listener_spec find_all_fds_eval m listener_on_def del: upto_rec_numeral)
  moreover have "kind (aget t fd) = FD_SOCKET_LISTEN \<and> local_port (aget t fd) = 80"
    if "listener_on 80 (abs_table t fd)" for t fd
    using that by (auto simp: listener_on_def abs_table_def abs_entry_def split: if_splits)
  ultimately show ?thesis using m by (simp add: listener_on_def)
qed

text \<open>
  A client that has connected but is not accepted yet reads end of file, not EAGAIN, although
  nothing has been closed.
\<close>

theorem unaccepted_client_reads_eof:
  "snd (fdtable_dispatch_recv (table_after (take 5 handshake)) (rq_recv 4 16)) =
     (rq_recv 4 16)\<lparr>u_recv := (u_recv (rq_recv 4 16))\<lparr>recv_len_out := 0\<rparr>, err := NETSTACK_OK\<rparr>"
proof -
  have "snd (fdtable_dispatch_recv (table_after (take 5 handshake)) (rq_recv 4 16)) =
      snd (spec_recv waiting_socks (rq_recv 4 16))"
    using recv_refines [OF table_after_wf, of "take 5 handshake" "rq_recv 4 16"] by (simp add: waiting_run)
  then show ?thesis by (simp add: spec_recv_def rq_recv_def waiting_socks_def echo_sock_def)
qed

end
