(* ===== verification/EngineProps.thy ===== *)
theory EngineProps
  imports Scenario
begin

unbundle bit_operations_syntax

text \<open>
  The engine task and its launcher: every message is answered once, a shutdown request ends
  the loop after its batch, a break signal ends it at once, and starting and stopping balance
  the signal bits they take.
\<close>

section \<open>The message loop\<close>

text \<open>
  C12: in every reachable state, a batch of messages is answered message by message, in order, each
  to the reply port it names and with its operation code and array sizes intact.
\<close>

theorem every_message_replied:
  assumes "sys_run a f s"
  shows "list_all2 (\<lambda>r c. \<exists>r'. c = ReplyMsg r' \<and> mn_ReplyPort r' = mn_ReplyPort r \<and> op r' = op r \<and>
           (req_wf r \<longrightarrow> req_wf r')) rs (snd (drain_port s rs))"
proof -
  have "fdtable_wf (g_fdtable s)" using run_balance [OF assms] by (simp add: engine_inv_def)
  from drain_replies [OF this, of rs] show ?thesis by (simp add: req_frame_def)
qed

theorem every_message_replied_witness:
  "list_all2 (\<lambda>r c. \<exists>r'. c = ReplyMsg r' \<and> mn_ReplyPort r' = mn_ReplyPort r \<and> op r' = op r \<and>
     (req_wf r \<longrightarrow> req_wf r')) [rq_send 4 [1], rq_recv 5 8] (snd (drain_port echo_engine [rq_send 4 [1], rq_recv 5 8]))"
  by (rule every_message_replied [OF sys_run_echo])

text \<open>
  The engine serves every batch it is woken for, up to and including the one that holds a
  shutdown request, whose other messages are served too; then it frees its port and signals
  the launcher, whatever wakeups would follow.
\<close>

theorem shutdown_after_its_batch:
  assumes "port \<noteq> NULL" "list_all (woken (push_bit b 1)) ws" "list_all (\<lambda>w. \<not> asks_shutdown w) ws"
    and "woken (push_bit b 1) w" "asks_shutdown w"
    and "s1 = s\<lparr>g_request_port := port, g_engine_ready := True, g_engine_shutdown := False\<rparr>"
    and "drain_port s1 (concat (map snd ws) @ snd w) = (s2, replies)"
  shows "engine_process_main port b (ws @ w # rest) s =
    (Some Shut_down, s2\<lparr>g_request_port := NULL, g_engine_ready := False\<rparr>,
     Signal (g_launcher_task s) (g_launcher_ready_mask s) # replies @
     [FreePort port, Signal (g_launcher_task s) (g_launcher_stopped_mask s)])"
proof -
  let ?d = "drain_port s1 (concat (map snd ws))"
  have open1: "engine_open s port = (s1, [Signal (g_launcher_task s) (g_launcher_ready_mask s)])"
    using assms(1,6) by (simp add: engine_open_def)
  have run: "\<not> g_engine_shutdown s1" "\<not> g_engine_shutdown (fst ?d)"
    using assms(3,6) by (auto simp: drain_shutdown_flag asks_shutdown_def list_all_iff list_ex_iff)
  have loop: "engine_loop (push_bit b 1) s1 (ws @ w # rest) = (Shut_down, s2, replies)"
    using loop_serves [OF run(1) assms(2,3), of "w # rest"] loop_shutdown [OF run(2) assms(4,5), of rest]
      drain_append [of s1 "concat (map snd ws)" "snd w"] assms(7)
    by (simp add: split_beta Let_def)
  have "g_request_port s2 = port" "g_launcher_task s2 = g_launcher_task s"
    "g_launcher_stopped_mask s2 = g_launcher_stopped_mask s"
    using drain_engine_frame [of s1 "concat (map snd ws) @ snd w"] assms(6,7) by simp_all
  then show ?thesis
    using assms(1) unfolding engine_process_main_def open1
    by (simp add: loop engine_teardown_def del: push_bit_of_1)
qed

theorem shutdown_after_its_batch_witness:
  "fst (engine_process_main 0x300 20 ([(push_bit 20 1, [rq_socket])] @
      (push_bit 20 1, [shutdown_req 0x400, rq_socket]) # []) engine_init) = Some Shut_down"
proof -
  let ?s1 = "engine_init\<lparr>g_request_port := 0x300, g_engine_ready := True, g_engine_shutdown := False\<rparr>"
  let ?ws = "[(push_bit 20 1 :: uint32, [rq_socket])]"
  let ?w = "(push_bit 20 1 :: uint32, [shutdown_req 0x400, rq_socket])"
  obtain s2 replies where d: "drain_port ?s1 (concat (map snd ?ws) @ snd ?w) = (s2, replies)" by fastforce
  have sig: "(push_bit 20 1 :: uint32) AND SIGBREAKF_CTRL_C = 0"
    "(push_bit 20 1 :: uint32) AND push_bit 20 1 \<noteq> 0" by simp_all
  have "list_all (woken (push_bit 20 1)) ?ws" "woken (push_bit 20 1) ?w"
    unfolding woken_def using sig by (simp_all del: push_bit_of_1)
  moreover have "list_all (\<lambda>w. \<not> asks_shutdown w) ?ws" "asks_shutdown ?w"
    by (simp_all add: asks_shutdown_def rq_socket_def shutdown_req_def)
  ultimately show ?thesis
    using shutdown_after_its_batch [OF _ _ _ _ _ refl d, of 20 "[]"] by simp
qed

text \<open>
  A break signal ends the loop before the port is read: the messages that were waiting are
  never answered.
\<close>

theorem break_leaves_messages_unanswered:
  assumes "port \<noteq> NULL" "got AND SIGBREAKF_CTRL_C \<noteq> 0"
  shows "engine_process_main port b ((got, msgs) # ws) s =
    (Some Break_signal, s\<lparr>g_request_port := NULL, g_engine_ready := False, g_engine_shutdown := False\<rparr>,
     [Signal (g_launcher_task s) (g_launcher_ready_mask s), FreePort port,
      Signal (g_launcher_task s) (g_launcher_stopped_mask s)])"
  using assms by (simp add: engine_process_main_def engine_open_def engine_teardown_def)

theorem break_leaves_messages_unanswered_witness:
  "snd (snd (engine_process_main 0x300 20 [(0x101000, [rq_socket])] started_engine)) =
     [Signal 0x100 (bit_mask 16), FreePort 0x300, Signal 0x100 (bit_mask 17)]"
proof -
  have "(0x101000 :: uint32) AND SIGBREAKF_CTRL_C \<noteq> 0" by simp
  from break_leaves_messages_unanswered [OF _ this, of "0x300" 20 "[rq_socket]" "[]" started_engine]
  show ?thesis by (simp add: started_engine_eq)
qed

section \<open>Start and stop\<close>

text \<open>
  C22: along every run of starts, requests, breaks and stops, one after the other, the signal bits exec handed out are
  those that were freed and those the launcher still holds for a live task: none leaks and none
  is freed twice; when no task is recorded, all have been given back.
\<close>

theorem signal_bits_balanced:
  assumes "sys_run a f s"
  shows "a = f + held s \<and> (g_engine_task s = NULL \<longrightarrow> a = f)"
  using run_balance [OF assms] by (simp add: held_none)

theorem signal_bits_balanced_witness: "held echo_engine = {#16, 17#}"
  using signal_bits_balanced [OF sys_run_echo] by simp

text \<open>
  In every reachable state the engine counts as running exactly while it has its request port.
\<close>

theorem running_iff_port:
  assumes "sys_run a f s"
  shows "NetstackEngine_IsRunning s \<longleftrightarrow> g_request_port s \<noteq> NULL"
  using run_balance [OF assms] by (auto simp: NetstackEngine_IsRunning_def engine_inv_def)

theorem running_iff_port_witness: "NetstackEngine_IsRunning echo_engine"
  using running_iff_port [OF sys_run_echo] echo_in_loop by (simp add: in_loop_def)

text \<open>
  Stopping always succeeds and leaves the engine down with its sockets as they were, and a
  start to which exec gives bits, a task and a port then succeeds: descriptors opened before
  the stop are still open after the restart.
\<close>

theorem stop_then_restart:
  assumes "sys_run a f s" "NetstackEngine_Stop reply s = (rc, s', calls)"
    and "0 \<le> ready_bit env" "0 \<le> stopped_bit env" "new_task env \<noteq> NULL" "new_port env \<noteq> NULL"
    and "NetstackEngine_Start cfg env s' = (rc', s'', calls')"
  shows "rc = 0 \<and> \<not> NetstackEngine_IsRunning s' \<and> rc' = 0 \<and> NetstackEngine_IsRunning s'' \<and>
    g_fdtable s'' = g_fdtable s"
proof -
  have inv: "engine_inv s" using run_balance [OF assms(1)] by simp
  note b = stop_balance [OF inv assms(2)]
  have "op (shutdown_req reply) = NETSTACK_OP_SHUTDOWN" by (simp add: shutdown_req_def)
  then have "g_fdtable s' = g_fdtable s"
    using assms(2)
    by (auto simp: NetstackEngine_Stop_def stop_finish_def engine_stops_def engine_teardown_def
        drain_Cons dispatch_ops dispatch_shutdown_def split_beta Let_def split: if_splits)
  moreover have "rc' = 0 \<and> NetstackEngine_IsRunning s'' \<and> g_fdtable s'' = g_fdtable s'"
    using assms(3-) b
    by (auto simp: NetstackEngine_Start_def engine_open_def NetstackEngine_IsRunning_def Let_def)
  ultimately show ?thesis using b by (simp add: NetstackEngine_IsRunning_def)
qed

theorem stop_then_restart_witness:
  "fst (NetstackEngine_Start None boot_env (fst (snd (NetstackEngine_Stop 0x500 echo_engine)))) = 0 \<and>
   abs_table (g_fdtable (fst (snd (NetstackEngine_Start None boot_env
     (fst (snd (NetstackEngine_Stop 0x500 echo_engine))))))) = echo_socks"
proof -
  obtain rc s' calls where st: "NetstackEngine_Stop 0x500 echo_engine = (rc, s', calls)" using prod_cases3 .
  obtain rc' s'' calls' where re: "NetstackEngine_Start None boot_env s' = (rc', s'', calls')" using prod_cases3 .
  have "0 \<le> ready_bit boot_env" "0 \<le> stopped_bit boot_env" "new_task boot_env \<noteq> NULL" "new_port boot_env \<noteq> NULL"
    by (simp_all add: boot_env_def)
  from stop_then_restart [OF sys_run_echo st this re] show ?thesis by (simp add: st re echo_table)
qed

text \<open>
  After the engine left its loop on a break signal the launcher still records its task: the
  engine is not running, but every start is refused until someone calls stop.
\<close>

theorem broken_engine_refuses_start:
  assumes "NetstackEngine_IsRunning s" "engine_teardown s = (s', calls)"
  shows "\<not> NetstackEngine_IsRunning s' \<and> NetstackEngine_Start cfg env s' = (-1, s', [])"
  using assms by (auto simp: engine_teardown_def NetstackEngine_IsRunning_def NetstackEngine_Start_def)

theorem broken_engine_refuses_start_witness:
  "\<not> NetstackEngine_IsRunning (fst (engine_teardown echo_engine)) \<and>
   fst (NetstackEngine_Start None boot_env (fst (engine_teardown echo_engine))) = -1"
proof -
  have "NetstackEngine_IsRunning echo_engine"
    using run_balance [OF sys_run_echo] echo_in_loop
    by (simp add: in_loop_def NetstackEngine_IsRunning_def engine_inv_def)
  from broken_engine_refuses_start [OF this surjective_pairing, of None boot_env] show ?thesis
    by simp
qed

end
