(* ===== verification/ClientProps.thy ===== *)
theory ClientProps
  imports Scenario
begin

text \<open>
  What a program that uses the client library relies on: data sent on one end of a connection
  is what is received on the other, each task keeps its own reply port, and a call that
  cannot reach the engine fails.
\<close>

section \<open>Calls\<close>

text \<open>
  Through the whole stack, from the client wrapper over the message port and the engine's
  buffers: a message sent on one end of an idle connection is received on the other byte for
  byte, and leaves the connection idle again.
\<close>

theorem client_round_trip:
  assumes "online env w" "sockets w a = Some sa" "s_peer sa = Some b"
    and "sockets w b = Some sb" "s_kind sb = Connected" "s_stream sb = []"
    and "0 < len" "len \<le> NETSTACK_MAX_PAYLOAD" "nat len \<le> length buf" "len \<le> mx"
  shows "\<exists>w1 w2. netstack_send env a buf len w = Some (len, w1) \<and>
    netstack_recv env b (Some rbuf) mx w1 = Some (len, Some (blit rbuf 0 (take (nat len) buf)), w2) \<and>
    sockets w2 = sockets w \<and> online env w2"
proof -
  have "int (length (s_stream sb)) < RXBUF_SIZE" using assms(6) by simp
  from client_send [OF assms(1-4) less_imp_le [OF assms(7)] assms(8,9) this]
  obtain w1 where send: "netstack_send env a buf len w = Some (len, w1)" "online env w1"
    "sockets w1 = (sockets w)(b \<mapsto> sb\<lparr>s_stream := take (nat len) buf\<rparr>)"
    using assms(6-8) by (auto simp: min_def)
  let ?sb = "sb\<lparr>s_stream := take (nat len) buf\<rparr>"
  have b: "sockets w1 b = Some ?sb" "s_kind ?sb = Connected" "s_stream ?sb \<noteq> []" "0 \<le> mx"
    using assms(5,7,9,10) send(3) by auto
  have n: "min (int (length (s_stream ?sb))) (min NETSTACK_MAX_PAYLOAD mx) = len"
    using assms(7-10) by simp
  from client_recv [OF send(2) b, of rbuf, unfolded n Let_def] obtain w2 where
    recv: "netstack_recv env b (Some rbuf) mx w1 =
        Some (len, Some (if len > 0 then blit rbuf 0 (take (nat len) (s_stream ?sb)) else rbuf), w2)"
    and w2: "online env w2" "sockets w2 = (sockets w1)(b \<mapsto> ?sb\<lparr>s_stream := drop (nat len) (s_stream ?sb)\<rparr>)"
    by blast
  have "sockets w2 = sockets w"
    using w2(2) send(3) assms(4,6,9) by (auto simp: fun_upd_idem_iff)
  with send recv w2(1) assms(7,9) show ?thesis by auto
qed

theorem client_round_trip_witness:
  "\<exists>w1 w2. netstack_send task_env 4 [104, 105] 2 echo_world = Some (2, w1) \<and>
     netstack_recv task_env 5 (Some [0, 0, 0]) 3 w1 = Some (2, Some [104, 105, 0], w2)"
proof -
  have "sockets echo_world = echo_socks" by (simp add: sockets_def echo_world_def echo_table)
  then have "sockets echo_world 4 = Some (echo_sock\<lparr>s_peer := Some 5\<rparr>)"
    "sockets echo_world 5 = Some (echo_sock\<lparr>s_port := 1234, s_peer := Some 4\<rparr>)"
    by (simp_all add: echo_socks_def)
  from client_round_trip [OF echo_online this(1) _ this(2), of 2 "[104, 105]" 3 "[0, 0, 0]"] show ?thesis
    by (auto simp: echo_sock_def blit_def)
qed

text \<open>
  A ping travels to the engine and back with its payload incremented modulo 2\<open>^\<close>32, and
  leaves the sockets alone.
\<close>

theorem ping_increments:
  assumes "online env w"
  shows "\<exists>w'. netstack_ping env seq p w = Some (NETSTACK_OK, Some (p + 1), w') \<and> sockets w' = sockets w"
proof -
  let ?req = "req_zero\<lparr>op := NETSTACK_OP_PING, u_ping := \<lparr>ping_seq = seq, ping_payload = p\<rparr>\<rparr>"
  obtain w' where w': "netstack_ipc_call env ?req w =
       Some (0, snd (spec_dispatch (abs_engine (eng w)) (?req\<lparr>mn_ReplyPort := reply_target env w\<rparr>)), w')"
    "online env w'" "abs_engine (eng w') =
       fst (spec_dispatch (abs_engine (eng w)) (?req\<lparr>mn_ReplyPort := reply_target env w\<rparr>))"
    using ipc_online [OF assms, of ?req] by auto
  then show ?thesis
    by (auto simp: netstack_ping_def spec_dispatch_def spec_handler_def sockets_def abs_engine_def)
qed

theorem ping_increments_witness:
  "\<exists>w'. netstack_ping task_env 1 0xFFFFFFFF echo_world = Some (NETSTACK_OK, Some 0, w')"
  using ping_increments [OF echo_online, of 1 "0xFFFFFFFF"] by auto

text \<open>
  When the engine's port cannot be found or no reply port is to be had, every wrapper returns
  -1 and the engine is untouched.
\<close>

theorem unreachable_engine_fails:
  assumes "engine_target env w = NULL \<or> reply_target env w = NULL"
    and "0 \<le> len" "len \<le> NETSTACK_MAX_PAYLOAD" "0 \<le> mx"
  shows "\<exists>c. netstack_ping env seq pl w = Some (-1, None, w\<lparr>cl := c\<rparr>) \<and>
    netstack_socket env d ty pr w = Some (-1, None, w\<lparr>cl := c\<rparr>) \<and>
    netstack_close env s w = Some (-1, w\<lparr>cl := c\<rparr>) \<and>
    netstack_bind env s p w = Some (-1, w\<lparr>cl := c\<rparr>) \<and>
    netstack_listen env s n w = Some (-1, w\<lparr>cl := c\<rparr>) \<and>
    netstack_connect env s p w = Some (-1, w\<lparr>cl := c\<rparr>) \<and>
    netstack_accept env s w = Some (-1, None, w\<lparr>cl := c\<rparr>) \<and>
    netstack_send env s buf len w = Some (-1, w\<lparr>cl := c\<rparr>) \<and>
    netstack_recv env s rbuf mx w = Some (-1, rbuf, w\<lparr>cl := c\<rparr>)"
proof -
  obtain c where call: "netstack_ipc_call env req w = Some (-1, req, w\<lparr>cl := c\<rparr>)" for req
    using assms(1) by (cases "engine_target env w = NULL") (auto simp: ipc_call_eq)
  show ?thesis
    using assms(2-)
    by (intro exI [of _ c])
      (simp add: call netstack_ping_def netstack_socket_def netstack_close_def netstack_bind_def
        netstack_listen_def netstack_connect_def netstack_accept_def netstack_send_def netstack_recv_def
        Let_def)
qed

theorem unreachable_engine_fails_witness:
  "fst (the (netstack_close (task_env\<lparr>env_find_port := NULL\<rparr>) 3 echo_world)) = -1"
proof -
  let ?env = "task_env\<lparr>env_find_port := NULL\<rparr>"
  have "engine_target ?env echo_world = NULL"
    by (simp add: engine_target_def echo_world_def client_zero_def task_env_def)
  from unreachable_engine_fails [OF disjI1 [OF this], of 0 0 0 0 0 0 0 3 0 0 "[]" None]
  show ?thesis by auto
qed

section \<open>Reply ports\<close>

text \<open>
  Once a task has its reply port, it gets the same port from every later call, whatever calls
  other tasks make in between, and the table does not change for it.
\<close>

theorem reply_port_stable:
  assumes "owners_wf (map rs_owner ts)" "me \<noteq> NULL" "reply_slot_for p me ts = (r, ts')"
    and "me \<in> rs_owner ` set ts'" "list_all (\<lambda>c. snd c \<noteq> NULL) calls"
  shows "reply_slot_for p' me (rp.ensure_run calls ts') = (r, rp.ensure_run calls ts')"
  by (rule rp.same_answer [OF assms])

theorem reply_port_stable_witness:
  "reply_slot_for 0x999 0x100 (rp.ensure_run [(0x500, 0x200)]
     ((g_reply_slots client_zero)[0 := \<lparr>rs_owner = 0x100, rs_port = 0x400\<rparr>])) =
   (0x400, rp.ensure_run [(0x500, 0x200)]
     ((g_reply_slots client_zero)[0 := \<lparr>rs_owner = 0x100, rs_port = 0x400\<rparr>]))"
proof (rule reply_port_stable)
  show "owners_wf (map rs_owner (g_reply_slots client_zero))"
    by (simp add: owners_wf_def client_zero_def reply_slot_zero_def)
  show "reply_slot_for 0x400 0x100 (g_reply_slots client_zero) =
      (0x400, (g_reply_slots client_zero)[0 := \<lparr>rs_owner = 0x100, rs_port = 0x400\<rparr>])"
    by (simp add: reply_slot_first)
  show "0x100 \<in> rs_owner ` set ((g_reply_slots client_zero)[0 := \<lparr>rs_owner = 0x100, rs_port = 0x400\<rparr>])"
    by (rule image_eqI [OF _ set_update_memI]) (simp_all add: client_zero_def)
qed simp_all

text \<open>
  Shutting the client down frees every reply port exactly once, in slot order, and leaves the
  table empty and the cached engine port forgotten.
\<close>

theorem client_shutdown_frees_ports:
  assumes "g_reply_sem_init c" "int (length (g_reply_slots c)) = TASK_SLOT_MAX"
    and "\<And>s. s \<in> set (g_reply_slots c) \<Longrightarrow> rs_owner s = NULL \<longleftrightarrow> rs_port s = NULL"
    and "netstack_client_shutdown c = (c', calls)"
  shows "g_reply_slots c' = g_reply_slots client_zero \<and> g_engine_port c' = NULL \<and>
    calls = map FreePort (filter (\<lambda>p. p \<noteq> NULL) (map rs_port (g_reply_slots c)))"
proof -
  have "s = reply_slot_zero" if "s \<in> set (g_reply_slots c)" "rs_port s = NULL" for s
    using assms(3) [OF that(1)] that(2) by (simp add: reply_slot_zero_def)
  then have "map (\<lambda>s. if rs_port s \<noteq> NULL then reply_slot_zero else s) (g_reply_slots c) =
      map (\<lambda>_. reply_slot_zero) (g_reply_slots c)"
    by (intro map_cong) auto
  also have "\<dots> = g_reply_slots client_zero"
    using assms(2) by (simp add: map_replicate_const client_zero_def)
  finally show ?thesis using assms(1,4)
    by (auto simp: netstack_client_shutdown_def free_reply_slots_def filter_map comp_def)
qed

theorem client_shutdown_frees_ports_witness:
  "snd (netstack_client_shutdown (client_zero\<lparr>g_reply_sem_init := True,
     g_reply_slots := (g_reply_slots client_zero)[0 := \<lparr>rs_owner = 0x100, rs_port = 0x400\<rparr>]\<rparr>)) = [FreePort 0x400]"
proof -
  let ?c = "client_zero\<lparr>g_reply_sem_init := True,
     g_reply_slots := (g_reply_slots client_zero)[0 := \<lparr>rs_owner = 0x100, rs_port = 0x400\<rparr>]\<rparr>"
  have slots: "g_reply_slots ?c = \<lparr>rs_owner = 0x100, rs_port = 0x400\<rparr> # replicate 15 reply_slot_zero"
    by (simp add: client_zero_def numeral_eq_Suc)
  have "rs_owner s = NULL \<longleftrightarrow> rs_port s = NULL" if "s \<in> set (g_reply_slots ?c)" for s
    using that unfolding slots by (auto simp: reply_slot_zero_def)
  with client_shutdown_frees_ports [OF _ _ _ surjective_pairing, of ?c]
  have "snd (netstack_client_shutdown ?c) =
      map FreePort (filter (\<lambda>p. p \<noteq> NULL) (map rs_port (g_reply_slots ?c)))"
    by (simp add: slots)
  then show ?thesis unfolding slots by (simp add: reply_slot_zero_def)
qed

end
