(* ===== verification/Bsdsocket.thy ===== *)
theory Bsdsocket
  imports Scenario
begin

unbundle bit_operations_syntax

text \<open>
  The AmigaOS library around the client (\<open>src/phase3_bsdsocket/bsdsocket_library.c\<close>): interface
  and library reference counts, delayed expunge, the lazy start of the engine, and the
  \<open>bs_*\<close> functions of the \<open>main\<close> interface with their \<open>sockaddr_in\<close> marshalling.

  \<open>lib_OpenCnt\<close> and \<open>lib_Flags\<close> have the widths of exec's \<open>struct Library\<close>, and \<open>LIBF_CHANGED\<close>,
  \<open>LIBF_SUMUSED\<close> and \<open>LIBF_DELEXP\<close> its documented bits.
\<close>

abbreviation (input) LIBF_CHANGED :: uint8 where "LIBF_CHANGED \<equiv> 2"
abbreviation (input) LIBF_SUMUSED :: uint8 where "LIBF_SUMUSED \<equiv> 4"
abbreviation (input) LIBF_DELEXP :: uint8 where "LIBF_DELEXP \<equiv> 8"
abbreviation (input) BSDLIBVER :: uint16 where "BSDLIBVER \<equiv> 4"
abbreviation (input) BSDLIBREV :: uint16 where "BSDLIBREV \<equiv> 0"
abbreviation (input) BSDLIBNAME :: string where "BSDLIBNAME \<equiv> ''netstack.library''"
abbreviation (input) BSDLIBVERSTR :: string where
  "BSDLIBVERSTR \<equiv> ''netstack.library 4.0 (bsdsocket-compatible scaffold)''"

datatype node_type = NT_UNKNOWN | NT_LIBRARY

record BsdsocketBase =
  lib_addr :: ptr
  ln_Type :: node_type
  ln_Pri :: int
  ln_Name :: string
  lib_Flags :: uint8
  lib_Version :: uint16
  lib_Revision :: uint16
  lib_IdString :: string
  lib_OpenCnt :: uint16
  seglist :: ptr
  base_IExec :: ptr

text \<open>The process: the library base, the client and engine behind it, and the lazy-start flag.\<close>

record bsd =
  base :: BsdsocketBase
  wld :: world
  g_engine_started :: bool

record bsd_env =
  start_answers :: start_env
  ipc_answers :: ipc_env
  stop_reply :: ptr

section \<open>Reference counts\<close>

definition default_Obtain :: "uint32 \<Rightarrow> uint32 \<times> uint32" where
  "default_Obtain RefCount = (let rc = RefCount + 1 in (rc, rc))"

definition default_Release :: "uint32 \<Rightarrow> uint32 \<times> uint32" where
  "default_Release RefCount = (let rc = RefCount - 1 in (rc, rc))"

definition mgr_Obtain :: "uint32 \<Rightarrow> uint32 \<times> uint32" where
  "mgr_Obtain RefCount = (let rc = RefCount + 1 in (rc, rc))"

definition mgr_Release :: "uint32 \<Rightarrow> uint32 \<times> uint32" where
  "mgr_Release RefCount = (let rc = RefCount - 1 in (rc, rc))"

section \<open>Library init and manager\<close>

text \<open>The result, the base, and the global \<open>IExec\<close> that the init publishes.\<close>

definition bsd_Init :: "ptr \<Rightarrow> ptr \<Rightarrow> BsdsocketBase \<Rightarrow> ptr \<times> BsdsocketBase \<times> ptr" where
  "bsd_Init sl exec b =
     (let b1 = b\<lparr>seglist := sl, base_IExec := exec\<rparr>;
          IExec = exec;
          b2 = b1\<lparr>ln_Type := NT_LIBRARY, ln_Pri := 0, ln_Name := BSDLIBNAME,
                  lib_Flags := LIBF_SUMUSED OR LIBF_CHANGED, lib_Version := BSDLIBVER,
                  lib_Revision := BSDLIBREV, lib_IdString := BSDLIBVERSTR\<rparr>
      in (lib_addr b2, b2, IExec))"

definition mgr_Open :: "bsd \<Rightarrow> ptr \<times> bsd" where
  "mgr_Open s =
     (let b = (base s)\<lparr>lib_OpenCnt := lib_OpenCnt (base s) + 1,
                       lib_Flags := lib_Flags (base s) AND NOT LIBF_DELEXP\<rparr>
      in (lib_addr b, s\<lparr>base := b\<rparr>))"

definition mgr_Expunge :: "bsd_env \<Rightarrow> bsd \<Rightarrow> ptr \<times> bsd \<times> exec_call list" where
  "mgr_Expunge env s =
     (if lib_OpenCnt (base s) > 0
      then (NULL, s\<lparr>base := (base s)\<lparr>lib_Flags := lib_Flags (base s) OR LIBF_DELEXP\<rparr>\<rparr>, [])
      else
        let sl = seglist (base s);
            (c, ccalls) = netstack_client_shutdown (cl (wld s));
            (rc, e, ecalls) = NetstackEngine_Stop (stop_reply env) (eng (wld s))
        in (sl, s\<lparr>wld := \<lparr>cl = c, eng = e\<rparr>\<rparr>,
            ccalls @ ecalls @ [Remove (lib_addr (base s)), DeleteLibrary (lib_addr (base s))]))"

definition mgr_Close :: "bsd_env \<Rightarrow> bsd \<Rightarrow> ptr \<times> bsd \<times> exec_call list" where
  "mgr_Close env s =
     (let s1 = s\<lparr>base := (base s)\<lparr>lib_OpenCnt := lib_OpenCnt (base s) - 1\<rparr>\<rparr> in
      if lib_OpenCnt (base s1) = 0 \<and> lib_Flags (base s1) AND LIBF_DELEXP \<noteq> 0
      then mgr_Expunge env s1
      else (NULL, s1, []))"

section \<open>Lazy engine start\<close>

definition ensure_engine :: "bsd_env \<Rightarrow> bsd \<Rightarrow> int32 \<times> bsd \<times> exec_call list" where
  "ensure_engine env s =
     (if g_engine_started s then (0, s, [])
      else
        let (rc, e, calls) = NetstackEngine_Start None (start_answers env) (eng (wld s));
            s1 = s\<lparr>wld := (wld s)\<lparr>eng := e\<rparr>\<rparr>
        in
        if rc \<noteq> 0 then (-1, s1, calls)
        else
          let (rc2, c) = netstack_client_init (ipc_answers env) (cl (wld s1));
              s2 = s1\<lparr>wld := (wld s1)\<lparr>cl := c\<rparr>\<rparr>
          in
          if rc2 \<noteq> 0 then (-1, s2, calls)
          else (0, s2\<lparr>g_engine_started := True\<rparr>, calls))"

section \<open>The main interface\<close>

definition extract_port :: "uint8 list option \<Rightarrow> int32 \<Rightarrow> uint16" where
  "extract_port addr addrlen =
     (case addr of
        None \<Rightarrow> 0
      | Some p \<Rightarrow> if addrlen < 4 then 0 else push_bit 8 (ucast (p ! 2)) OR ucast (p ! 3))"

definition bs_socket :: "bsd_env \<Rightarrow> int32 \<Rightarrow> int32 \<Rightarrow> int32 \<Rightarrow> bsd \<Rightarrow> (int32 \<times> bsd) option" where
  "bs_socket env dmn typ prot s =
     (let (rc, s1, _) = ensure_engine env s in
      if rc \<noteq> 0 then Some (-1, s1)
      else
        do {
          (rv, sock, w) \<leftarrow> netstack_socket (ipc_answers env) dmn typ prot (wld s1);
          let s2 = s1\<lparr>wld := w\<rparr>;
          if rv \<noteq> NETSTACK_OK then Some (-1, s2)
          else Some (case sock of Some fd \<Rightarrow> fd | None \<Rightarrow> -1, s2)
        })"

definition bs_bind :: "bsd_env \<Rightarrow> int32 \<Rightarrow> uint8 list option \<Rightarrow> int32 \<Rightarrow> bsd \<Rightarrow> (int32 \<times> bsd) option" where
  "bs_bind env sk addr addrlen s =
     (let (rc, s1, _) = ensure_engine env s in
      if rc \<noteq> 0 then Some (-1, s1)
      else
        do {
          (rv, w) \<leftarrow> netstack_bind (ipc_answers env) sk (extract_port addr addrlen) (wld s1);
          Some (if rv = NETSTACK_OK then 0 else -1, s1\<lparr>wld := w\<rparr>)
        })"

definition bs_connect :: "bsd_env \<Rightarrow> int32 \<Rightarrow> uint8 list option \<Rightarrow> int32 \<Rightarrow> bsd \<Rightarrow> (int32 \<times> bsd) option" where
  "bs_connect env sk addr addrlen s =
     (let (rc, s1, _) = ensure_engine env s in
      if rc \<noteq> 0 then Some (-1, s1)
      else
        do {
          (rv, w) \<leftarrow> netstack_connect (ipc_answers env) sk (extract_port addr addrlen) (wld s1);
          Some (if rv = NETSTACK_OK then 0 else -1, s1\<lparr>wld := w\<rparr>)
        })"

definition bs_listen :: "bsd_env \<Rightarrow> int32 \<Rightarrow> int32 \<Rightarrow> bsd \<Rightarrow> (int32 \<times> bsd) option" where
  "bs_listen env sk bl s =
     (let (rc, s1, _) = ensure_engine env s in
      if rc \<noteq> 0 then Some (-1, s1)
      else
        do {
          (rv, w) \<leftarrow> netstack_listen (ipc_answers env) sk bl (wld s1);
          Some (if rv = NETSTACK_OK then 0 else -1, s1\<lparr>wld := w\<rparr>)
        })"

text \<open>
  The address an accept stores: \<open>sin_len\<close>, \<open>sin_family\<close>, the port in network order, then zeros
  up to 16 bytes or the caller's length.
\<close>

definition store_sockaddr :: "uint16 \<Rightarrow> int32 \<Rightarrow> uint8 list \<Rightarrow> uint8 list" where
  "store_sockaddr pport addrlen p =
     blit p 0 ([16, 2, ucast (drop_bit 8 pport), ucast (pport AND 0xFF)] @
               replicate (nat (min 16 addrlen - 4)) 0)"

text \<open>\<open>addr\<close> and \<open>addrlen\<close> are the caller's buffer and length, or \<open>None\<close> for NULL pointers.\<close>

definition bs_accept ::
  "bsd_env \<Rightarrow> int32 \<Rightarrow> uint8 list option \<Rightarrow> int32 option \<Rightarrow> bsd \<Rightarrow>
     (int32 \<times> uint8 list option \<times> int32 option \<times> bsd) option"
where
  "bs_accept env sk addr addrlen s =
     (let (rc, s1, _) = ensure_engine env s in
      if rc \<noteq> 0 then Some (-1, addr, addrlen, s1)
      else
        do {
          (rv, out, w) \<leftarrow> netstack_accept (ipc_answers env) sk (wld s1);
          let s2 = s1\<lparr>wld := w\<rparr>;
          let (new_sock, pport) = (case out of Some x \<Rightarrow> x | None \<Rightarrow> (-1, 0));
          if rv \<noteq> NETSTACK_OK then Some (-1, addr, addrlen, s2)
          else
            (case (addr, addrlen) of
               (Some p, Some n) \<Rightarrow>
                 if n \<ge> 8 then Some (new_sock, Some (store_sockaddr pport n p), Some 16, s2)
                 else Some (new_sock, addr, addrlen, s2)
             | _ \<Rightarrow> Some (new_sock, addr, addrlen, s2))
        })"

definition bs_send :: "bsd_env \<Rightarrow> int32 \<Rightarrow> uint8 list \<Rightarrow> int32 \<Rightarrow> bsd \<Rightarrow> (int32 \<times> bsd) option" where
  "bs_send env sk buf len s =
     (let (rc, s1, _) = ensure_engine env s in
      if rc \<noteq> 0 then Some (-1, s1)
      else
        do {
          (rv, w) \<leftarrow> netstack_send (ipc_answers env) sk buf len (wld s1);
          Some (if rv \<ge> 0 then rv else -1, s1\<lparr>wld := w\<rparr>)
        })"

definition bs_recv ::
  "bsd_env \<Rightarrow> int32 \<Rightarrow> uint8 list option \<Rightarrow> int32 \<Rightarrow> bsd \<Rightarrow> (int32 \<times> uint8 list option \<times> bsd) option"
where
  "bs_recv env sk buf len s =
     (let (rc, s1, _) = ensure_engine env s in
      if rc \<noteq> 0 then Some (-1, buf, s1)
      else
        do {
          (rv, buf', w) \<leftarrow> netstack_recv (ipc_answers env) sk buf len (wld s1);
          Some (if rv \<ge> 0 then rv else -1, buf', s1\<lparr>wld := w\<rparr>)
        })"

definition bs_CloseSocket :: "bsd_env \<Rightarrow> int32 \<Rightarrow> bsd \<Rightarrow> (int32 \<times> bsd) option" where
  "bs_CloseSocket env sk s =
     (let (rc, s1, _) = ensure_engine env s in
      if rc \<noteq> 0 then Some (-1, s1)
      else
        do {
          (rv, w) \<leftarrow> netstack_close (ipc_answers env) sk (wld s1);
          Some (if rv = NETSTACK_OK then 0 else -1, s1\<lparr>wld := w\<rparr>)
        })"

section \<open>Socket addresses\<close>

lemma port_bytes:
  fixes p :: uint16
  shows "push_bit 8 (ucast (ucast (drop_bit 8 p) :: uint8)) OR ucast (ucast (p AND 0xFF) :: uint8) = p"
proof (rule bit_word_eqI)
  fix n assume n: "n < LENGTH(16)"
  have ff: "bit (0xFF :: uint16) n \<longleftrightarrow> n < 8"
    using bit_mask_iff [of 8 n, where 'a = uint16] n by (auto simp: mask_eq_exp_minus_1 possible_bit_word)
  show "bit (push_bit 8 (ucast (ucast (drop_bit 8 p) :: uint8)) OR ucast (ucast (p AND 0xFF) :: uint8) :: uint16) n = bit p n"
    using n ff by (auto simp: bit_or_iff bit_push_bit_iff bit_and_iff bit_ucast_iff bit_drop_bit_eq possible_bit_word)
qed

lemma store_sockaddr_nth:
  "store_sockaddr pp n p ! 2 = ucast (drop_bit 8 pp)" "store_sockaddr pp n p ! 3 = ucast (pp AND 0xFF)"
  by (simp_all add: store_sockaddr_def blit_def nth_append numeral_eq_Suc)

text \<open>
  C31: the port an accept stores in the caller's address is the port a later connect or bind with
  that address extracts, and the store stays inside the length the caller gave.
\<close>

theorem sockaddr_round_trip:
  assumes "8 \<le> n" "nat n \<le> length p"
  shows "extract_port (Some (store_sockaddr pp n p)) 16 = pp \<and>
    length (store_sockaddr pp n p) = length p \<and> drop (nat n) (store_sockaddr pp n p) = drop (nat n) p"
proof -
  let ?src = "[16, 2, ucast (drop_bit 8 pp), ucast (pp AND 0xFF)] @ replicate (nat (min 16 n - 4)) (0 :: uint8)"
  have len: "length ?src \<le> nat n" using assms(1) by simp
  then have "length (store_sockaddr pp n p) = length p" "drop (nat n) (store_sockaddr pp n p) = drop (nat n) p"
    unfolding store_sockaddr_def using assms(2) by (intro length_blit drop_blit; simp)+
  then show ?thesis by (simp add: extract_port_def store_sockaddr_nth port_bytes)
qed

theorem sockaddr_round_trip_witness:
  "extract_port (Some (store_sockaddr 1234 8 [0, 0, 0, 0, 0, 0, 0, 0, 77])) 16 = 1234 \<and>
   drop 8 (store_sockaddr 1234 8 [0, 0, 0, 0, 0, 0, 0, 0, 77]) = [77]"
  using sockaddr_round_trip [of 8 "[0, 0, 0, 0, 0, 0, 0, 0, 77]" 1234] by simp

section \<open>Open, close, expunge\<close>

fun close_times :: "bsd_env \<Rightarrow> nat \<Rightarrow> bsd \<Rightarrow> (ptr \<times> exec_call list) list \<times> bsd" where
  "close_times env 0 s = ([], s)"
| "close_times env (Suc k) s =
     (case mgr_Close env s of (p, s1, calls) \<Rightarrow>
        (case close_times env k s1 of (outs, s2) \<Rightarrow> ((p, calls) # outs, s2)))"

definition with_opens :: "uint16 \<Rightarrow> bsd \<Rightarrow> bsd" where
  "with_opens n s = s\<lparr>base := (base s)\<lparr>lib_OpenCnt := n\<rparr>\<rparr>"

lemma of_nat_Suc_neq_zero: "n < 65535 \<Longrightarrow> (of_nat (Suc n) :: uint16) \<noteq> 0"
  by (auto simp: word_of_nat_eq_0_iff simp del: of_nat_Suc dest: dvd_imp_le)

lemma close_one:
  assumes "lib_OpenCnt (base s) = of_nat (Suc k)" "0 < k" "k < 65535"
  shows "mgr_Close env s = (NULL, with_opens (of_nat k) s, [])"
proof -
  have "(of_nat k :: uint16) \<noteq> 0" using of_nat_Suc_neq_zero [of "k - 1"] assms(2,3) by simp
  with assms(1) show ?thesis by (simp add: mgr_Close_def with_opens_def Let_def)
qed

lemma with_opens_simps [simp]:
  "with_opens m (with_opens n s) = with_opens m s" "lib_OpenCnt (base (with_opens n s)) = n"
  "lib_Flags (base (with_opens n s)) = lib_Flags (base s)" "seglist (base (with_opens n s)) = seglist (base s)"
  "lib_OpenCnt (base s) = n \<Longrightarrow> with_opens n s = s"
  by (simp_all add: with_opens_def)

lemma close_down:
  "k < 65535 \<Longrightarrow> lib_OpenCnt (base s) = of_nat (Suc k) \<Longrightarrow>
   close_times env k s = (replicate k (NULL, []), with_opens 1 s)"
proof (induction k arbitrary: s)
  case (Suc k)
  from close_one [OF Suc.prems(2)] Suc.prems(1)
  have "mgr_Close env s = (NULL, with_opens (of_nat (Suc k)) s, [])" by simp
  with Suc.IH [of "with_opens (of_nat (Suc k)) s"] Suc.prems(1) show ?case by simp
qed simp

lemma close_times_Suc:
  "close_times env (Suc k) s =
     (fst (close_times env k s) @ [(fst (mgr_Close env (snd (close_times env k s))),
        snd (snd (mgr_Close env (snd (close_times env k s)))))],
      fst (snd (mgr_Close env (snd (close_times env k s)))))"
  by (induction k arbitrary: s) (simp_all add: split_beta)


lemma delexp_clear: "(f AND NOT x) AND x = (0 :: uint8)"
  by (rule bit_word_eqI) (simp add: bit_and_iff bit_not_iff)





definition bsd_twice_open :: bsd where
  "bsd_twice_open =
     \<lparr>base = \<lparr>lib_addr = 0x1000, ln_Type = NT_LIBRARY, ln_Pri = 0, ln_Name = BSDLIBNAME, lib_Flags = 6,
              lib_Version = 4, lib_Revision = 0, lib_IdString = BSDLIBVERSTR, lib_OpenCnt = 2,
              seglist = 0x2000, base_IExec = 0x3000\<rparr>,
      wld = \<lparr>cl = client_zero, eng = engine_init\<rparr>, g_engine_started = False\<rparr>"

definition bsd_boot_env :: bsd_env where
  "bsd_boot_env = \<lparr>start_answers = boot_env, ipc_answers = task_env, stop_reply = 0x500\<rparr>"



text \<open>
  An open after a put-off expunge cancels it: all the closes that follow return NULL and the
  library, the engine and the client stay.
\<close>

theorem open_cancels_expunge:
  assumes "lib_OpenCnt (base s) = of_nat k" "k < 65535" "mgr_Open s = (p, s1)"
  shows "p = lib_addr (base s) \<and> close_times env (Suc k) s1 = (replicate (Suc k) (NULL, []), with_opens 0 s1)"
proof -
  have s1: "s1 = s\<lparr>base := (base s)\<lparr>lib_OpenCnt := of_nat (Suc k), lib_Flags := lib_Flags (base s) AND NOT LIBF_DELEXP\<rparr>\<rparr>"
    "p = lib_addr (base s)"
    using assms(1,3) by (auto simp: mgr_Open_def Let_def add.commute)
  have cnt: "lib_OpenCnt (base s1) = of_nat (Suc k)" by (simp add: s1)
  have flag: "lib_Flags (base s1) AND LIBF_DELEXP = 0" using delexp_clear [of _ LIBF_DELEXP] by (simp add: s1(1))
  have "mgr_Close env (with_opens 1 s1) = (NULL, with_opens 0 s1, [])"
    using flag by (simp add: mgr_Close_def Let_def) (simp add: with_opens_def)
  with close_down [OF assms(2) cnt, of env] s1(2) show ?thesis
    by (simp add: close_times_Suc replicate_append_same del: close_times.simps(2))
qed

theorem open_cancels_expunge_witness:
  "fst (close_times bsd_boot_env 3 (snd (mgr_Open bsd_twice_open))) = [(NULL, []), (NULL, []), (NULL, [])]"
proof -
  have "lib_OpenCnt (base bsd_twice_open) = of_nat 2" by (simp add: bsd_twice_open_def)
  from open_cancels_expunge [OF this _ surjective_pairing, of bsd_boot_env] show ?thesis
    by (simp add: numeral_3_eq_3 numeral_2_eq_2 del: close_times.simps)
qed

section \<open>The lazy engine start\<close>

lemma client_init_rc: "fst (netstack_client_init env c) =
    (if (if g_engine_port c = NULL then env_find_port env else g_engine_port c) \<noteq> NULL then 0 else -1)"
  by (simp add: netstack_client_init_def ensure_engine_port_def Let_def)

text \<open>
  C33: the engine is started at most once: after a call that succeeded, further calls succeed
  and change nothing. When the start succeeded but the port could not be found, every later
  call fails, even if the port could be found by then: the start is refused because the engine
  is already up.
\<close>

theorem ensure_engine_once_or_never:
  assumes "ensure_engine env s = (rc, s1, calls)"
  shows "(rc = 0 \<longrightarrow> ensure_engine env' s1 = (0, s1, [])) \<and>
    (rc \<noteq> 0 \<longrightarrow> g_engine_task (eng (wld s1)) \<noteq> NULL \<longrightarrow> ensure_engine env' s1 = (-1, s1, []))"
proof (cases "g_engine_started s")
  case True
  with assms show ?thesis by (simp add: ensure_engine_def)
next
  case False
  with assms show ?thesis
    by (auto simp: ensure_engine_def NetstackEngine_Start_def [of None "start_answers env'"] split_beta Let_def
        split: if_splits)
qed

theorem ensure_engine_once_or_never_witness:
  "\<exists>s1 calls. ensure_engine (bsd_boot_env\<lparr>ipc_answers := task_env\<lparr>env_find_port := NULL\<rparr>\<rparr>) bsd_twice_open =
     (-1, s1, calls) \<and> ensure_engine bsd_boot_env s1 = (-1, s1, [])"
proof -
  let ?env = "bsd_boot_env\<lparr>ipc_answers := task_env\<lparr>env_find_port := NULL\<rparr>\<rparr>"
  obtain rc s1 calls where e: "ensure_engine ?env bsd_twice_open = (rc, s1, calls)" using prod_cases3 .
  have "rc = -1" "g_engine_task (eng (wld s1)) = 0x200"
    using e
    by (auto simp: ensure_engine_def bsd_twice_open_def bsd_boot_env_def start_boot client_init_rc split_beta
        Let_def task_env_def client_zero_def started_engine_eq)
  with ensure_engine_once_or_never [OF e, of bsd_boot_env] e show ?thesis by auto
qed

end
