(* ===== verification/Osal.thy ===== *)
theory Osal
  imports Prelude
begin

text \<open>
  Memory (\<open>src/phase1_osal/osal_memory.c\<close>) and the book of what the abstraction layer has
  obtained from exec and given back, which the timer and the threads share. Exec's allocator is
  a parameter: from size and alignment to an address, 0 when there is no memory.
\<close>

section \<open>The resource book\<close>

datatype resource = Mem ptr | Port ptr | IORequest ptr | SignalBit int32 | Task ptr

text \<open>\<open>Started t prio\<close> records the priority a task was created with.\<close>

datatype os_event = Got resource | Freed resource | Started ptr int32

fun outstanding :: "os_event list \<Rightarrow> resource list \<Rightarrow> resource list" where
  "outstanding [] held = held"
| "outstanding (Got r # es) held = outstanding es (r # held)"
| "outstanding (Freed r # es) held = outstanding es (remove1 r held)"
| "outstanding (Started t prio # es) held = outstanding es held"

lemma outstanding_append: "outstanding (es @ fs) held = outstanding fs (outstanding es held)"
  by (induction es held rule: outstanding.induct) simp_all

section \<open>Memory\<close>

type_synonym alloc = "uint32 \<Rightarrow> uint32 \<Rightarrow> ptr"

abbreviation (input) ENOMEM :: int32 where "ENOMEM \<equiv> 12"

definition osal_malloc :: "alloc \<Rightarrow> uint32 \<Rightarrow> uint32 \<Rightarrow> ptr" where
  "osal_malloc AllocVecTags sz align = AllocVecTags sz (if align = 0 then 16 else align)"

definition osal_free :: "ptr \<Rightarrow> os_event list" where
  "osal_free p = (if p \<noteq> NULL then [Freed (Mem p)] else [])"

definition osal_dma_malloc :: "alloc \<Rightarrow> uint32 \<Rightarrow> uint32 \<Rightarrow> ptr" where
  "osal_dma_malloc AllocVecTags sz align = osal_malloc AllocVecTags sz align"

definition osal_dma_free :: "ptr \<Rightarrow> os_event list" where
  "osal_dma_free p = osal_free p"

text \<open>The result code and the value of \<open>*memp\<close> after the call.\<close>

definition rumpuser_malloc :: "alloc \<Rightarrow> uint32 \<Rightarrow> int32 \<Rightarrow> ptr \<Rightarrow> int32 \<times> ptr" where
  "rumpuser_malloc AllocVecTags howmuch alignment memp =
     (let p = osal_malloc AllocVecTags howmuch (if alignment > 0 then of_int alignment else 16) in
      if p = NULL then (ENOMEM, memp) else (0, p))"

definition rumpuser_free :: "ptr \<Rightarrow> uint32 \<Rightarrow> os_event list" where
  "rumpuser_free p sz = osal_free p"

definition rumpuser_anonmmap :: "alloc \<Rightarrow> uint32 \<Rightarrow> int32 \<Rightarrow> ptr \<Rightarrow> int32 \<times> ptr" where
  "rumpuser_anonmmap AllocVecTags sz alignbit memp =
     (let align = (if alignbit > 0 then push_bit (nat alignbit) 1 else 4096);
          p = osal_malloc AllocVecTags sz align
      in if p = NULL then (ENOMEM, memp) else (0, p))"

definition rumpuser_unmap :: "ptr \<Rightarrow> uint32 \<Rightarrow> os_event list" where
  "rumpuser_unmap addr sz = osal_free addr"

text \<open>
  An allocator that honours the alignment it is asked for: what it returns is a multiple of
  every power of two it is given.
\<close>

definition aligns :: "alloc \<Rightarrow> bool" where
  "aligns AllocVecTags \<longleftrightarrow> (\<forall>sz k. k < 32 \<longrightarrow> 2 ^ k dvd unat (AllocVecTags sz (2 ^ k)))"

end
