(* ===== verification/CondVar.thy ===== *)
theory CondVar
  imports Engine Fifo Osal
begin

unbundle bit_operations_syntax

text \<open>
  Condition variables (\<open>src/phase1_osal/osal_lock.c\<close>): the ring of waiting tasks, wait, timed
  wait with its polling loop and its removal of the caller from the ring, signal and
  broadcast. Exec's semaphores and signals are the environment: \<open>guard\<close> makes each ring
  operation atomic, and the signals a broadcast or a signal sends are returned as exec calls.
\<close>

abbreviation (input) OSAL_CV_MAX_WAITERS :: int32 where "OSAL_CV_MAX_WAITERS \<equiv> 32"
abbreviation (input) SIGF_SINGLE :: uint32 where "SIGF_SINGLE \<equiv> 0x10"
abbreviation (input) CV_ETIMEDOUT :: int32 where "CV_ETIMEDOUT \<equiv> -60"
abbreviation (input) CV_POLL_NS :: uint64 where "CV_POLL_NS \<equiv> 10000000"

record osal_cv_waiter =
  w_task :: ptr
  w_sigmask :: uint32

record osal_cv =
  waiters :: "osal_cv_waiter list"
  cv_head :: int32
  cv_tail :: int32
  cv_count :: int32

text \<open>\<open>osal_malloc\<close> clears what it allocates.\<close>

definition osal_cv_new :: "ptr \<Rightarrow> osal_cv option" where
  "osal_cv_new mem =
     (if mem = NULL then None
      else Some \<lparr>waiters = replicate (nat OSAL_CV_MAX_WAITERS) \<lparr>w_task = NULL, w_sigmask = 0\<rparr>,
                 cv_head = 0, cv_tail = 0, cv_count = 0\<rparr>)"

text \<open>Queueing the caller, as \<open>osal_cv_wait\<close> and \<open>osal_cv_timedwait\<close> do; \<open>None\<close> is the panic.\<close>

definition cv_enqueue :: "osal_cv_waiter \<Rightarrow> osal_cv \<Rightarrow> osal_cv option" where
  "cv_enqueue w cv =
     (if cv_count cv \<ge> OSAL_CV_MAX_WAITERS then None
      else Some (cv\<lparr>waiters := aset (waiters cv) (cv_head cv) w,
                    cv_head := (cv_head cv + 1) mod OSAL_CV_MAX_WAITERS,
                    cv_count := cv_count cv + 1\<rparr>))"

text \<open>Taking the oldest waiter, as \<open>osal_cv_signal\<close> and \<open>osal_cv_broadcast\<close> do.\<close>

definition cv_dequeue :: "osal_cv \<Rightarrow> (osal_cv_waiter \<times> osal_cv) option" where
  "cv_dequeue cv =
     (if cv_count cv > 0
      then Some (aget (waiters cv) (cv_tail cv),
                 cv\<lparr>cv_tail := (cv_tail cv + 1) mod OSAL_CV_MAX_WAITERS,
                    cv_count := cv_count cv - 1\<rparr>)
      else None)"

definition osal_cv_signal :: "osal_cv \<Rightarrow> osal_cv \<times> exec_call list" where
  "osal_cv_signal cv =
     (case cv_dequeue cv of
        None \<Rightarrow> (cv, [])
      | Some (w, cv') \<Rightarrow> (cv', [Signal (w_task w) (w_sigmask w)]))"

function osal_cv_broadcast :: "osal_cv \<Rightarrow> osal_cv \<times> exec_call list" where
  "osal_cv_broadcast cv =
     (case cv_dequeue cv of
        None \<Rightarrow> (cv, [])
      | Some (w, cv') \<Rightarrow>
          (case osal_cv_broadcast cv' of (cv'', calls) \<Rightarrow>
             (cv'', Signal (w_task w) (w_sigmask w) # calls)))"
  by pat_completeness auto
termination
  by (relation "measure (\<lambda>cv. nat (cv_count cv))") (auto simp: cv_dequeue_def split: if_splits)

section \<open>Timed wait\<close>

text \<open>
  The polling loop: \<open>got i\<close> is what the \<open>i\<close>-th \<open>SetSignal(0, 0)\<close> returns. \<open>None\<close> is a loop that
  never ends, which happens when adding the poll interval wraps around below the timeout.
\<close>

partial_function (option) cv_poll :: "(nat \<Rightarrow> uint32) \<Rightarrow> uint64 \<Rightarrow> uint64 \<Rightarrow> nat \<Rightarrow> int32 option" where
  "cv_poll got timeout_ns elapsed i =
     (if elapsed < timeout_ns
      then if got i AND SIGF_SINGLE \<noteq> 0 then Some 0
           else cv_poll got timeout_ns (elapsed + CV_POLL_NS) (Suc i)
      else Some CV_ETIMEDOUT)"

function cv_find :: "osal_cv_waiter list \<Rightarrow> osal_cv_waiter \<Rightarrow> int32 \<Rightarrow> int32 \<Rightarrow> int32 \<Rightarrow> int32" where
  "cv_find ws w count i idx =
     (if i < count
      then if aget ws idx = w then i else cv_find ws w count (i + 1) ((idx + 1) mod OSAL_CV_MAX_WAITERS)
      else -1)"
  by pat_completeness auto
termination
  by (relation "measure (\<lambda>(ws, w, count, i, idx). nat (count - i))") auto

function cv_shift :: "osal_cv_waiter list \<Rightarrow> int32 \<Rightarrow> int32 \<Rightarrow> int32 \<Rightarrow> osal_cv_waiter list" where
  "cv_shift ws tail j m =
     (if j < m
      then let a = (tail + j) mod OSAL_CV_MAX_WAITERS; b = (a + 1) mod OSAL_CV_MAX_WAITERS
           in cv_shift (aset ws a (aget ws b)) tail (j + 1) m
      else ws)"
  by pat_completeness auto
termination
  by (relation "measure (\<lambda>(ws, tail, j, m). nat (m - j))") auto

definition cv_remove :: "osal_cv_waiter \<Rightarrow> osal_cv \<Rightarrow> osal_cv" where
  "cv_remove w cv =
     (let i = cv_find (waiters cv) w (cv_count cv) 0 (cv_tail cv) in
      if i < 0 then cv
      else cv\<lparr>waiters := cv_shift (waiters cv) (cv_tail cv) i (cv_count cv - 1),
              cv_head := (cv_head cv - 1 + OSAL_CV_MAX_WAITERS) mod OSAL_CV_MAX_WAITERS,
              cv_count := cv_count cv - 1\<rparr>)"

text \<open>
  \<open>osal_cv_timedwait\<close> in two parts around the time the caller sleeps and polls: what it does
  on entry, and what it does to the ring as other tasks left it, with the value it returns.
\<close>

definition cv_self :: "ptr \<Rightarrow> osal_cv_waiter" where
  "cv_self me = \<lparr>w_task = me, w_sigmask = SIGF_SINGLE\<rparr>"

definition osal_cv_wait_enter :: "ptr \<Rightarrow> osal_cv \<Rightarrow> osal_cv option" where
  "osal_cv_wait_enter me cv = cv_enqueue (cv_self me) cv"

definition osal_cv_timedwait_leave ::
  "ptr \<Rightarrow> (nat \<Rightarrow> uint32) \<Rightarrow> uint64 \<Rightarrow> osal_cv \<Rightarrow> (int32 \<times> osal_cv) option"
where
  "osal_cv_timedwait_leave me got timeout_ns cv =
     (case cv_poll got timeout_ns 0 0 of
        None \<Rightarrow> None
      | Some rv \<Rightarrow> Some (rv, if rv \<noteq> 0 then cv_remove (cv_self me) cv else cv))"

definition rumpuser_cv_timeout :: "int \<Rightarrow> int \<Rightarrow> uint64" where
  "rumpuser_cv_timeout sec nsec = of_int sec * 1000000000 + of_int nsec"

section \<open>The rump kernel's calls\<close>

definition osal_cv_free :: "ptr \<Rightarrow> os_event list" where
  "osal_cv_free cv = (if cv = NULL then [] else osal_free cv)"

definition rumpuser_cv_init :: "ptr \<Rightarrow> osal_cv option" where
  "rumpuser_cv_init mem = osal_cv_new mem"

definition rumpuser_cv_destroy :: "ptr \<Rightarrow> os_event list" where
  "rumpuser_cv_destroy cv = osal_cv_free cv"

definition rumpuser_cv_signal :: "osal_cv \<Rightarrow> osal_cv \<times> exec_call list" where
  "rumpuser_cv_signal cv = osal_cv_signal cv"

definition rumpuser_cv_broadcast :: "osal_cv \<Rightarrow> osal_cv \<times> exec_call list" where
  "rumpuser_cv_broadcast cv = osal_cv_broadcast cv"

text \<open>Always 0, whatever the ring holds.\<close>

definition rumpuser_cv_has_waiters :: "osal_cv \<Rightarrow> int32" where
  "rumpuser_cv_has_waiters cv = 0"

section \<open>The waiting tasks\<close>

definition cv_wf :: "osal_cv \<Rightarrow> bool" where
  "cv_wf cv \<longleftrightarrow>
     int (length (waiters cv)) = OSAL_CV_MAX_WAITERS \<and>
     0 \<le> cv_tail cv \<and> cv_tail cv < OSAL_CV_MAX_WAITERS \<and>
     0 \<le> cv_count cv \<and> cv_count cv \<le> OSAL_CV_MAX_WAITERS \<and>
     cv_head cv = (cv_tail cv + cv_count cv) mod OSAL_CV_MAX_WAITERS"

text \<open>The waiting tasks, longest waiting first.\<close>

definition cv_waiting :: "osal_cv \<Rightarrow> osal_cv_waiter list" where
  "cv_waiting cv = window (waiters cv) (nat (cv_tail cv)) (nat (cv_count cv))"

section \<open>Tasks around one condition variable\<close>

text \<open>
  Where a task is in \<open>osal_cv_wait\<close> or \<open>osal_cv_timedwait\<close>: queued but still holding the
  mutex, asleep in \<open>Wait\<close>, polling, or past its wait and about to lock the mutex again.
  \<open>sys_sig\<close> is the pending state of each task's \<open>SIGF_SINGLE\<close>; \<open>sys_owed\<close> are the \<open>Signal\<close> calls
  whose waiter has left the ring and which have not been made yet: \<open>osal_cv_signal\<close> calls
  \<open>Signal\<close> after it has released \<open>guard\<close>. \<open>osal_cv_broadcast\<close> calls it before; letting its
  calls be late as well only adds behaviours.
\<close>

datatype cv_pc = Run | Queued | Asleep | TQueued | Polling | Woken

record cv_sys =
  sys_cv :: osal_cv
  sys_pc :: "ptr \<Rightarrow> cv_pc"
  sys_sig :: "ptr \<Rightarrow> bool"
  sys_owed :: "exec_call list"
  sys_mtx :: "ptr option"

fun deliver :: "exec_call list \<Rightarrow> (ptr \<Rightarrow> bool) \<Rightarrow> ptr \<Rightarrow> bool" where
  "deliver [] sg = sg"
| "deliver (Signal t m # cs) sg = deliver cs (if m AND SIGF_SINGLE \<noteq> 0 then sg(t := True) else sg)"
| "deliver (c # cs) sg = deliver cs sg"

text \<open>The next thing that happens, and to whom.\<close>

datatype cv_act =
    Lock ptr | Unlock ptr | Wait_enter ptr | Sleep ptr | Wake ptr
  | Timed_enter ptr | Poll ptr | Polled ptr | Timeout ptr | Relock ptr
  | Do_signal | Do_broadcast | Send_owed nat

text \<open>
  The source clears the signal before it queues the caller. The two are one step here: a \<open>Signal\<close> between
  them leaves the signal pending for a caller that is then queued, as the same \<open>Signal\<close> does a
  moment later, and \<open>Send_owed\<close> may come at any moment.
\<close>

definition enter_wait :: "ptr \<Rightarrow> cv_pc \<Rightarrow> cv_sys \<Rightarrow> cv_sys option" where
  "enter_wait t pc s =
     (if sys_pc s t = Run \<and> sys_mtx s = Some t then
        (case osal_cv_wait_enter t (sys_cv s) of
           None \<Rightarrow> None
         | Some cv \<Rightarrow> Some (s\<lparr>sys_cv := cv, sys_sig := (sys_sig s)(t := False), sys_pc := (sys_pc s)(t := pc)\<rparr>))
      else None)"

definition leave_mutex :: "ptr \<Rightarrow> cv_pc \<Rightarrow> cv_pc \<Rightarrow> cv_sys \<Rightarrow> cv_sys option" where
  "leave_mutex t pc pc' s =
     (if sys_pc s t = pc then Some (s\<lparr>sys_mtx := None, sys_pc := (sys_pc s)(t := pc')\<rparr>) else None)"

definition take_signal :: "ptr \<Rightarrow> cv_pc \<Rightarrow> cv_sys \<Rightarrow> cv_sys option" where
  "take_signal t pc s =
     (if sys_pc s t = pc \<and> sys_sig s t
      then Some (s\<lparr>sys_sig := (sys_sig s)(t := False), sys_pc := (sys_pc s)(t := Woken)\<rparr>) else None)"

definition queue_calls :: "osal_cv \<times> exec_call list \<Rightarrow> cv_sys \<Rightarrow> cv_sys" where
  "queue_calls r s = s\<lparr>sys_cv := fst r, sys_owed := sys_owed s @ snd r\<rparr>"

fun cv_do :: "cv_act \<Rightarrow> cv_sys \<Rightarrow> cv_sys option" where
  "cv_do (Lock t) s =
     (if sys_pc s t = Run \<and> sys_mtx s = None then Some (s\<lparr>sys_mtx := Some t\<rparr>) else None)"
| "cv_do (Unlock t) s =
     (if sys_pc s t = Run \<and> sys_mtx s = Some t then Some (s\<lparr>sys_mtx := None\<rparr>) else None)"
| "cv_do (Wait_enter t) s = enter_wait t Queued s"
| "cv_do (Sleep t) s = leave_mutex t Queued Asleep s"
| "cv_do (Wake t) s = take_signal t Asleep s"
| "cv_do (Timed_enter t) s = enter_wait t TQueued s"
| "cv_do (Poll t) s = leave_mutex t TQueued Polling s"
| "cv_do (Polled t) s = take_signal t Polling s"
| "cv_do (Timeout t) s =
     (if sys_pc s t = Polling
      then Some (s\<lparr>sys_cv := cv_remove (cv_self t) (sys_cv s), sys_pc := (sys_pc s)(t := Woken)\<rparr>) else None)"
| "cv_do (Relock t) s =
     (if sys_pc s t = Woken \<and> sys_mtx s = None
      then Some (s\<lparr>sys_mtx := Some t, sys_pc := (sys_pc s)(t := Run)\<rparr>) else None)"
| "cv_do Do_signal s = Some (queue_calls (osal_cv_signal (sys_cv s)) s)"
| "cv_do Do_broadcast s = Some (queue_calls (osal_cv_broadcast (sys_cv s)) s)"
| "cv_do (Send_owed i) s =
     (if i < length (sys_owed s)
      then Some (s\<lparr>sys_sig := deliver [sys_owed s ! i] (sys_sig s),
                   sys_owed := take i (sys_owed s) @ drop (Suc i) (sys_owed s)\<rparr>) else None)"

text \<open>The rump kernel's waits are \<open>osal_cv_wait\<close>, here up to the point where it has queued the task.\<close>

definition rumpuser_cv_wait :: "ptr \<Rightarrow> cv_sys \<Rightarrow> cv_sys option" where
  "rumpuser_cv_wait t s = enter_wait t Queued s"

definition rumpuser_cv_wait_nowrap :: "ptr \<Rightarrow> cv_sys \<Rightarrow> cv_sys option" where
  "rumpuser_cv_wait_nowrap t s = enter_wait t Queued s"

definition cv_boot :: "cv_sys \<Rightarrow> bool" where
  "cv_boot s \<longleftrightarrow> (\<exists>mem. osal_cv_new mem = Some (sys_cv s)) \<and> sys_pc s = (\<lambda>_. Run)"

inductive cv_reach :: "cv_sys \<Rightarrow> bool" where
  cv_start: "cv_boot s \<Longrightarrow> cv_reach s"
| cv_next: "cv_reach s \<Longrightarrow> cv_do a s = Some s' \<Longrightarrow> cv_reach s'"

definition in_wait :: "cv_pc \<Rightarrow> bool" where
  "in_wait pc \<longleftrightarrow> pc \<in> {Queued, Asleep, TQueued, Polling}"

text \<open>A task is looked after when it is queued, or its signal is pending or about to be sent.\<close>

definition looked_after :: "cv_sys \<Rightarrow> ptr \<Rightarrow> bool" where
  "looked_after s t \<longleftrightarrow> cv_self t \<in> set (cv_waiting (sys_cv s)) \<or> deliver (sys_owed s) (sys_sig s) t"

definition cv_inv :: "cv_sys \<Rightarrow> bool" where
  "cv_inv s \<longleftrightarrow> cv_wf (sys_cv s) \<and> (\<forall>t. in_wait (sys_pc s t) \<longrightarrow> looked_after s t)"

section \<open>The waiter ring\<close>

lemma cv_head_slot:
  assumes "cv_wf cv"
  shows "nat (cv_head cv) = (nat (cv_tail cv) + nat (cv_count cv)) mod length (waiters cv)"
proof -
  from assms have "length (waiters cv) = 32" by (simp add: cv_wf_def)
  with assms show ?thesis unfolding cv_wf_def by (simp add: nat_mod_distrib nat_add_distrib)
qed

interpretation cvq: ring_queue cv_wf waiters "\<lambda>cv. nat (cv_tail cv)" "\<lambda>cv. nat (cv_count cv)"
  cv_enqueue cv_dequeue
proof (unfold_locales, goal_cases)
  case (1 q)
  then show ?case by (auto simp: cv_wf_def)
next
  case (2 q x)
  then show ?case by (auto simp: cv_wf_def cv_enqueue_def)
next
  case (3 q x q')
  then have q': "q' = q\<lparr>waiters := aset (waiters q) (cv_head q) x,
      cv_head := (cv_head q + 1) mod 32, cv_count := cv_count q + 1\<rparr>" and lt: "cv_count q < 32"
    by (auto simp: cv_enqueue_def split: if_splits)
  have "cv_wf q'" using 3(1) lt by (auto simp: q' cv_wf_def ring_push_tail)
  moreover have "0 \<le> cv_count q" using 3(1) by (simp add: cv_wf_def)
  ultimately show ?case using cv_head_slot [OF 3(1)] by (simp add: q' aset_def)
next
  case (4 q)
  then show ?case by (auto simp: cv_wf_def cv_dequeue_def)
next
  case (5 q x q')
  then have q': "q' = q\<lparr>cv_tail := (cv_tail q + 1) mod 32, cv_count := cv_count q - 1\<rparr>"
    and x: "x = aget (waiters q) (cv_tail q)" and ne: "0 < cv_count q"
    by (auto simp: cv_dequeue_def split: if_splits)
  have bounds: "0 \<le> cv_tail q" "cv_tail q < 32" and len: "length (waiters q) = 32"
    using 5(1) by (auto simp: cv_wf_def)
  from bounds have "nat ((cv_tail q + 1) mod 32) = Suc (nat (cv_tail q)) mod 32"
    by (simp add: nat_mod_distrib Suc_nat_eq_nat_zadd1 add.commute)
  moreover from bounds have "nat (cv_tail q) mod 32 = nat (cv_tail q)" by simp
  moreover have "cv_wf q'" using 5(1) ne by (auto simp: q' cv_wf_def ring_pop_tail)
  ultimately show ?case using bounds len ne by (auto simp: q' x aget_def)
qed

lemma cv_waiting_enqueue:
  "cv_wf cv \<Longrightarrow> cv_enqueue w cv = Some cv' \<Longrightarrow> cv_wf cv' \<and> cv_waiting cv' = cv_waiting cv @ [w]"
  using cvq.fifo.push_some [of cv w cv'] by (simp add: cv_waiting_def)

lemma cv_waiting_dequeue:
  "cv_wf cv \<Longrightarrow> cv_dequeue cv = Some (w, cv') \<Longrightarrow> cv_wf cv' \<and> cv_waiting cv = w # cv_waiting cv'"
  using cvq.fifo.pop_some [of cv w cv'] by (simp add: cv_waiting_def)

lemma cv_waiting_none: "cv_wf cv \<Longrightarrow> cv_dequeue cv = None \<longleftrightarrow> cv_waiting cv = []"
  using cvq.fifo.pop_empty [of cv] by (simp add: cv_waiting_def)

section \<open>Removing a waiter\<close>

declare cv_find.simps [simp del] cv_shift.simps [simp del] osal_cv_broadcast.simps [simp del]

lemma cv_find_search:
  "idx = (tail + i) mod OSAL_CV_MAX_WAITERS \<Longrightarrow>
   cv_find ws w count i idx = c_search (\<lambda>k. aget ws ((tail + k) mod OSAL_CV_MAX_WAITERS) = w) i count"
proof (induction ws w count i idx rule: cv_find.induct)
  case (1 ws w count i idx)
  consider "count \<le> i" | "i < count" "aget ws idx = w" | "i < count" "aget ws idx \<noteq> w" by linarith
  then show ?case
  proof cases
    case 3
    then have "cv_find ws w count (i + 1) ((idx + 1) mod 32) =
        c_search (\<lambda>k. aget ws ((tail + k) mod 32) = w) (i + 1) count"
      using "1.IH" "1.prems" by (simp add: ring_push_tail)
    with 3 "1.prems" show ?thesis by (subst cv_find.simps) (simp add: c_search_miss)
  qed (use "1.prems" in \<open>simp_all add: cv_find.simps c_search_hit\<close>)
qed

lemma slot_inj:
  assumes "(tail + j) mod 32 = (tail + k) mod (32 :: int)" "0 \<le> j" "j < 32" "0 \<le> k" "k < 32"
  shows "j = k"
proof -
  have "(j - k) mod 32 = 0"
    using assms(1) by (metis add_diff_cancel_left mod_diff_cong mod_diff_eq cancel_comm_monoid_add_class.diff_cancel mod_0)
  then obtain d where "j - k = 32 * d" by (metis dvd_eq_mod_eq_0 dvd_def)
  then show ?thesis using assms(2-) by presburger
qed

lemma aget_cv_shift:
  assumes "length ws = 32" "0 \<le> j" "m < 32" "0 \<le> k" "k < 32"
  shows "aget (cv_shift ws tail j m) ((tail + k) mod 32) =
    (if j \<le> k \<and> k < m then aget ws ((tail + (k + 1)) mod 32) else aget ws ((tail + k) mod 32))"
  using assms
proof (induction ws tail j m rule: cv_shift.induct)
  case (1 ws tail j m)
  show ?case
  proof (cases "j < m")
    case False
    then show ?thesis by (auto simp: cv_shift.simps)
  next
    case True
    let ?a = "(tail + j) mod 32"
    let ?ws = "aset ws ?a (aget ws ((tail + (j + 1)) mod 32))"
    have step: "cv_shift ws tail j m = cv_shift ?ws tail (j + 1) m"
      using True by (subst cv_shift.simps) (simp add: Let_def ring_push_tail)
    have get: "aget ?ws ((tail + l) mod 32) =
        (if l = j then aget ws ((tail + (j + 1)) mod 32) else aget ws ((tail + l) mod 32))"
      if "0 \<le> l" "l < 32" for l
      using "1.prems" True that slot_inj [of tail j l] by (auto simp: aget_aset in_bounds_def)
    have "aget (cv_shift ?ws tail (j + 1) m) ((tail + k) mod 32) =
        (if j + 1 \<le> k \<and> k < m then aget ?ws ((tail + (k + 1)) mod 32) else aget ?ws ((tail + k) mod 32))"
      using "1.IH" [OF True refl refl] "1.prems" by (simp add: ring_push_tail)
    then show ?thesis using get [of k] get [of "k + 1"] "1.prems" True by (auto simp: step)
  qed
qed

lemma length_cv_shift: "length (cv_shift ws tail j m) = length ws"
  by (induction ws tail j m rule: cv_shift.induct) (subst cv_shift.simps, simp add: Let_def)

lemma remove1_first:
  assumes "i < length xs" "xs ! i = x" "\<And>j. j < i \<Longrightarrow> xs ! j \<noteq> x"
  shows "remove1 x xs = take i xs @ drop (Suc i) xs"
proof -
  have "x \<notin> set (take i xs)" using assms by (auto simp: in_set_conv_nth)
  moreover have "xs = take i xs @ x # drop (Suc i) xs" using assms(1,2) by (metis id_take_nth_drop)
  ultimately show ?thesis by (metis remove1_append remove1.simps(2))
qed

lemma nth_cv_waiting:
  assumes "cv_wf cv" "int k < cv_count cv"
  shows "cv_waiting cv ! k = aget (waiters cv) ((cv_tail cv + int k) mod 32)"
  using assms by (simp add: cv_waiting_def nth_window cv_wf_def aget_def nat_mod_distrib nat_add_distrib)

lemma length_cv_waiting: "cv_wf cv \<Longrightarrow> int (length (cv_waiting cv)) = cv_count cv"
  by (simp add: cv_waiting_def cv_wf_def)

lemma cv_remove_waiting:
  assumes wf: "cv_wf cv"
  shows "cv_wf (cv_remove w cv) \<and> cv_waiting (cv_remove w cv) = remove1 w (cv_waiting cv)"
proof -
  let ?P = "\<lambda>k. aget (waiters cv) ((cv_tail cv + k) mod 32) = w"
  have "cv_tail cv = (cv_tail cv + 0) mod 32" using wf by (simp add: cv_wf_def)
  note find = cv_find_search [OF this, of "waiters cv" w "cv_count cv"]
  note len = length_cv_waiting [OF wf]
  show ?thesis
  proof (cases rule: c_search_cases [of ?P 0 "cv_count cv"])
    case none
    have "cv_waiting cv ! k \<noteq> w" if "k < length (cv_waiting cv)" for k
      using none(2) [of "int k"] that nth_cv_waiting [OF wf, of k] len by simp
    then have "w \<notin> set (cv_waiting cv)" by (auto simp: in_set_conv_nth)
    with none(1) find wf show ?thesis by (simp add: cv_remove_def remove1_idem)
  next
    case (found i)
    let ?cv = "cv\<lparr>waiters := cv_shift (waiters cv) (cv_tail cv) i (cv_count cv - 1),
        cv_head := (cv_head cv - 1 + 32) mod 32, cv_count := cv_count cv - 1\<rparr>"
    have rem: "cv_remove w cv = ?cv" using found find by (simp add: cv_remove_def)
    have head: "(31 + (cv_tail cv + cv_count cv) mod 32) mod 32 = (cv_tail cv + (cv_count cv - 1)) mod 32"
      using ring_pred_tail [of "cv_tail cv" "cv_count cv" 32] by (simp add: add.commute)
    have wf': "cv_wf ?cv"
      using wf found(2,3) unfolding cv_wf_def by (simp add: length_cv_shift head)
    have first: "cv_waiting cv ! nat i = w" "\<And>j. j < nat i \<Longrightarrow> cv_waiting cv ! j \<noteq> w"
      using found nth_cv_waiting [OF wf] by auto
    have "cv_waiting ?cv = take (nat i) (cv_waiting cv) @ drop (Suc (nat i)) (cv_waiting cv)"
    proof (rule nth_equalityI)
      show "length (cv_waiting ?cv) = length (take (nat i) (cv_waiting cv) @ drop (Suc (nat i)) (cv_waiting cv))"
        using length_cv_waiting [OF wf'] len found(2,3) by simp
      fix k assume "k < length (cv_waiting ?cv)"
      then have k: "int k < cv_count cv - 1" using length_cv_waiting [OF wf'] by simp
      have "cv_waiting ?cv ! k =
          aget (cv_shift (waiters cv) (cv_tail cv) i (cv_count cv - 1)) ((cv_tail cv + int k) mod 32)"
        using nth_cv_waiting [OF wf', of k] k by simp
      also have "\<dots> = (if i \<le> int k \<and> int k < cv_count cv - 1
          then aget (waiters cv) ((cv_tail cv + (int k + 1)) mod 32)
          else aget (waiters cv) ((cv_tail cv + int k) mod 32))"
        by (rule aget_cv_shift) (use wf found(2,3) k in \<open>auto simp: cv_wf_def\<close>)
      also have "\<dots> = cv_waiting cv ! (if nat i \<le> k then Suc k else k)"
        using k nth_cv_waiting [OF wf, of "Suc k"] nth_cv_waiting [OF wf, of k]
        by (simp add: nat_le_iff add.commute [of 1])
      finally have "cv_waiting ?cv ! k = cv_waiting cv ! (if nat i \<le> k then Suc k else k)" .
      then show "cv_waiting ?cv ! k = (take (nat i) (cv_waiting cv) @ drop (Suc (nat i)) (cv_waiting cv)) ! k"
        using k len found(2,3) by (auto simp: nth_append)
    qed
    also have "\<dots> = remove1 w (cv_waiting cv)"
      using remove1_first [OF _ first] len found(2,3) by simp
    finally show ?thesis using wf' rem by simp
  qed
qed

section \<open>Signals reach the right tasks\<close>

lemma cv_broadcast_waiting:
  "cv_wf cv \<Longrightarrow> osal_cv_broadcast cv = (cv', calls) \<Longrightarrow>
   cv_wf cv' \<and> cv_waiting cv' = [] \<and> calls = map (\<lambda>w. Signal (w_task w) (w_sigmask w)) (cv_waiting cv)"
proof (induction cv arbitrary: cv' calls rule: osal_cv_broadcast.induct)
  case (1 cv)
  show ?case
  proof (cases "cv_dequeue cv")
    case None
    with "1.prems" cv_waiting_none [of cv] show ?thesis by (simp add: osal_cv_broadcast.simps [of cv])
  next
    case (Some x)
    then obtain w cv1 where d: "cv_dequeue cv = Some (w, cv1)" by (cases x) simp
    obtain cv2 calls2 where b: "osal_cv_broadcast cv1 = (cv2, calls2)" by fastforce
    from cv_waiting_dequeue [OF "1.prems"(1) d] "1.IH" [OF d refl _ b] "1.prems"(2) d b show ?thesis
      by (simp add: osal_cv_broadcast.simps [of cv])
  qed
qed

lemma cv_signal_waiting:
  assumes "cv_wf cv" "osal_cv_signal cv = (cv', calls)"
  shows "cv_wf cv' \<and> (cv_waiting cv = [] \<and> cv' = cv \<and> calls = [] \<or>
    (\<exists>w. cv_waiting cv = w # cv_waiting cv' \<and> calls = [Signal (w_task w) (w_sigmask w)]))"
  using assms cv_waiting_none [OF assms(1)] cv_waiting_dequeue [OF assms(1)]
  by (auto simp: osal_cv_signal_def split: option.splits)

lemma deliver_iff: "deliver calls sg t \<longleftrightarrow> sg t \<or> (\<exists>m. Signal t m \<in> set calls \<and> m AND SIGF_SINGLE \<noteq> 0)"
  by (induction calls sg rule: deliver.induct) auto

lemma cv_self_inj [simp]: "cv_self t = cv_self t' \<longleftrightarrow> t = t'"
  by (simp add: cv_self_def)

lemma cv_self_sel [simp]: "w_task (cv_self t) = t" "w_sigmask (cv_self t) = SIGF_SINGLE"
  by (simp_all add: cv_self_def)

section \<open>No waiting task is forgotten\<close>

lemma in_wait_simps [simp]:
  "in_wait Queued" "in_wait Asleep" "in_wait TQueued" "in_wait Polling" "\<not> in_wait Run" "\<not> in_wait Woken"
  by (simp_all add: in_wait_def)

lemma osal_cv_new_wf: "osal_cv_new mem = Some cv \<Longrightarrow> cv_wf cv \<and> cv_waiting cv = []"
  by (auto simp: osal_cv_new_def cv_wf_def cv_waiting_def split: if_splits)

lemma cv_inv_boot: "cv_boot s \<Longrightarrow> cv_inv s"
  by (auto simp: cv_boot_def cv_inv_def dest: osal_cv_new_wf)

lemma cv_inv_enter:
  assumes "cv_inv s" "enter_wait t pc s = Some s'"
  shows "cv_inv s'"
proof -
  obtain cv where cv: "osal_cv_wait_enter t (sys_cv s) = Some cv"
    and s': "s' = s\<lparr>sys_cv := cv, sys_sig := (sys_sig s)(t := False), sys_pc := (sys_pc s)(t := pc)\<rparr>"
    using assms(2) by (auto simp: enter_wait_def split: if_splits option.splits)
  have "cv_wf cv \<and> cv_waiting cv = cv_waiting (sys_cv s) @ [cv_self t]"
    by (rule cv_waiting_enqueue) (use cv assms(1) in \<open>simp_all add: osal_cv_wait_enter_def cv_inv_def\<close>)
  with assms(1) show ?thesis by (auto simp: s' cv_inv_def looked_after_def deliver_iff)
qed

lemma cv_inv_leave: "cv_inv s \<Longrightarrow> leave_mutex t pc pc' s = Some s' \<Longrightarrow> in_wait pc \<Longrightarrow> cv_inv s'"
  by (auto simp: leave_mutex_def cv_inv_def looked_after_def split: if_splits)

lemma cv_inv_take: "cv_inv s \<Longrightarrow> take_signal t pc s = Some s' \<Longrightarrow> cv_inv s'"
  by (auto simp: take_signal_def cv_inv_def looked_after_def deliver_iff split: if_splits)

lemma cv_inv_timeout:
  assumes "cv_inv s"
  shows "cv_inv (s\<lparr>sys_cv := cv_remove (cv_self t) (sys_cv s), sys_pc := (sys_pc s)(t := Woken)\<rparr>)"
proof -
  have "cv_wf (cv_remove (cv_self t) (sys_cv s)) \<and>
      cv_waiting (cv_remove (cv_self t) (sys_cv s)) = remove1 (cv_self t) (cv_waiting (sys_cv s))"
    using cv_remove_waiting assms by (simp add: cv_inv_def)
  with assms show ?thesis by (auto simp: cv_inv_def looked_after_def)
qed

lemma call_of_self: "cv_self t = w \<Longrightarrow> Signal (w_task w) (w_sigmask w) = Signal t SIGF_SINGLE"
  by auto

lemma cv_inv_signal: "cv_inv s \<Longrightarrow> cv_inv (queue_calls (osal_cv_signal (sys_cv s)) s)"
  using cv_signal_waiting [of "sys_cv s", OF _ surjective_pairing] call_of_self
  by (fastforce simp: cv_inv_def looked_after_def deliver_iff queue_calls_def)

lemma cv_inv_broadcast: "cv_inv s \<Longrightarrow> cv_inv (queue_calls (osal_cv_broadcast (sys_cv s)) s)"
  using cv_broadcast_waiting [of "sys_cv s", OF _ surjective_pairing]
  by (force simp: cv_inv_def looked_after_def deliver_iff queue_calls_def)

lemma cv_inv_send:
  assumes "cv_inv s" "i < length (sys_owed s)"
  shows "cv_inv (s\<lparr>sys_sig := deliver [sys_owed s ! i] (sys_sig s),
    sys_owed := take i (sys_owed s) @ drop (Suc i) (sys_owed s)\<rparr>)"
proof -
  have "set (sys_owed s) = insert (sys_owed s ! i) (set (take i (sys_owed s) @ drop (Suc i) (sys_owed s)))"
    using arg_cong [OF id_take_nth_drop [OF assms(2)], of set] by simp
  then have "deliver (take i (sys_owed s) @ drop (Suc i) (sys_owed s)) (deliver [sys_owed s ! i] (sys_sig s)) =
      deliver (sys_owed s) (sys_sig s)" by (auto simp: fun_eq_iff deliver_iff simp del: set_append)
  with assms(1) show ?thesis by (simp add: cv_inv_def looked_after_def)
qed

lemma cv_inv_step: "cv_do a s = Some s' \<Longrightarrow> cv_inv s \<Longrightarrow> cv_inv s'"
proof (induction a s rule: cv_do.induct)
  case (1 t s)
  then show ?case by (auto simp: cv_inv_def looked_after_def split: if_splits)
next
  case (2 t s)
  then show ?case by (auto simp: cv_inv_def looked_after_def split: if_splits)
next
  case (9 t s)
  then show ?case by (auto dest: cv_inv_timeout split: if_splits)
next
  case (10 t s)
  then show ?case by (auto simp: cv_inv_def looked_after_def split: if_splits)
next
  case (13 i s)
  then show ?case by (auto dest: cv_inv_send split: if_splits)
qed (auto dest: cv_inv_enter cv_inv_leave cv_inv_take cv_inv_signal cv_inv_broadcast)

lemma cv_reach_inv: "cv_reach s \<Longrightarrow> cv_inv s"
  by (induction rule: cv_reach.induct) (auto intro: cv_inv_boot cv_inv_step)

section \<open>The polling loop ends\<close>

lemma from_Suc:
  fixes i :: nat
  assumes "\<not> P i"
  shows "(\<exists>k\<ge>Suc i. P k) \<longleftrightarrow> (\<exists>k\<ge>i. P k)"
  using assms by (metis Suc_leD le_antisym not_less_eq_eq)

lemma cv_poll_from:
  assumes "unat timeout + 10000000 \<le> 2 ^ 64" "i * 10000000 < 2 ^ 64"
  shows "cv_poll got timeout (of_nat (i * 10000000)) i =
    Some (if \<exists>k\<ge>i. k * 10000000 < unat timeout \<and> got k AND SIGF_SINGLE \<noteq> 0 then 0 else CV_ETIMEDOUT)"
  using assms(2)
proof (induction "unat timeout - i * 10000000" arbitrary: i rule: less_induct)
  case less
  have lt: "(of_nat (i * 10000000) :: uint64) < timeout \<longleftrightarrow> i * 10000000 < unat timeout"
    using less.prems by (simp add: word_less_nat_alt unat_of_nat del: of_nat_mult)
  show ?case
  proof (cases "i * 10000000 < unat timeout")
    case False
    then have "\<not> k * 10000000 < unat timeout" if "i \<le> k" for k
      using mult_le_mono1 [OF that, of 10000000] by linarith
    with False lt show ?thesis by (subst cv_poll.simps) auto
  next
    case True
    show ?thesis
    proof (cases "got i AND SIGF_SINGLE \<noteq> 0")
      case hit: True
      with True lt show ?thesis by (subst cv_poll.simps) auto
    next
      case False
      have "cv_poll got timeout (of_nat (i * 10000000)) i = cv_poll got timeout (of_nat (Suc i * 10000000)) (Suc i)"
        using True False lt by (subst cv_poll.simps) (simp add: algebra_simps)
      also have "\<dots> = Some (if \<exists>k\<ge>Suc i. k * 10000000 < unat timeout \<and> got k AND SIGF_SINGLE \<noteq> 0 then 0 else CV_ETIMEDOUT)"
      proof (rule less.hyps)
        have arith: "t - (p + x) < t - x" "t + p \<le> b \<Longrightarrow> p + x < b" if "x < t" "0 < p" for t x p b :: nat
          using that by linarith+
        show "unat timeout - Suc i * 10000000 < unat timeout - i * 10000000"
          unfolding mult_Suc by (rule arith(1) [OF True]) simp
        show "Suc i * 10000000 < 2 ^ 64"
          unfolding mult_Suc by (rule arith(2) [OF True _ assms(1)]) simp
      qed
      also have "(\<exists>k\<ge>Suc i. k * 10000000 < unat timeout \<and> got k AND SIGF_SINGLE \<noteq> 0) \<longleftrightarrow>
          (\<exists>k\<ge>i. k * 10000000 < unat timeout \<and> got k AND SIGF_SINGLE \<noteq> 0)"
        by (rule from_Suc) (use False in simp)
      finally show ?thesis .
    qed
  qed
qed

section \<open>Properties\<close>

definition cv_empty :: osal_cv where
  "cv_empty = the (osal_cv_new 0x40)"

definition cv_start_sys :: cv_sys where
  "cv_start_sys = \<lparr>sys_cv = cv_empty, sys_pc = (\<lambda>_. Run), sys_sig = (\<lambda>_. False), sys_owed = [], sys_mtx = None\<rparr>"

fun cv_run :: "cv_act list \<Rightarrow> cv_sys \<Rightarrow> cv_sys option" where
  "cv_run [] s = Some s"
| "cv_run (a # as) s = (case cv_do a s of None \<Rightarrow> None | Some s' \<Rightarrow> cv_run as s')"

lemma cv_run_reach: "cv_run as s = Some s' \<Longrightarrow> cv_reach s \<Longrightarrow> cv_reach s'"
  by (induction as arbitrary: s) (auto split: option.splits intro: cv_next)

lemma cv_start_sys_reach: "cv_reach cv_start_sys"
  by (rule cv_start) (auto simp: cv_boot_def cv_start_sys_def cv_empty_def osal_cv_new_def intro!: exI [of _ "0x40"])

lemmas cv_eval = cv_start_sys_def cv_empty_def osal_cv_new_def enter_wait_def leave_mutex_def take_signal_def
  queue_calls_def osal_cv_wait_enter_def cv_enqueue_def cv_dequeue_def osal_cv_signal_def cv_self_def
  cv_remove_def cv_find.simps cv_shift.simps aget_def aset_def Let_def

definition cv_asleep :: cv_sys where
  "cv_asleep = the (cv_run [Lock 7, Wait_enter 7, Sleep 7] cv_start_sys)"

lemma cv_asleep_run: "cv_run [Lock 7, Wait_enter 7, Sleep 7] cv_start_sys = Some cv_asleep"
  "sys_pc cv_asleep 7 = Asleep" "sys_owed cv_asleep = []" "\<not> sys_sig cv_asleep 7"
  "cv_enqueue (cv_self 7) cv_empty = Some (sys_cv cv_asleep)"
  by (simp_all add: cv_asleep_def cv_eval)

text \<open>
  C9: no sleeping task is forgotten. Whatever waits, timed waits, timeouts, signals and
  broadcasts happen around a condition variable, and however late the signals are sent, a task
  asleep in its wait is still queued, or its signal is pending or about to be sent; a
  broadcast therefore wakes every sleeping task once the signals under way have been sent.
\<close>

theorem cv_no_waiter_forgotten:
  assumes "cv_reach s" "sys_pc s t = Asleep"
  shows "(cv_self t \<in> set (cv_waiting (sys_cv s)) \<or> deliver (sys_owed s) (sys_sig s) t) \<and>
    deliver (sys_owed s @ snd (osal_cv_broadcast (sys_cv s))) (sys_sig s) t"
proof -
  have inv: "cv_wf (sys_cv s)" "looked_after s t"
    using cv_reach_inv [OF assms(1)] assms(2) by (auto simp: cv_inv_def)
  have "snd (osal_cv_broadcast (sys_cv s)) = map (\<lambda>w. Signal (w_task w) (w_sigmask w)) (cv_waiting (sys_cv s))"
    using cv_broadcast_waiting [OF inv(1) surjective_pairing] by simp
  with inv(2) show ?thesis by (force simp: looked_after_def deliver_iff)
qed

theorem cv_no_waiter_forgotten_witness:
  "sys_pc cv_asleep 7 = Asleep \<and>
   deliver (sys_owed cv_asleep @ snd (osal_cv_broadcast (sys_cv cv_asleep))) (sys_sig cv_asleep) 7"
  using cv_no_waiter_forgotten [OF cv_run_reach [OF cv_asleep_run(1) cv_start_sys_reach], of 7]
  by (simp add: cv_asleep_run)

text \<open>
  Task 1 waits with a timeout; task 2 signals and is delayed between releasing the guard and
  sending; task 1 times out and waits again; then the late signal wakes it, and its entry
  stays in the ring. Task 3 waits. The next signal goes to task 1, which waits no longer.
\<close>

definition late_signal :: "cv_act list" where
  "late_signal = [Lock 1, Timed_enter 1, Poll 1, Do_signal, Timeout 1, Relock 1, Wait_enter 1, Sleep 1,
     Send_owed 0, Wake 1, Relock 1, Unlock 1, Lock 3, Wait_enter 3, Sleep 3]"

text \<open>
  C35: a wakeup can go to a task that has left its wait: when \<open>osal_cv_signal\<close> is delayed between
  releasing the guard and sending, the signal it sends can end a later wait of the same task,
  whose entry stays in the ring. The next signal is then sent to that task although it is
  running, and the task that does sleep on the variable is not woken.
\<close>

theorem cv_signal_wasted:
  "\<exists>s. cv_reach s \<and> sys_pc s 1 = Run \<and> sys_pc s 3 = Asleep \<and> sys_owed s = [] \<and> \<not> sys_sig s 3 \<and>
     snd (osal_cv_signal (sys_cv s)) = [Signal 1 SIGF_SINGLE]"
proof -
  have "\<exists>s. cv_run late_signal cv_start_sys = Some s \<and> sys_pc s 1 = Run \<and> sys_pc s 3 = Asleep \<and>
      sys_owed s = [] \<and> \<not> sys_sig s 3 \<and> snd (osal_cv_signal (sys_cv s)) = [Signal 1 SIGF_SINGLE]"
    by (simp add: late_signal_def cv_eval)
  with cv_run_reach [OF _ cv_start_sys_reach] show ?thesis by blast
qed

text \<open>
  Waiters are woken in the order they came: for any sequence of waits and signals on an empty
  ring of 32 places, the tasks signalled are those that waited, oldest first.
\<close>

theorem cv_wakes_in_order:
  assumes "cv_wf cv" "cv_waiting cv = []" "fifo_run cv_enqueue cv_dequeue ops cv = (ins, outs, cv')"
  shows "outs = take (length outs) ins \<and> cv_waiting cv' = drop (length outs) ins \<and>
    int (length ins) \<le> int (length outs) + OSAL_CV_MAX_WAITERS"
proof -
  have "length (waiters cv) = 32" using assms(1) by (simp add: cv_wf_def)
  with cvq.fifo.run_fifo [OF assms(1,3)] cvq.fifo.delivered_in_order [OF assms(1) _ assms(3)] assms(2)
  show ?thesis by (auto simp: cv_waiting_def)
qed

lemma cv_empty_wf: "cv_wf cv_empty" "cv_waiting cv_empty = []"
  using osal_cv_new_wf [of "0x40" cv_empty] by (simp_all add: cv_empty_def osal_cv_new_def)

theorem cv_wakes_in_order_witness:
  "\<exists>cv'. fifo_run cv_enqueue cv_dequeue [Push (cv_self 7), Push (cv_self 9), Pop] cv_empty =
     ([cv_self 7, cv_self 9], [cv_self 7], cv') \<and> cv_waiting cv' = [cv_self 9]"
proof -
  obtain cv' where run: "fifo_run cv_enqueue cv_dequeue [Push (cv_self 7), Push (cv_self 9), Pop] cv_empty =
      ([cv_self 7, cv_self 9], [cv_self 7], cv')"
    by (simp add: cv_enqueue_def cv_dequeue_def cv_empty_def osal_cv_new_def aget_def aset_def)
  from cv_wakes_in_order [OF cv_empty_wf run] run show ?thesis by auto
qed

text \<open>
  C27: a timed wait always comes to its last step, taking the mutex again, for every timeout up to
  2\<open>^\<close>64 minus the poll interval. Its result is 0 exactly when one of the polls made before the
  timeout saw the signal, and otherwise ETIMEDOUT, after removing the caller, and only the caller,
  from the ring. A signal that arrives after the last poll is therefore reported as a timeout.
\<close>

theorem timedwait_returns:
  assumes "unat timeout_ns + 10000000 \<le> 2 ^ 64" "cv_wf cv"
  shows "\<exists>rv cv'. osal_cv_timedwait_leave me got timeout_ns cv = Some (rv, cv') \<and> cv_wf cv' \<and>
    (if \<exists>k. k * 10000000 < unat timeout_ns \<and> got k AND SIGF_SINGLE \<noteq> 0
     then rv = 0 \<and> cv' = cv
     else rv = CV_ETIMEDOUT \<and> cv_waiting cv' = remove1 (cv_self me) (cv_waiting cv))"
  using cv_poll_from [OF assms(1), of 0 got] cv_remove_waiting [OF assms(2), of "cv_self me"] assms(2)
  by (auto simp: osal_cv_timedwait_leave_def)

theorem timedwait_returns_witness:
  "\<exists>cv'. osal_cv_timedwait_leave 7 (\<lambda>_. 0) 25000000 (sys_cv cv_asleep) = Some (CV_ETIMEDOUT, cv') \<and>
     cv_waiting cv' = []"
proof -
  have "cv_wf (sys_cv cv_asleep)" "cv_waiting (sys_cv cv_asleep) = [cv_self 7]"
    using cv_waiting_enqueue [OF cv_empty_wf(1) cv_asleep_run(5)] cv_empty_wf(2) by simp_all
  with timedwait_returns [of 25000000 "sys_cv cv_asleep" 7 "\<lambda>_. 0"] show ?thesis by auto
qed

end
