(* ===== verification/NetDev.thy ===== *)
theory NetDev
  imports Fifo Osal
begin

unbundle bit_operations_syntax

text \<open>
  The driver side (\<open>src/phase4_netdev\<close>): the single-producer single-consumer descriptor ring of
  \<open>netdev_ring.c\<close>, both as functions and as the loads and stores its two sides perform in any
  interleaving, and the table of drivers of \<open>netdev_registry.c\<close>. A descriptor is the address of
  its \<open>struct NetDevBuf\<close>. \<open>head\<close> and \<open>tail\<close> are 64-bit sequence numbers that wrap.
\<close>

section \<open>The descriptor ring\<close>

text \<open>\<open>ring_slots\<close> is the array that the pointer \<open>slots\<close> leads to.\<close>

record NetDevRing =
  slots_ptr :: ptr
  ring_slots :: "ptr list"
  ring_size :: uint32
  ring_head :: uint64
  ring_tail :: uint64

definition slot_index :: "uint64 \<Rightarrow> NetDevRing \<Rightarrow> nat" where
  "slot_index q r = unat (q mod ucast (ring_size r))"

definition netdev_ring_publish :: "NetDevRing \<Rightarrow> ptr \<Rightarrow> int32 \<times> NetDevRing" where
  "netdev_ring_publish r b =
     (let head = ring_head r; tail = ring_tail r in
      if head - tail \<ge> ucast (ring_size r) then (-1, r)
      else (0, r\<lparr>ring_slots := (ring_slots r)[slot_index head r := b], ring_head := head + 1\<rparr>))"

definition netdev_ring_consume :: "NetDevRing \<Rightarrow> int32 \<times> ptr option \<times> NetDevRing" where
  "netdev_ring_consume r =
     (let tail = ring_tail r; head = ring_head r in
      if tail = head then (-1, None, r)
      else (0, Some (ring_slots r ! slot_index tail r), r\<lparr>ring_tail := tail + 1\<rparr>))"

text \<open>
  The size \<open>4 * ring_size\<close> is computed in 32 bits; the array has as many entries as the block has
  room for, all zero, as \<open>osal_malloc\<close> asks for cleared memory. Exec's allocator is the parameter of
  \<open>osal_malloc\<close>, and may return NULL for any request.
\<close>

definition netdev_ring_init :: "alloc \<Rightarrow> NetDevRing \<Rightarrow> uint32 \<Rightarrow> int32 \<times> NetDevRing" where
  "netdev_ring_init AllocVecTags r n =
     (if n = 0 \<or> n AND (n - 1) \<noteq> 0 then (-1, r)
      else let p = osal_malloc AllocVecTags (4 * n) 64;
               r' = r\<lparr>slots_ptr := p, ring_slots := (if p = NULL then [] else replicate (unat (4 * n) div 4) NULL)\<rparr>
           in if p = NULL then (-1, r')
              else (0, r'\<lparr>ring_size := n, ring_head := 0, ring_tail := 0\<rparr>))"

definition netdev_ring_destroy :: "NetDevRing \<Rightarrow> NetDevRing \<times> os_event list" where
  "netdev_ring_destroy r =
     (r\<lparr>slots_ptr := NULL, ring_slots := []\<rparr>, if slots_ptr r \<noteq> NULL then osal_free (slots_ptr r) else [])"

section \<open>Well-formed rings\<close>

definition ring_used :: "NetDevRing \<Rightarrow> nat" where
  "ring_used r = unat (ring_head r - ring_tail r)"

definition ring_shape :: "NetDevRing \<Rightarrow> bool" where
  "ring_shape r \<longleftrightarrow> ring_size r \<noteq> 0 \<and> ring_size r AND (ring_size r - 1) = 0 \<and>
     length (ring_slots r) = unat (ring_size r)"

definition ring_wf :: "NetDevRing \<Rightarrow> bool" where
  "ring_wf r \<longleftrightarrow> ring_shape r \<and> ring_used r \<le> length (ring_slots r)"

definition ring_content :: "NetDevRing \<Rightarrow> ptr list" where
  "ring_content r = window (ring_slots r) (slot_index (ring_tail r) r) (ring_used r)"

section \<open>Both sides at once\<close>

text \<open>
  Where the producer is in \<open>netdev_ring_publish\<close> and the consumer in \<open>netdev_ring_consume\<close>, with
  the values they have loaded. Every load and store of a shared field is a step of its own;
  the two sides interleave in any way. Loads and stores take effect in program order and a 64-bit
  counter in one piece: the barriers that the source marks for this are still empty, and a 32-bit
  processor loads such a counter with two instructions, so this is what the code relies on, not what
  it enforces.
\<close>

datatype producer_pc = P_Idle | P_Head ptr uint64 | P_Tail ptr uint64 uint64 | P_Stored ptr uint64
datatype consumer_pc = C_Idle | C_Tail uint64 | C_Head uint64 uint64 | C_Loaded uint64 ptr

record spsc =
  rng :: NetDevRing
  prod :: producer_pc
  cons :: consumer_pc
  published :: "ptr list"
  consumed :: "ptr list"

inductive spsc_step :: "spsc \<Rightarrow> spsc \<Rightarrow> bool" where
  p_head: "prod s = P_Idle \<Longrightarrow> spsc_step s (s\<lparr>prod := P_Head b (ring_head (rng s))\<rparr>)"
| p_tail: "prod s = P_Head b h \<Longrightarrow> spsc_step s (s\<lparr>prod := P_Tail b h (ring_tail (rng s))\<rparr>)"
| p_full: "prod s = P_Tail b h t \<Longrightarrow> h - t \<ge> ucast (ring_size (rng s)) \<Longrightarrow> spsc_step s (s\<lparr>prod := P_Idle\<rparr>)"
| p_store: "prod s = P_Tail b h t \<Longrightarrow> h - t < ucast (ring_size (rng s)) \<Longrightarrow>
    spsc_step s (s\<lparr>prod := P_Stored b h,
      rng := (rng s)\<lparr>ring_slots := (ring_slots (rng s))[slot_index h (rng s) := b]\<rparr>\<rparr>)"
| p_commit: "prod s = P_Stored b h \<Longrightarrow>
    spsc_step s (s\<lparr>prod := P_Idle, rng := (rng s)\<lparr>ring_head := h + 1\<rparr>, published := published s @ [b]\<rparr>)"
| c_tail: "cons s = C_Idle \<Longrightarrow> spsc_step s (s\<lparr>cons := C_Tail (ring_tail (rng s))\<rparr>)"
| c_head: "cons s = C_Tail t \<Longrightarrow> spsc_step s (s\<lparr>cons := C_Head t (ring_head (rng s))\<rparr>)"
| c_empty: "cons s = C_Head t h \<Longrightarrow> t = h \<Longrightarrow> spsc_step s (s\<lparr>cons := C_Idle\<rparr>)"
| c_load: "cons s = C_Head t h \<Longrightarrow> t \<noteq> h \<Longrightarrow>
    spsc_step s (s\<lparr>cons := C_Loaded t (ring_slots (rng s) ! slot_index t (rng s))\<rparr>)"
| c_commit: "cons s = C_Loaded t b \<Longrightarrow>
    spsc_step s (s\<lparr>cons := C_Idle, rng := (rng s)\<lparr>ring_tail := t + 1\<rparr>, consumed := consumed s @ [b]\<rparr>)"

text \<open>A ring of the given size that may have been in use before: its sequence numbers are arbitrary.\<close>

inductive spsc_reach :: "NetDevRing \<Rightarrow> spsc \<Rightarrow> bool" for r where
  spsc_start: "spsc_reach r \<lparr>rng = r, prod = P_Idle, cons = C_Idle, published = [], consumed = []\<rparr>"
| spsc_next: "spsc_reach r s \<Longrightarrow> spsc_step s s' \<Longrightarrow> spsc_reach r s'"

section \<open>Powers of two\<close>

lemma pow2_nat: "n \<noteq> 0 \<Longrightarrow> n AND (n - 1) = 0 \<Longrightarrow> \<exists>k. n = (2 :: nat) ^ k"
proof (induction n rule: less_induct)
  case (less n)
  show ?case
  proof (cases "even n")
    case True
    then obtain m where m: "n = 2 * m" by blast
    with less.prems have "m \<noteq> 0" by simp
    then have "n - 1 = 2 * (m - 1) + 1" using m by simp
    then have "n AND (n - 1) = 2 * (m AND (m - 1))" unfolding m by (subst and_nat_rec) simp
    then have "\<exists>k. m = 2 ^ k" using less \<open>m \<noteq> 0\<close> m by simp
    then show ?thesis using m by (metis power_Suc)
  next
    case False
    then obtain m where m: "n = 2 * m + 1" by (blast elim: oddE)
    then have "n AND (n - 1) = 2 * m" by (subst and_nat_rec) simp
    with less.prems(2) m have "n = 2 ^ 0" by simp
    then show ?thesis by blast
  qed
qed

lemma pow2_word:
  fixes n :: uint32
  shows "n \<noteq> 0 \<and> n AND (n - 1) = 0 \<longleftrightarrow> (\<exists>k<32. n = 2 ^ k)"
proof
  assume n: "n \<noteq> 0 \<and> n AND (n - 1) = 0"
  then have n0: "unat n \<noteq> 0" by (simp add: unat_eq_0)
  have "unat n AND unat (n - 1) = 0" using n by (metis unat_0 unsigned_and_eq)
  moreover have "unat (n - 1) = unat n - 1" using n by (simp add: unat_minus_one)
  ultimately obtain k where k: "unat n = 2 ^ k" using pow2_nat [OF n0] by auto
  have "k < 32" using unat_bound32 [of n] power_less_imp_less_exp [of "2 :: nat" k 32] unfolding k by simp
  moreover have "n = of_nat (unat n)" by simp
  ultimately show "\<exists>k<32. n = 2 ^ k" by (metis k of_nat_numeral of_nat_power)
next
  assume "\<exists>k<32. n = 2 ^ k"
  then obtain k where k: "k < 32" "n = 2 ^ k" by blast
  then have "n AND (n - 1) = 0"
    by (intro bit_word_eqI) (auto simp: bit_and_iff bit_exp_iff bit_mask_iff simp flip: mask_eq_exp_minus_1)
  moreover have "n \<noteq> 0" using k by (simp add: exp_eq_zero_iff)
  ultimately show "n \<noteq> 0 \<and> n AND (n - 1) = 0" by simp
qed

lemma pow2_dvd:
  fixes n :: uint32
  assumes "n \<noteq> 0" "n AND (n - 1) = 0"
  shows "unat n dvd 2 ^ 64"
proof -
  obtain k where k: "k < 32" "n = 2 ^ k" using assms pow2_word [of n] by blast
  then have "n = of_nat (2 ^ k)" by simp
  moreover have "(2 :: nat) ^ k < 2 ^ LENGTH(32)" by (rule power_strict_increasing) (use k(1) in simp_all)
  ultimately have "unat n = 2 ^ k" by (simp only: unat_of_nat mod_less)
  moreover have "(2 :: nat) ^ k dvd 2 ^ 64" by (rule le_imp_power_dvd) (use k(1) in simp)
  ultimately show ?thesis by simp
qed

section \<open>The ring is a bounded queue\<close>

lemma size_dvd: "ring_shape r \<Longrightarrow> unat (ring_size r) dvd 2 ^ 64"
  unfolding ring_shape_def by (blast intro: pow2_dvd)

lemma slot_index_mod: "ring_shape r \<Longrightarrow> slot_index q r = unat q mod length (ring_slots r)"
  by (simp add: slot_index_def unat_mod ring_shape_def)

lemma unat_add_mod:
  fixes q k :: uint64
  assumes "ring_shape r"
  shows "unat (q + k) mod length (ring_slots r) = (unat q + unat k) mod length (ring_slots r)"
  using size_dvd [OF assms] assms by (simp add: unat_word_ariths ring_shape_def mod_mod_cancel)

lemma slot_index_add:
  "ring_shape r \<Longrightarrow> slot_index (q + k) r = (slot_index q r + unat k) mod length (ring_slots r)"
  by (simp add: slot_index_mod unat_add_mod mod_add_left_eq)

lemma slot_index_head: "ring_shape r \<Longrightarrow> slot_index (ring_head r) r = (slot_index (ring_tail r) r + ring_used r) mod length (ring_slots r)"
  using slot_index_add [of r "ring_tail r" "ring_head r - ring_tail r"] by (simp add: ring_used_def)

lemma unat_succ_below:
  fixes a :: uint64
  assumes "unat a < unat (n :: uint32)"
  shows "unat (a + 1) = Suc (unat a)"
proof -
  have "unat a + 1 < 2 ^ 64" using assms unat_bound32 [of n] by simp
  then show ?thesis by (simp add: unat_word_ariths)
qed

lemma slot_index_frame [simp]:
  "slot_index q (r\<lparr>ring_slots := xs\<rparr>) = slot_index q r"
  "slot_index q (r\<lparr>ring_head := h\<rparr>) = slot_index q r"
  "slot_index q (r\<lparr>ring_tail := t\<rparr>) = slot_index q r"
  by (simp_all add: slot_index_def)

lemma ring_used_frame [simp]: "ring_used (r\<lparr>ring_slots := xs\<rparr>) = ring_used r"
  by (simp add: ring_used_def)

lemma ring_shape_frame [simp]:
  "ring_shape (r\<lparr>ring_slots := (ring_slots r)[i := b]\<rparr>) = ring_shape r"
  "ring_shape (r\<lparr>ring_head := h\<rparr>) = ring_shape r"
  "ring_shape (r\<lparr>ring_tail := t\<rparr>) = ring_shape r"
  by (simp_all add: ring_shape_def)

lemma ring_full_iff: "ring_shape r \<Longrightarrow> ucast (ring_size r) \<le> q \<longleftrightarrow> length (ring_slots r) \<le> unat q" for q :: uint64
  by (simp add: word_le_nat_alt ring_shape_def)

lemma ring_used_push:
  assumes "ring_shape r" "ring_used r < length (ring_slots r)"
  shows "ring_used (r\<lparr>ring_head := ring_head r + 1\<rparr>) = Suc (ring_used r)"
proof -
  have "unat (ring_head r - ring_tail r + 1) = Suc (unat (ring_head r - ring_tail r))"
    by (rule unat_succ_below [of _ "ring_size r"]) (use assms in \<open>simp add: ring_shape_def ring_used_def\<close>)
  then show ?thesis by (simp add: ring_used_def algebra_simps)
qed

lemma ring_used_pop:
  assumes "ring_used r \<noteq> 0"
  shows "ring_used r = Suc (ring_used (r\<lparr>ring_tail := ring_tail r + 1\<rparr>))"
proof -
  have "ring_head r - ring_tail r \<noteq> 0" using assms unfolding ring_used_def by (metis unat_0)
  then have "unat (ring_head r - ring_tail r - 1) = unat (ring_head r - ring_tail r) - 1"
    by (rule unat_minus_one)
  with assms show ?thesis by (simp add: ring_used_def diff_diff_eq)
qed

lemma ring_used_0: "ring_used r = 0 \<longleftrightarrow> ring_head r = ring_tail r"
  by (simp add: ring_used_def unat_eq_0)

definition ring_offer :: "ptr \<Rightarrow> NetDevRing \<Rightarrow> NetDevRing option" where
  "ring_offer b r = (case netdev_ring_publish r b of (rc, r') \<Rightarrow> if rc = 0 then Some r' else None)"

definition ring_take :: "NetDevRing \<Rightarrow> (ptr \<times> NetDevRing) option" where
  "ring_take r = (case netdev_ring_consume r of (rc, out, r') \<Rightarrow> map_option (\<lambda>b. (b, r')) out)"

lemma ring_pop_index:
  "ring_shape r \<Longrightarrow> slot_index (q + 1) r = Suc (slot_index q r) mod length (ring_slots r)"
  using slot_index_add [of r q 1] by simp

interpretation ndq: ring_queue ring_wf ring_slots "\<lambda>r. slot_index (ring_tail r) r" ring_used ring_offer ring_take
proof (unfold_locales, goal_cases)
  case (1 r)
  then show ?case by (simp add: ring_wf_def)
next
  case (2 r b)
  then show ?case
    by (auto simp: ring_offer_def netdev_ring_publish_def Let_def ring_wf_def ring_full_iff ring_used_def)
next
  case (3 r b r')
  then have shape: "ring_shape r" and room: "ring_used r < length (ring_slots r)"
    and r': "r' = r\<lparr>ring_slots := (ring_slots r)[slot_index (ring_head r) r := b], ring_head := ring_head r + 1\<rparr>"
    by (auto simp: ring_offer_def netdev_ring_publish_def Let_def ring_wf_def ring_full_iff ring_used_def
        split: if_splits)
  have "ring_used r' = Suc (ring_used r)"
    using ring_used_push [OF shape room] by (simp add: r' ring_used_def)
  with shape room show ?case by (simp add: r' ring_wf_def slot_index_head)
next
  case (4 r)
  then show ?case
    by (auto simp: ring_take_def netdev_ring_consume_def Let_def ring_used_0)
next
  case (5 r b r')
  then have ne: "ring_used r \<noteq> 0" and b: "b = ring_slots r ! slot_index (ring_tail r) r"
    and r': "r' = r\<lparr>ring_tail := ring_tail r + 1\<rparr>"
    by (auto simp: ring_take_def netdev_ring_consume_def Let_def ring_used_0 split: if_splits)
  from 5 ring_used_pop [OF ne] show ?case
    by (simp add: r' b ring_wf_def ring_pop_index) (simp add: slot_index_mod)
qed

text \<open>
  Called by one task, without interleaving, the ring is a bounded queue: for any publishes and
  consumes on an empty ring, what comes out is what went in, in that order.
\<close>

lemma ring_is_fifo:
  assumes "ring_wf r" "ring_content r = []" "fifo_run ring_offer ring_take ops r = (ins, outs, r')"
  shows "outs = take (length outs) ins \<and> ring_content r' = drop (length outs) ins \<and>
    length ins \<le> length outs + length (ring_slots r) \<and> ring_wf r'"
  using ndq.fifo.run_fifo [OF assms(1,3)] ndq.fifo.delivered_in_order [OF assms(1) _ assms(3)] assms(2)
  by (auto simp: ring_content_def)

section \<open>The interleaving invariant\<close>

text \<open>
  What each side knows between its steps: the producer's copy of \<open>head\<close> is current and its copy
  of \<open>tail\<close> may lag, so the ring is at most as full as it thinks; the consumer's copy of \<open>tail\<close>
  is current and its copy of \<open>head\<close> may lag, so the ring is at least as full as it thinks.
\<close>

fun prod_ok :: "producer_pc \<Rightarrow> NetDevRing \<Rightarrow> bool" where
  "prod_ok P_Idle r = True"
| "prod_ok (P_Head b h) r = (h = ring_head r)"
| "prod_ok (P_Tail b h t) r = (h = ring_head r \<and> ring_used r \<le> unat (h - t))"
| "prod_ok (P_Stored b h) r =
     (h = ring_head r \<and> ring_used r < length (ring_slots r) \<and> ring_slots r ! slot_index h r = b)"

fun cons_ok :: "consumer_pc \<Rightarrow> NetDevRing \<Rightarrow> bool" where
  "cons_ok C_Idle r = True"
| "cons_ok (C_Tail t) r = (t = ring_tail r)"
| "cons_ok (C_Head t h) r = (t = ring_tail r \<and> unat (h - t) \<le> ring_used r)"
| "cons_ok (C_Loaded t b) r = (t = ring_tail r \<and> 0 < ring_used r \<and> b = ring_slots r ! slot_index t r)"

definition spsc_inv :: "spsc \<Rightarrow> bool" where
  "spsc_inv s \<longleftrightarrow> ring_wf (rng s) \<and> published s = consumed s @ ring_content (rng s) \<and>
     prod_ok (prod s) (rng s) \<and> cons_ok (cons s) (rng s)"

lemma slot_index_lt: "ring_wf r \<Longrightarrow> slot_index q r < length (ring_slots r)"
  by (auto simp: ring_wf_def slot_index_mod ring_shape_def unat_gt_0 word_neq_0_conv)

lemma store_keeps:
  assumes "ring_wf r" "ring_used r < length (ring_slots r)"
    and "r' = r\<lparr>ring_slots := (ring_slots r)[slot_index (ring_head r) r := b]\<rparr>"
  shows "ring_wf r'" "ring_content r' = ring_content r" "prod_ok (P_Stored b (ring_head r)) r'"
    and "cons_ok c r \<Longrightarrow> cons_ok c r'"
proof -
  have shape: "ring_shape r" using assms(1) by (simp add: ring_wf_def)
  show "ring_wf r'" using assms(1) by (simp add: assms(3) ring_wf_def)
  show "ring_content r' = ring_content r"
    using window_update_free [OF assms(2)] by (simp add: assms(3) ring_content_def slot_index_head [OF shape])
  show "prod_ok (P_Stored b (ring_head r)) r'"
    using assms(2) slot_index_lt [OF assms(1)] by (simp add: assms(3))
  show "cons_ok c r'" if "cons_ok c r"
  proof (cases c)
    case (C_Loaded t v)
    with that have c: "t = ring_tail r" "0 < ring_used r" "v = ring_slots r ! slot_index t r" by auto
    have "slot_index (ring_head r) r \<noteq> slot_index t r"
      using mod_offset_neq [OF c(2) assms(2), of "slot_index t r"] slot_index_lt [OF assms(1), of t]
      by (simp add: slot_index_head [OF shape] c(1))
    then show ?thesis by (simp add: C_Loaded c assms(3))
  qed (use that in \<open>simp_all add: assms(3)\<close>)
qed

lemma commit_keeps:
  assumes "ring_wf r" "prod_ok (P_Stored b h) r" "r' = r\<lparr>ring_head := h + 1\<rparr>"
  shows "ring_wf r'" "ring_content r' = ring_content r @ [b]" "cons_ok c r \<Longrightarrow> cons_ok c r'"
proof -
  have shape: "ring_shape r" and h: "h = ring_head r" and room: "ring_used r < length (ring_slots r)"
    using assms(1,2) by (auto simp: ring_wf_def)
  have used: "ring_used r' = Suc (ring_used r)" using ring_used_push [OF shape room] by (simp add: assms(3) h)
  show "ring_wf r'" using assms(1) used room by (simp add: assms(3) ring_wf_def)
  show "ring_content r' = ring_content r @ [b]"
    using assms(2) used by (simp add: ring_content_def assms(3) window_Suc slot_index_head [OF shape] h)
  show "cons_ok c r'" if "cons_ok c r"
    using that used by (cases c) (auto simp: assms(3))
qed

lemma take_keeps:
  assumes "ring_wf r" "cons_ok (C_Loaded t b) r" "r' = r\<lparr>ring_tail := t + 1\<rparr>"
  shows "ring_wf r'" "ring_content r = b # ring_content r'" "prod_ok p r \<Longrightarrow> prod_ok p r'"
proof -
  have shape: "ring_shape r" and t: "t = ring_tail r" and b: "b = ring_slots r ! slot_index t r"
    and ne: "ring_used r \<noteq> 0" using assms(1,2) by (auto simp: ring_wf_def)
  have used: "ring_used r = Suc (ring_used r')" using ring_used_pop [OF ne] by (simp add: assms(3) t)
  show "ring_wf r'" using assms(1) used by (simp add: assms(3) ring_wf_def)
  show "ring_content r = b # ring_content r'"
    using slot_index_lt [OF assms(1), of t] unfolding ring_content_def used
    by (simp add: window_pop assms(3) b t ring_pop_index [OF shape])
  show "prod_ok p r'" if "prod_ok p r"
    using that used by (cases p) (auto simp: assms(3))
qed

lemma spsc_inv_step: "spsc_step s s' \<Longrightarrow> spsc_inv s \<Longrightarrow> spsc_inv s'"
proof (induction rule: spsc_step.induct)
  case (p_store s b h t)
  then have wf: "ring_wf (rng s)" and h: "h = ring_head (rng s)" and le: "ring_used (rng s) \<le> unat (h - t)"
    by (auto simp: spsc_inv_def)
  have "unat (h - t) < length (ring_slots (rng s))"
    using p_store(2) wf by (simp add: word_less_nat_alt ring_wf_def ring_shape_def)
  with le have room: "ring_used (rng s) < length (ring_slots (rng s))" by simp
  from store_keeps [OF wf room refl] p_store(3) h show ?case by (simp add: spsc_inv_def)
next
  case (p_commit s b h)
  then have "ring_wf (rng s)" "prod_ok (P_Stored b h) (rng s)" by (auto simp: spsc_inv_def)
  from commit_keeps [OF this refl] p_commit(2) show ?case by (simp add: spsc_inv_def)
next
  case (c_load s t h)
  then have "unat (h - t) \<noteq> 0" "unat (h - t) \<le> ring_used (rng s)" by (auto simp: spsc_inv_def unat_eq_0)
  with c_load show ?case by (simp add: spsc_inv_def)
next
  case (c_commit s t b)
  then have "ring_wf (rng s)" "cons_ok (C_Loaded t b) (rng s)" by (auto simp: spsc_inv_def)
  from take_keeps [OF this refl] c_commit(2) show ?case by (simp add: spsc_inv_def)
qed (simp_all add: spsc_inv_def ring_used_def)

lemma spsc_size: "spsc_step s s' \<Longrightarrow> ring_size (rng s') = ring_size (rng s)"
  by (induction rule: spsc_step.induct) simp_all

lemma spsc_reach_inv:
  assumes "spsc_reach r s" "ring_wf r" "ring_head r = ring_tail r"
  shows "spsc_inv s \<and> ring_size (rng s) = ring_size r"
  using assms
proof (induction rule: spsc_reach.induct)
  case spsc_start
  then have "ring_used r = 0" by (simp add: ring_used_0)
  with spsc_start show ?case by (simp add: spsc_inv_def ring_content_def)
next
  case (spsc_next s s')
  then show ?case using spsc_inv_step spsc_size by metis
qed

text \<open>
  Run without interruption, the steps of one side are the function: a publish, and a consume.
\<close>

lemma publish_steps:
  assumes "prod s = P_Idle" "netdev_ring_publish (rng s) b = (rc, r')"
  shows "spsc_step\<^sup>*\<^sup>* s (s\<lparr>rng := r', published := published s @ (if rc = 0 then [b] else [])\<rparr>)"
proof -
  let ?h = "ring_head (rng s)" and ?t = "ring_tail (rng s)"
  let ?s2 = "s\<lparr>prod := P_Tail b ?h ?t\<rparr>"
  have s1: "spsc_step s (s\<lparr>prod := P_Head b ?h\<rparr>)" by (rule p_head) (rule assms(1))
  have s2: "spsc_step (s\<lparr>prod := P_Head b ?h\<rparr>) ?s2"
    using p_tail [of "s\<lparr>prod := P_Head b ?h\<rparr>" b ?h] by simp
  have to2: "spsc_step\<^sup>*\<^sup>* s ?s2" using s1 s2 by (meson r_into_rtranclp rtranclp.rtrancl_into_rtrancl)
  show ?thesis
  proof (cases "?h - ?t \<ge> ucast (ring_size (rng s))")
    case True
    then have "spsc_step ?s2 (s\<lparr>prod := P_Idle\<rparr>)" using p_full [of ?s2 b ?h ?t] by simp
    with to2 have "spsc_step\<^sup>*\<^sup>* s (s\<lparr>prod := P_Idle\<rparr>)" by (rule rtranclp.rtrancl_into_rtrancl)
    moreover have "rc = -1" "r' = rng s" using True assms(2) by (auto simp: netdev_ring_publish_def)
    moreover have "s\<lparr>prod := P_Idle\<rparr> = s" using assms(1) by simp
    ultimately show ?thesis by simp
  next
    case False
    let ?r = "(rng s)\<lparr>ring_slots := (ring_slots (rng s))[slot_index ?h (rng s) := b]\<rparr>"
    let ?s3 = "s\<lparr>prod := P_Stored b ?h, rng := ?r\<rparr>"
    let ?s4 = "s\<lparr>prod := P_Idle, rng := ?r\<lparr>ring_head := ?h + 1\<rparr>, published := published s @ [b]\<rparr>"
    have "spsc_step ?s2 ?s3" using p_store [of ?s2 b ?h ?t] False by simp
    moreover have "spsc_step ?s3 ?s4" using p_commit [of ?s3 b ?h] by simp
    ultimately have "spsc_step\<^sup>*\<^sup>* s ?s4" using to2 by (meson rtranclp.rtrancl_into_rtrancl)
    moreover have "rc = 0" "r' = ?r\<lparr>ring_head := ?h + 1\<rparr>"
      using False assms(2) by (auto simp: netdev_ring_publish_def Let_def)
    moreover have "?s4 = s\<lparr>rng := r', published := published s @ [b]\<rparr>"
      using assms(1) calculation(3) by simp
    ultimately show ?thesis by simp
  qed
qed

lemma consume_steps:
  assumes "cons s = C_Idle" "netdev_ring_consume (rng s) = (rc, out, r')"
  shows "spsc_step\<^sup>*\<^sup>* s (s\<lparr>rng := r', consumed := consumed s @ (case out of None \<Rightarrow> [] | Some b \<Rightarrow> [b])\<rparr>)"
proof -
  let ?h = "ring_head (rng s)" and ?t = "ring_tail (rng s)"
  let ?s2 = "s\<lparr>cons := C_Head ?t ?h\<rparr>"
  have s1: "spsc_step s (s\<lparr>cons := C_Tail ?t\<rparr>)" by (rule c_tail) (rule assms(1))
  have s2: "spsc_step (s\<lparr>cons := C_Tail ?t\<rparr>) ?s2"
    using c_head [of "s\<lparr>cons := C_Tail ?t\<rparr>" ?t] by simp
  have to2: "spsc_step\<^sup>*\<^sup>* s ?s2" using s1 s2 by (meson r_into_rtranclp rtranclp.rtrancl_into_rtrancl)
  show ?thesis
  proof (cases "?t = ?h")
    case True
    then have "spsc_step ?s2 (s\<lparr>cons := C_Idle\<rparr>)" using c_empty [of ?s2 ?t ?h] by simp
    with to2 have "spsc_step\<^sup>*\<^sup>* s (s\<lparr>cons := C_Idle\<rparr>)" by (rule rtranclp.rtrancl_into_rtrancl)
    moreover have "out = None" "r' = rng s" using True assms(2) by (auto simp: netdev_ring_consume_def)
    moreover have "s\<lparr>cons := C_Idle\<rparr> = s" using assms(1) by simp
    ultimately show ?thesis by simp
  next
    case False
    let ?b = "ring_slots (rng s) ! slot_index ?t (rng s)"
    let ?s3 = "s\<lparr>cons := C_Loaded ?t ?b\<rparr>"
    let ?s4 = "s\<lparr>cons := C_Idle, rng := (rng s)\<lparr>ring_tail := ?t + 1\<rparr>, consumed := consumed s @ [?b]\<rparr>"
    have "spsc_step ?s2 ?s3" using c_load [of ?s2 ?t ?h] False by simp
    moreover have "spsc_step ?s3 ?s4" using c_commit [of ?s3 ?t ?b] by simp
    ultimately have "spsc_step\<^sup>*\<^sup>* s ?s4" using to2 by (meson rtranclp.rtrancl_into_rtrancl)
    moreover have "out = Some ?b" "r' = (rng s)\<lparr>ring_tail := ?t + 1\<rparr>"
      using False assms(2) by (auto simp: netdev_ring_consume_def Let_def)
    moreover have "?s4 = s\<lparr>rng := r', consumed := consumed s @ [?b]\<rparr>"
      using assms(1) calculation(3) by simp
    ultimately show ?thesis by simp
  qed
qed

section \<open>Properties of the ring\<close>

lemma block_entries: "unat (4 * n) div 4 = unat n \<longleftrightarrow> n < 2 ^ 30" for n :: uint32
proof -
  have "unat (4 * n) = (4 * unat n) mod 2 ^ 32" by (simp add: unat_word_ariths)
  moreover have "n < 2 ^ 30 \<longleftrightarrow> unat n < 2 ^ 30" by (simp add: word_less_nat_alt)
  moreover have "(4 * m) mod 2 ^ 32 div 4 = m \<longleftrightarrow> m < 2 ^ 30" for m :: nat by auto
  ultimately show ?thesis by simp
qed

text \<open>
  C11: the descriptor ring hands every descriptor over once and in order, however the loads and
  stores of producer and consumer interleave and wherever its sequence numbers start, wrap
  around included: what was consumed is a prefix of what was published, the rest is in the
  ring, and there are never more than \<open>ring_size\<close> of them. Each access to memory is whole and in
  program order.
\<close>

theorem ring_hands_over_in_order:
  assumes "ring_wf r" "ring_head r = ring_tail r" "spsc_reach r s"
  shows "published s = consumed s @ ring_content (rng s) \<and>
    length (ring_content (rng s)) \<le> unat (ring_size r) \<and> ring_wf (rng s)"
  using spsc_reach_inv [OF assms(3,1,2)]
  by (auto simp: spsc_inv_def ring_wf_def ring_shape_def ring_content_def)

definition wrap_ring :: NetDevRing where
  "wrap_ring = \<lparr>slots_ptr = 0x100, ring_slots = [0, 0], ring_size = 2, ring_head = -1, ring_tail = -1\<rparr>"

lemma wrap_ring_wf: "ring_wf wrap_ring" "ring_head wrap_ring = ring_tail wrap_ring"
  by (simp_all add: wrap_ring_def ring_wf_def ring_shape_def ring_used_def)

lemma spsc_reach_steps: "spsc_step\<^sup>*\<^sup>* s s' \<Longrightarrow> spsc_reach r s \<Longrightarrow> spsc_reach r s'"
  by (induction rule: rtranclp_induct) (auto intro: spsc_next)

theorem ring_hands_over_in_order_witness:
  "\<exists>s. spsc_reach wrap_ring s \<and> published s = [7] \<and> ring_head (rng s) = 0 \<and>
     published s = consumed s @ ring_content (rng s)"
proof -
  let ?s0 = "\<lparr>rng = wrap_ring, prod = P_Idle, cons = C_Idle, published = [], consumed = []\<rparr>"
  obtain r' where pub: "netdev_ring_publish (rng ?s0) 7 = (0, r')" and h: "ring_head r' = 0"
    by (simp add: netdev_ring_publish_def wrap_ring_def Let_def)
  have r: "spsc_reach wrap_ring (?s0\<lparr>rng := r', published := [7]\<rparr>)"
    using spsc_reach_steps [OF publish_steps [OF _ pub] spsc_start [of wrap_ring]] by simp
  with ring_hands_over_in_order [OF wrap_ring_wf r] h show ?thesis by auto
qed

lemma block_size:
  assumes "k < 32"
  shows "unat (4 * 2 ^ k :: uint32) = (if k < 30 then 4 * 2 ^ k else 0)"
proof (cases "k < 30")
  case True
  have "unat (4 * 2 ^ k :: uint32) = unat (of_nat (2 ^ (k + 2)) :: uint32)" by simp
  also have "\<dots> = 2 ^ (k + 2) mod 2 ^ 32" by (simp only: unat_of_nat) (simp add: take_bit_eq_mod)
  also have "(2 :: nat) ^ (k + 2) < 2 ^ 32" by (rule power_strict_increasing) (use True in simp_all)
  then have "(2 :: nat) ^ (k + 2) mod 2 ^ 32 = 2 ^ (k + 2)" by (rule mod_less)
  finally show ?thesis using True by simp
next
  case False
  with assms have "k = 30 \<or> k = 31" by auto
  then show ?thesis by auto
qed

text \<open>
  C34: \<open>netdev_ring_init\<close> for any answers of exec's allocator. It succeeds exactly for a power of two
  for which the allocator returns a block, and returns -1 otherwise; a size that is not a power
  of two changes nothing. The block asked for has 4 bytes per entry up to 2\<open>^\<close>29 entries, but
  0 bytes for 2\<open>^\<close>30 and 2\<open>^\<close>31, because the size is computed in 32 bits. After success the ring is empty, and
  well formed, with room for all its slots, exactly below 2\<open>^\<close>30 entries.
\<close>

theorem ring_init_sizes:
  assumes "netdev_ring_init AllocVecTags r n = (rc, r')"
  shows "(rc = 0 \<longleftrightarrow> (\<exists>k<32. n = 2 ^ k) \<and> AllocVecTags (4 * n) 64 \<noteq> NULL) \<and> (rc = 0 \<or> rc = -1) \<and>
    ((\<nexists>k. k < 32 \<and> n = 2 ^ k) \<longrightarrow> r' = r) \<and>
    (\<forall>k<32. n = 2 ^ k \<longrightarrow> slots_ptr r' = AllocVecTags (4 * n) 64 \<and> unat (4 * n) = (if k < 30 then 4 * 2 ^ k else 0)) \<and>
    (rc = 0 \<longrightarrow> ring_size r' = n \<and> ring_head r' = 0 \<and> ring_tail r' = 0 \<and> ring_content r' = [] \<and>
       (ring_wf r' \<longleftrightarrow> n < 2 ^ 30))"
proof -
  have pow: "(n = 0 \<or> n AND (n - 1) \<noteq> 0) \<longleftrightarrow> \<not> (\<exists>k<32. n = 2 ^ k)" using pow2_word [of n] by blast
  note init = assms [unfolded netdev_ring_init_def pow Let_def osal_malloc_def]
  have rc: "rc = 0 \<longleftrightarrow> (\<exists>k<32. n = 2 ^ k) \<and> AllocVecTags (4 * n) 64 \<noteq> NULL" "rc = 0 \<or> rc = -1"
    "\<not> (\<exists>k<32. n = 2 ^ k) \<Longrightarrow> r' = r" "(\<exists>k<32. n = 2 ^ k) \<Longrightarrow> slots_ptr r' = AllocVecTags (4 * n) 64"
    using init by (auto split: if_splits)
  have r': "ring_slots r' = replicate (unat (4 * n) div 4) NULL" "ring_size r' = n" "ring_head r' = 0" "ring_tail r' = 0"
    if "rc = 0"
    using init that by (auto split: if_splits)
  have "length (ring_slots r') = unat n \<longleftrightarrow> n < 2 ^ 30" if "rc = 0"
    using r'(1) [OF that] block_entries [of n] by simp
  then have "ring_content r' = [] \<and> (ring_wf r' \<longleftrightarrow> n < 2 ^ 30)" if "rc = 0"
    using that r' rc(1) pow by (auto simp: ring_wf_def ring_shape_def ring_content_def ring_used_def)
  with rc r' block_size show ?thesis by blast
qed

text \<open>An allocator that returns NULL for requests of 0 bytes, and one that does not.\<close>

theorem ring_init_sizes_witness:
  "fst (netdev_ring_init (\<lambda>sz _. if sz = 0 then NULL else 0x100) wrap_ring 64) = 0 \<and>
   ring_wf (snd (netdev_ring_init (\<lambda>sz _. if sz = 0 then NULL else 0x100) wrap_ring 64)) \<and>
   fst (netdev_ring_init (\<lambda>sz _. if sz = 0 then NULL else 0x100) wrap_ring 0x40000000) = -1 \<and>
   fst (netdev_ring_init (\<lambda>_ _. 0x100) wrap_ring 0x40000000) = 0 \<and>
   \<not> ring_wf (snd (netdev_ring_init (\<lambda>_ _. 0x100) wrap_ring 0x40000000))"
proof -
  let ?strict = "\<lambda>sz _. if sz = 0 then NULL else 0x100" and ?lax = "\<lambda>_ _. 0x100"
  have k: "\<exists>k<32. (64 :: uint32) = 2 ^ k" "\<exists>k<32. (0x40000000 :: uint32) = 2 ^ k"
    by (rule exI [of _ 6], simp) (rule exI [of _ 30], simp)
  note small = ring_init_sizes [of ?strict wrap_ring 64, OF surjective_pairing]
    and strict = ring_init_sizes [of ?strict wrap_ring "0x40000000", OF surjective_pairing]
    and lax = ring_init_sizes [of ?lax wrap_ring "0x40000000", OF surjective_pairing]
  from small k(1) have 1: "fst (netdev_ring_init ?strict wrap_ring 64) = 0" by simp
  from strict have "fst (netdev_ring_init ?strict wrap_ring 0x40000000) \<noteq> 0" by simp
  with strict have 2: "fst (netdev_ring_init ?strict wrap_ring 0x40000000) = -1" by blast
  from lax k(2) have 3: "fst (netdev_ring_init ?lax wrap_ring 0x40000000) = 0" by simp
  from small 1 have "ring_wf (snd (netdev_ring_init ?strict wrap_ring 64))" by simp
  moreover from lax 3 have "\<not> ring_wf (snd (netdev_ring_init ?lax wrap_ring 0x40000000))" by simp
  ultimately show ?thesis using 1 2 3 by blast
qed

end
