(* ===== verification/Registry.thy ===== *)
theory Registry
  imports Prelude
begin

text \<open>
  The driver registry (\<open>src/phase4_netdev/netdev_registry.c\<close>): a table of sixteen entries, filled
  from the front and kept dense by moving the last entry into a gap; and the reference driver
  (\<open>reference_driver.c\<close>), whose capability and statistics queries are the only ones that do
  anything. A name is its C string, an interface the address of its vector table. The
  registry keeps the pointer to a name; the model assumes that its characters do not change.
\<close>

abbreviation (input) NETDEV_MAX_REGISTERED :: int32 where "NETDEV_MAX_REGISTERED \<equiv> 16"

record netdev_slot =
  slot_name :: string
  slot_iface :: ptr

record registry =
  g_registry :: "netdev_slot list"
  g_count :: int32

definition registry_zero :: registry where
  "registry_zero = \<lparr>g_registry = replicate (nat NETDEV_MAX_REGISTERED) \<lparr>slot_name = [], slot_iface = NULL\<rparr>,
     g_count = 0\<rparr>"

definition find_name :: "string \<Rightarrow> registry \<Rightarrow> int32" where
  "find_name name g = c_search (\<lambda>i. slot_name (aget (g_registry g) i) = name) 0 (g_count g)"

definition NetDev_Register :: "string option \<Rightarrow> ptr \<Rightarrow> registry \<Rightarrow> int32 \<times> registry" where
  "NetDev_Register name iface g =
     (case name of
        None \<Rightarrow> (-1, g)
      | Some nm \<Rightarrow>
          if iface = NULL then (-1, g)
          else if g_count g \<ge> NETDEV_MAX_REGISTERED then (-1, g)
          else if find_name nm g \<ge> 0 then (-1, g)
          else (0, g\<lparr>g_registry := aset (g_registry g) (g_count g) \<lparr>slot_name = nm, slot_iface = iface\<rparr>,
                     g_count := g_count g + 1\<rparr>))"

definition NetDev_Unregister :: "string \<Rightarrow> registry \<Rightarrow> int32 \<times> registry" where
  "NetDev_Unregister name g =
     (let i = find_name name g in
      if i \<ge> 0
      then (0, g\<lparr>g_registry := aset (g_registry g) i (aget (g_registry g) (g_count g - 1)),
                 g_count := g_count g - 1\<rparr>)
      else (-1, g))"

definition NetDev_Lookup :: "string \<Rightarrow> registry \<Rightarrow> ptr" where
  "NetDev_Lookup name g =
     (let i = find_name name g in if i \<ge> 0 then slot_iface (aget (g_registry g) i) else NULL)"

text \<open>The return value and the names stored from the start of the caller's array.\<close>

definition NetDev_List :: "int32 \<Rightarrow> registry \<Rightarrow> int32 \<times> string list" where
  "NetDev_List max_names g =
     (let n = (if g_count g < max_names then g_count g else max_names)
      in (n, map (\<lambda>i. slot_name (aget (g_registry g) i)) [0..n - 1]))"

section \<open>The reference driver\<close>

record NetDevCapabilities =
  cap_flags :: uint32
  rx_queues :: uint32
  tx_queues :: uint32
  max_frame_size :: uint32
  link_speed_bps :: uint64
  factory_mac :: "uint8 list"

definition e_GetCapabilities :: "NetDevCapabilities option \<Rightarrow> NetDevCapabilities option" where
  "e_GetCapabilities out =
     (case out of
        None \<Rightarrow> None
      | Some c \<Rightarrow> Some (c\<lparr>cap_flags := 0, rx_queues := 1, tx_queues := 1, max_frame_size := 1518,
                         link_speed_bps := 1000000000, factory_mac := replicate 6 0\<rparr>))"

definition e1000e_reference_register :: "ptr \<Rightarrow> registry \<Rightarrow> int32 \<times> registry" where
  "e1000e_reference_register g_e1000e_iface g = NetDev_Register (Some ''e1000e'') g_e1000e_iface g"

section \<open>What a registry promises\<close>

text \<open>A registry of at most \<open>cap\<close> names is a finite map, and these are its operations.\<close>

definition spec_register :: "nat \<Rightarrow> string option \<Rightarrow> ptr \<Rightarrow> (string \<rightharpoonup> ptr) \<Rightarrow> int32 \<times> (string \<rightharpoonup> ptr)" where
  "spec_register cap name iface m =
     (case name of
        None \<Rightarrow> (-1, m)
      | Some nm \<Rightarrow> if iface \<noteq> NULL \<and> card (dom m) < cap \<and> nm \<notin> dom m then (0, m(nm \<mapsto> iface)) else (-1, m))"

definition spec_unregister :: "string \<Rightarrow> (string \<rightharpoonup> ptr) \<Rightarrow> int32 \<times> (string \<rightharpoonup> ptr)" where
  "spec_unregister name m = (if name \<in> dom m then (0, m(name := None)) else (-1, m))"

datatype reg_op = Add "string option" ptr | Del string

fun reg_run ::
  "(string option \<Rightarrow> ptr \<Rightarrow> 'g \<Rightarrow> int32 \<times> 'g) \<Rightarrow> (string \<Rightarrow> 'g \<Rightarrow> int32 \<times> 'g) \<Rightarrow> reg_op list \<Rightarrow> 'g \<Rightarrow> int32 list \<times> 'g"
where
  "reg_run reg unreg [] g = ([], g)"
| "reg_run reg unreg (Add n i # ops) g =
     (case reg n i g of (rc, g') \<Rightarrow> case reg_run reg unreg ops g' of (rcs, g'') \<Rightarrow> (rc # rcs, g''))"
| "reg_run reg unreg (Del n # ops) g =
     (case unreg n g of (rc, g') \<Rightarrow> case reg_run reg unreg ops g' of (rcs, g'') \<Rightarrow> (rc # rcs, g''))"

locale name_registry =
  fixes invar :: "'g \<Rightarrow> bool"
    and amap :: "'g \<Rightarrow> string \<rightharpoonup> ptr"
    and cap :: nat
    and reg :: "string option \<Rightarrow> ptr \<Rightarrow> 'g \<Rightarrow> int32 \<times> 'g"
    and unreg :: "string \<Rightarrow> 'g \<Rightarrow> int32 \<times> 'g"
  assumes reg_map: "invar g \<Longrightarrow> reg n i g = (rc, g') \<Longrightarrow> invar g' \<and> spec_register cap n i (amap g) = (rc, amap g')"
    and unreg_map: "invar g \<Longrightarrow> unreg nm g = (rc, g') \<Longrightarrow> invar g' \<and> spec_unregister nm (amap g) = (rc, amap g')"
begin

lemma run_map:
  assumes "invar g" "reg_run reg unreg ops g = (rcs, g')"
  shows "invar g' \<and> reg_run (spec_register cap) spec_unregister ops (amap g) = (rcs, amap g')"
  using assms
proof (induction ops arbitrary: g rcs g')
  case (Cons x ops)
  show ?case
  proof (cases x)
    case (Add n i)
    obtain rc g1 where r: "reg n i g = (rc, g1)" by fastforce
    obtain rcs1 g2 where rest: "reg_run reg unreg ops g1 = (rcs1, g2)" by fastforce
    from reg_map [OF Cons.prems(1) r] Cons.IH [OF _ rest] r rest Cons.prems(2) Add show ?thesis by simp
  next
    case (Del n)
    obtain rc g1 where r: "unreg n g = (rc, g1)" by fastforce
    obtain rcs1 g2 where rest: "reg_run reg unreg ops g1 = (rcs1, g2)" by fastforce
    from unreg_map [OF Cons.prems(1) r] Cons.IH [OF _ rest] r rest Cons.prems(2) Del show ?thesis by simp
  qed
qed simp

end

section \<open>The table implements it\<close>

definition live :: "registry \<Rightarrow> (string \<times> ptr) list" where
  "live g = map (\<lambda>s. (slot_name s, slot_iface s)) (take (nat (g_count g)) (g_registry g))"

definition registry_wf :: "registry \<Rightarrow> bool" where
  "registry_wf g \<longleftrightarrow> int (length (g_registry g)) = NETDEV_MAX_REGISTERED \<and>
     0 \<le> g_count g \<and> g_count g \<le> NETDEV_MAX_REGISTERED \<and> distinct (map fst (live g))"

definition registered :: "registry \<Rightarrow> string \<rightharpoonup> ptr" where
  "registered g = map_of (live g)"

lemma length_live: "registry_wf g \<Longrightarrow> int (length (live g)) = g_count g"
  by (auto simp: registry_wf_def live_def)

lemma nth_live:
  "registry_wf g \<Longrightarrow> k < length (live g) \<Longrightarrow>
   live g ! k = (slot_name (g_registry g ! k), slot_iface (g_registry g ! k))"
  by (simp add: live_def)

lemma find_name_cases [consumes 1, case_names none found]:
  assumes "registry_wf g"
  obtains "find_name name g = -1" "name \<notin> fst ` set (live g)"
  | k where "find_name name g = int k" "k < length (live g)" "fst (live g ! k) = name"
proof -
  let ?P = "\<lambda>e. fst e = name"
  have eq: "find_name name g = c_search (\<lambda>i. ?P (aget (live g) i)) 0 (g_count g)"
    unfolding find_name_def
    by (rule c_search_cong) (use assms length_live [OF assms] nth_live in \<open>simp add: aget_def\<close>)
  show ?thesis
  proof (cases rule: c_search_list [OF length_live [OF assms, symmetric], of ?P, case_names none found])
    case none
    then have "name \<notin> fst ` set (live g)" by blast
    with none(1) eq show ?thesis by (intro that(1)) simp_all
  next
    case (found k)
    then show ?thesis using that(2) [of k] eq by simp
  qed
qed

lemma live_register:
  assumes "registry_wf g" "g_count g < NETDEV_MAX_REGISTERED"
    and "g' = g\<lparr>g_registry := aset (g_registry g) (g_count g) \<lparr>slot_name = nm, slot_iface = p\<rparr>, g_count := g_count g + 1\<rparr>"
  shows "live g' = live g @ [(nm, p)]"
proof -
  have "nat (g_count g + 1) = Suc (nat (g_count g))" "nat (g_count g) < length (g_registry g)"
    using assms(1,2) by (auto simp: registry_wf_def)
  then show ?thesis by (simp add: assms(3) live_def aset_def take_Suc_conv_app_nth)
qed

lemma swap_remove:
  assumes "distinct xs" "k < length xs"
  shows "set (butlast (xs[k := last xs])) = set xs - {xs ! k}" "distinct (butlast (xs[k := last xs]))"
proof -
  from assms(2) obtain ys z where xs: "xs = ys @ [z]" by (cases xs rule: rev_cases) auto
  show "set (butlast (xs[k := last xs])) = set xs - {xs ! k}"
    using assms by (cases "k = length ys")
      (auto simp: xs list_update_append nth_append set_update_distinct)
  show "distinct (butlast (xs[k := last xs]))"
    using assms by (cases "k = length ys") (auto simp: xs list_update_append distinct_list_update)
qed

lemma live_unregister:
  assumes "registry_wf g" "k < length (live g)"
    and "g' = g\<lparr>g_registry := aset (g_registry g) (int k) (aget (g_registry g) (g_count g - 1)), g_count := g_count g - 1\<rparr>"
  shows "live g' = butlast ((live g)[k := last (live g)])"
proof -
  let ?n = "nat (g_count g)"
  let ?xs = "take ?n (g_registry g)"
  have n: "?n \<le> length (g_registry g)" "0 < ?n" "nat (g_count g - 1) = ?n - 1"
    using assms(1,2) length_live [OF assms(1)] by (auto simp: registry_wf_def)
  have "last (take ?n (g_registry g)) = g_registry g ! (?n - 1)"
    using n by (subst last_conv_nth) auto
  then have "take (nat (g_count g')) (g_registry g') = butlast (?xs[k := last ?xs])"
    using n by (simp add: assms(3) aset_def aget_def butlast_take take_update_swap butlast_list_update list_update_beyond)
  moreover have "last (map f ?xs) = f (last ?xs)" for f :: "netdev_slot \<Rightarrow> string \<times> ptr"
    using n by (intro last_map) auto
  ultimately show ?thesis by (simp add: live_def map_butlast map_update)
qed

lemma map_of_remove:
  assumes "distinct (map fst xs)" "set ys = set xs - {(n, v)}" "(n, v) \<in> set xs" "distinct (map fst ys)"
  shows "map_of ys = (map_of xs)(n := None)"
proof
  fix x
  have ys: "map_of ys x = Some w \<longleftrightarrow> (x, w) \<in> set xs \<and> (x, w) \<noteq> (n, v)" for w
    using map_of_eq_Some_iff [OF assms(4)] assms(2) by simp
  have xs: "map_of xs x = Some w \<longleftrightarrow> (x, w) \<in> set xs" for w
    using map_of_eq_Some_iff [OF assms(1)] by simp
  show "map_of ys x = ((map_of xs)(n := None)) x"
  proof (cases "x = n")
    case True
    with ys eq_key_imp_eq_value [OF assms(1) _ assms(3)] have "map_of ys x \<noteq> Some w" for w by blast
    with True show ?thesis by auto
  next
    case False
    with ys xs have "map_of ys x = Some w \<longleftrightarrow> map_of xs x = Some w" for w by simp
    with False show ?thesis by (metis fun_upd_apply not_None_eq)
  qed
qed

lemma card_registered: "registry_wf g \<Longrightarrow> int (card (dom (registered g))) = g_count g"
  using length_live [of g] distinct_card [of "map fst (live g)"]
  by (simp add: registered_def registry_wf_def dom_map_of_conv_image_fst)

interpretation nd: name_registry registry_wf registered 16 NetDev_Register NetDev_Unregister
proof (unfold_locales, goal_cases)
  case (1 g n i rc g')
  show ?case
  proof (cases n)
    case (Some nm)
    note card = card_registered [OF 1(1)]
    show ?thesis
    proof (cases rule: find_name_cases [OF 1(1), of nm, case_names none found])
      case none
      show ?thesis
      proof (cases "i \<noteq> NULL \<and> g_count g < NETDEV_MAX_REGISTERED")
        case True
        with 1 Some none have rc: "rc = 0" and
          g': "g' = g\<lparr>g_registry := aset (g_registry g) (g_count g) \<lparr>slot_name = nm, slot_iface = i\<rparr>, g_count := g_count g + 1\<rparr>"
          by (auto simp: NetDev_Register_def)
        note l = live_register [OF 1(1) _ g']
        have wf: "registry_wf g'"
          using 1(1) True none l by (auto simp: registry_wf_def g')
        have "nm \<notin> dom (registered g)" using none(2) by (simp add: registered_def dom_map_of_conv_image_fst)
        moreover from this have "registered g' = (registered g)(nm \<mapsto> i)"
          using l True by (auto simp: registered_def fun_eq_iff map_add_def split: option.splits)
        ultimately show ?thesis using wf True rc card Some by (simp add: spec_register_def)
      next
        case False
        then have "NetDev_Register n i g = (-1, g)" using Some by (auto simp: NetDev_Register_def)
        moreover have "spec_register 16 n i (registered g) = (-1, registered g)"
          using False card Some by (auto simp: spec_register_def)
        ultimately show ?thesis using 1 by simp
      qed
    next
      case (found k)
      then have "nm \<in> dom (registered g)"
        by (auto simp: registered_def dom_map_of_conv_image_fst intro!: rev_image_eqI [OF nth_mem])
      with 1 Some found show ?thesis by (auto simp: NetDev_Register_def spec_register_def split: if_splits)
    qed
  qed (use 1 in \<open>simp add: NetDev_Register_def spec_register_def\<close>)
next
  case (2 g nm rc g')
  show ?case
  proof (cases rule: find_name_cases [OF 2(1), of nm, case_names none found])
    case none
    with 2 show ?thesis
      by (auto simp: NetDev_Unregister_def spec_unregister_def registered_def dom_map_of_conv_image_fst)
  next
    case (found k)
    have g': "g' = g\<lparr>g_registry := aset (g_registry g) (int k) (aget (g_registry g) (g_count g - 1)), g_count := g_count g - 1\<rparr>"
      and rc: "rc = 0" using 2(2) found(1) by (auto simp: NetDev_Unregister_def)
    note l = live_unregister [OF 2(1) found(2) g']
    have d: "distinct (map fst (live g))" using 2(1) by (simp add: registry_wf_def)
    have "map fst (live g') = butlast ((map fst (live g))[k := last (map fst (live g))])"
    proof -
      have "last (map fst (live g)) = fst (last (live g))" by (rule last_map) (use found(2) in auto)
      then show ?thesis by (simp add: l map_butlast map_update)
    qed
    then have d': "distinct (map fst (live g'))" using swap_remove(2) [OF d] found(2) by simp
    have "set (live g') = set (live g) - {live g ! k}"
      unfolding l by (rule swap_remove(1)) (use d found(2) in \<open>simp_all add: distinct_map\<close>)
    moreover have e: "live g ! k = (nm, snd (live g ! k))" using found(3) by (metis prod.collapse)
    ultimately have "registered g' = (registered g)(nm := None)"
      unfolding registered_def using map_of_remove [OF d _ _ d'] found(2) by (metis nth_mem)
    moreover have "registry_wf g'"
      using 2(1) d' length_live [OF 2(1)] found(2) by (auto simp: registry_wf_def g')
    moreover have "nm \<in> dom (registered g)"
      using e found(2) unfolding registered_def dom_map_of_conv_image_fst by (metis fst_conv image_eqI nth_mem)
    ultimately show ?thesis by (simp add: spec_unregister_def rc)
  qed
qed

lemma lookup_registered:
  assumes "registry_wf g"
  shows "NetDev_Lookup name g = (case registered g name of None \<Rightarrow> NULL | Some p \<Rightarrow> p)"
proof (cases rule: find_name_cases [OF assms, of name, case_names none found])
  case none
  then have "registered g name = None" by (simp add: registered_def map_of_eq_None_iff)
  with none(1) show ?thesis by (simp add: NetDev_Lookup_def)
next
  case (found k)
  have "live g ! k = (name, slot_iface (g_registry g ! k))"
    using nth_live [OF assms found(2)] found(3) by simp
  then have "registered g name = Some (slot_iface (g_registry g ! k))"
    unfolding registered_def using assms found(2) by (metis map_of_is_SomeI nth_mem registry_wf_def)
  with found(1) show ?thesis by (simp add: NetDev_Lookup_def aget_def)
qed

lemma list_live:
  assumes "registry_wf g"
  shows "NetDev_List max_names g = (min (int (length (live g))) max_names, take (nat max_names) (map fst (live g)))"
proof -
  have n: "(if g_count g < max_names then g_count g else max_names) = min (g_count g) max_names" by simp
  have "snd (NetDev_List max_names g) = take (nat max_names) (map fst (live g))"
  proof (rule nth_equalityI)
    show "length (snd (NetDev_List max_names g)) = length (take (nat max_names) (map fst (live g)))"
      using assms length_live [OF assms] by (simp add: NetDev_List_def Let_def n)
    fix i assume "i < length (snd (NetDev_List max_names g))"
    then have i: "int i < g_count g" "i < nat max_names" by (auto simp: NetDev_List_def Let_def n)
    then have "[0..min (g_count g) max_names - 1] ! i = int i" by (subst nth_upto) auto
    with i show "snd (NetDev_List max_names g) ! i = take (nat max_names) (map fst (live g)) ! i"
      using assms length_live [OF assms] nth_live [OF assms, of i]
      by (simp add: NetDev_List_def Let_def aget_def n)
  qed
  moreover have "fst (NetDev_List max_names g) = min (int (length (live g))) max_names"
    using assms length_live [OF assms] by (simp add: NetDev_List_def Let_def registry_wf_def)
  ultimately show ?thesis by (metis prod.collapse)
qed

lemma live_registered:
  assumes "registry_wf g"
  shows "set (map fst (live g)) = dom (registered g)" "distinct (map fst (live g))"
    "int (card (dom (registered g))) = int (length (live g))" "length (live g) \<le> 16"
proof -
  show d: "distinct (map fst (live g))" and s: "set (map fst (live g)) = dom (registered g)"
    using assms by (simp_all add: registered_def dom_map_of_conv_image_fst registry_wf_def)
  from distinct_card [OF d] s show "int (card (dom (registered g))) = int (length (live g))" by simp
  show "length (live g) \<le> 16" using assms length_live [OF assms] by (simp add: registry_wf_def)
qed

lemma registry_zero_wf: "registry_wf registry_zero" "registered registry_zero = Map.empty"
  by (simp_all add: registry_wf_def registry_zero_def live_def registered_def)

section \<open>The registry is a map\<close>

text \<open>
  C17: whatever registrations and removals are made, in whatever order, the driver table answers
  as a map from at most sixteen names to interfaces: each call returns what the map's
  operation returns, a lookup finds the interface registered last under a name that has not
  been removed since, and a listing into a big enough array names every registered driver once.
  A listing into an array of any length \<open>k\<close> returns the smaller of \<open>k\<close> and the number of drivers, and
  names the first so many of them. The swap of the last entry into a gap never shows.
\<close>

theorem registry_is_map:
  "case (reg_run NetDev_Register NetDev_Unregister ops registry_zero,
         reg_run (spec_register 16) spec_unregister ops Map.empty) of
     ((rcs, g), (rcs', m)) \<Rightarrow>
       rcs = rcs' \<and> NetDev_Lookup name g = (case m name of None \<Rightarrow> NULL | Some p \<Rightarrow> p) \<and>
       set (snd (NetDev_List NETDEV_MAX_REGISTERED g)) = dom m \<and>
       distinct (snd (NetDev_List NETDEV_MAX_REGISTERED g)) \<and>
       fst (NetDev_List k g) = min (int (card (dom m))) k \<and>
       snd (NetDev_List k g) = take (nat k) (snd (NetDev_List NETDEV_MAX_REGISTERED g))"
proof -
  obtain rcs g where run: "reg_run NetDev_Register NetDev_Unregister ops registry_zero = (rcs, g)" by fastforce
  note m = nd.run_map [OF registry_zero_wf(1) run, unfolded registry_zero_wf(2)]
  with run lookup_registered [of g name] list_live [of g] live_registered [of g] show ?thesis by simp
qed

end
