(* ===== verification/Atomics.thy ===== *)
theory Atomics
  imports Prelude
begin

unbundle bit_operations_syntax

text \<open>
  Atomic operations (\<open>src/phase1_osal/rump_atomics.c\<close>). Every read-modify-write of the file is a
  loop around \<open>atomic_cas_32\<close>, which is itself a loop of load-reserve and store-conditional.
  \<open>at_do\<close> takes tasks through these loops instruction by instruction, on one shared 32-bit
  cell and in any interleaving; a reservation is lost when anyone stores to the cell and may be
  lost for no reason at all. The byte swaps are at the end.
\<close>

section \<open>The operations\<close>

text \<open>
  What an operation stores, given the value it finds. \<open>Cas\<close> is a direct call of
  \<open>atomic_cas_32\<close>; the others are the loops.
\<close>

datatype rmw = Cas uint32 uint32 | Add uint32 | Or uint32 | And uint32 | Swap uint32

fun rmw_new :: "rmw \<Rightarrow> uint32 \<Rightarrow> uint32" where
  "rmw_new (Cas old new) v = (if v = old then new else v)"
| "rmw_new (Add val) v = v + val"
| "rmw_new (Or val) v = v OR val"
| "rmw_new (And val) v = v AND val"
| "rmw_new (Swap val) v = val"

text \<open>
  The functions of the interface: the operation each performs and, from the value the operation
  found, the value it returns. A signed argument is converted to 32 bits as in C.
\<close>

definition atomic_cas_32 :: "uint32 \<Rightarrow> uint32 \<Rightarrow> rmw \<times> (uint32 \<Rightarrow> uint32)" where
  "atomic_cas_32 old new = (Cas old new, \<lambda>prev. prev)"

definition atomic_cas_uint :: "uint32 \<Rightarrow> uint32 \<Rightarrow> rmw \<times> (uint32 \<Rightarrow> uint32)" where
  "atomic_cas_uint old new = atomic_cas_32 old new"

definition atomic_cas_ptr :: "ptr \<Rightarrow> ptr \<Rightarrow> rmw \<times> (uint32 \<Rightarrow> ptr)" where
  "atomic_cas_ptr old new = atomic_cas_32 old new"

definition atomic_add_int :: "int32 \<Rightarrow> rmw \<times> (uint32 \<Rightarrow> unit)" where
  "atomic_add_int val = (Add (of_int val), \<lambda>_. ())"

definition atomic_add_long :: "int32 \<Rightarrow> rmw \<times> (uint32 \<Rightarrow> unit)" where
  "atomic_add_long val = atomic_add_int val"

definition atomic_add_long_nv :: "int32 \<Rightarrow> rmw \<times> (uint32 \<Rightarrow> uint32)" where
  "atomic_add_long_nv val = (Add (of_int val), \<lambda>prev. prev + of_int val)"

definition atomic_inc_uint :: "rmw \<times> (uint32 \<Rightarrow> unit)" where
  "atomic_inc_uint = atomic_add_int 1"

definition atomic_inc_uint_nv :: "rmw \<times> (uint32 \<Rightarrow> uint32)" where
  "atomic_inc_uint_nv = (Add 1, \<lambda>prev. prev + 1)"

definition atomic_dec_uint :: "rmw \<times> (uint32 \<Rightarrow> unit)" where
  "atomic_dec_uint = atomic_add_int (-1)"

definition atomic_dec_uint_nv :: "rmw \<times> (uint32 \<Rightarrow> uint32)" where
  "atomic_dec_uint_nv = (Add (-1), \<lambda>prev. prev - 1)"

definition atomic_or_32 :: "uint32 \<Rightarrow> rmw \<times> (uint32 \<Rightarrow> unit)" where
  "atomic_or_32 val = (Or val, \<lambda>_. ())"

definition atomic_or_uint :: "uint32 \<Rightarrow> rmw \<times> (uint32 \<Rightarrow> unit)" where
  "atomic_or_uint val = atomic_or_32 val"

definition atomic_and_32 :: "uint32 \<Rightarrow> rmw \<times> (uint32 \<Rightarrow> unit)" where
  "atomic_and_32 val = (And val, \<lambda>_. ())"

definition atomic_and_uint :: "uint32 \<Rightarrow> rmw \<times> (uint32 \<Rightarrow> unit)" where
  "atomic_and_uint val = atomic_and_32 val"

definition atomic_swap_uint :: "uint32 \<Rightarrow> rmw \<times> (uint32 \<Rightarrow> uint32)" where
  "atomic_swap_uint val = (Swap val, \<lambda>prev. prev)"

definition atomic_swap_ptr :: "ptr \<Rightarrow> rmw \<times> (uint32 \<Rightarrow> ptr)" where
  "atomic_swap_ptr val = atomic_swap_uint val"

section \<open>Fetch and operate\<close>

text \<open>
  \<open>atomic_fetchop_32\<close>, which nothing calls: one load-reserve, then rounds of a conditional store
  and, when it fails, another load-reserve. A round is what happens to the store: \<open>None\<close> when it
  succeeds, or the value that the second load finds. The result is the value returned and whether the
  operand was stored; \<open>None\<close> when the rounds are used up.
\<close>

definition fetchop_next :: "int32 \<Rightarrow> uint32 \<Rightarrow> uint32 \<Rightarrow> uint32" where
  "fetchop_next opc operand prev =
     (if opc = 0 then prev + operand else if opc = 1 then prev OR operand
      else if opc = 2 then prev AND operand else prev)"

fun atomic_fetchop_32 :: "uint32 option list \<Rightarrow> uint32 \<Rightarrow> uint32 \<Rightarrow> int32 \<Rightarrow> (uint32 \<times> bool) option" where
  "atomic_fetchop_32 [] prev operand opc = None"
| "atomic_fetchop_32 (round # rounds) prev operand opc =
     (let new = fetchop_next opc operand prev;
          got = (case round of None \<Rightarrow> new | Some found \<Rightarrow> found)
      in if got = new then Some (prev, round = None) else atomic_fetchop_32 rounds got operand opc)"

text \<open>
  The rounds that a store ends are those whose loads never find the value that was to be stored;
  a load that finds it is taken for the store: the function returns and has stored nothing.
\<close>

theorem fetchop_mistakes_load_for_store:
  "(\<forall>found \<in> set fs. found \<notin> fetchop_next opc operand ` set (prev # fs)) \<Longrightarrow>
     atomic_fetchop_32 (map Some fs @ [None]) prev operand opc = Some (last (prev # fs), True)"
  "atomic_fetchop_32 (Some (fetchop_next opc operand prev) # rounds) prev operand opc = Some (prev, False)"
proof -
  show "atomic_fetchop_32 (map Some fs @ [None]) prev operand opc = Some (last (prev # fs), True)"
    if "\<forall>found \<in> set fs. found \<notin> fetchop_next opc operand ` set (prev # fs)"
    using that by (induction fs arbitrary: prev) (auto simp: Let_def)
qed simp

section \<open>Tasks on one cell\<close>

text \<open>
  \<open>Begin op\<close>: about to read the cell at the top of the loop. \<open>Loaded op old new\<close>: about to
  execute \<open>lwarx\<close> with these arguments. \<open>Reserved op old new\<close>: \<open>lwarx\<close> found \<open>old\<close> and the
  comparison succeeded; about to execute \<open>stwcx.\<close>. A completed operation is logged with its
  task and the value it found.
\<close>

datatype at_pc = Idle | Begin rmw | Loaded rmw uint32 uint32 | Reserved rmw uint32 uint32

record at_sys =
  cell :: uint32
  at_pcs :: "nat \<Rightarrow> at_pc"
  resv :: "nat \<Rightarrow> bool"
  at_log :: "(nat \<times> rmw \<times> uint32) list"

datatype at_act = Call nat rmw | Load nat | Lwarx nat | Stwcx nat | Lose nat

fun is_cas :: "rmw \<Rightarrow> bool" where
  "is_cas (Cas old new) = True"
| "is_cas op = False"

fun call_pc :: "rmw \<Rightarrow> at_pc" where
  "call_pc (Cas old new) = Loaded (Cas old new) old new"
| "call_pc op = Begin op"

fun at_do :: "at_act \<Rightarrow> at_sys \<Rightarrow> at_sys option" where
  "at_do (Call t op) s =
     (if at_pcs s t = Idle then Some (s\<lparr>at_pcs := (at_pcs s)(t := call_pc op)\<rparr>) else None)"
| "at_do (Load t) s =
     (case at_pcs s t of
        Begin op \<Rightarrow> Some (s\<lparr>at_pcs := (at_pcs s)(t := Loaded op (cell s) (rmw_new op (cell s)))\<rparr>)
      | _ \<Rightarrow> None)"
| "at_do (Lwarx t) s =
     (case at_pcs s t of
        Loaded op old new \<Rightarrow>
          if cell s = old
          then Some (s\<lparr>at_pcs := (at_pcs s)(t := Reserved op old new), resv := (resv s)(t := True)\<rparr>)
          else if is_cas op
          then Some (s\<lparr>at_pcs := (at_pcs s)(t := Idle), resv := (resv s)(t := True), at_log := at_log s @ [(t, op, cell s)]\<rparr>)
          else Some (s\<lparr>at_pcs := (at_pcs s)(t := Begin op), resv := (resv s)(t := True)\<rparr>)
      | _ \<Rightarrow> None)"
| "at_do (Stwcx t) s =
     (case at_pcs s t of
        Reserved op old new \<Rightarrow>
          if resv s t
          then Some (s\<lparr>cell := new, at_pcs := (at_pcs s)(t := Idle), resv := (\<lambda>_. False), at_log := at_log s @ [(t, op, old)]\<rparr>)
          else Some (s\<lparr>at_pcs := (at_pcs s)(t := Loaded op old new)\<rparr>)
      | _ \<Rightarrow> None)"
| "at_do (Lose t) s = Some (s\<lparr>resv := (resv s)(t := False)\<rparr>)"

definition at_start :: "uint32 \<Rightarrow> at_sys" where
  "at_start v = \<lparr>cell = v, at_pcs = (\<lambda>_. Idle), resv = (\<lambda>_. False), at_log = []\<rparr>"

inductive at_reach :: "uint32 \<Rightarrow> at_sys \<Rightarrow> bool" for v where
  at_init: "at_reach v (at_start v)"
| at_next: "at_reach v s \<Longrightarrow> at_do a s = Some s' \<Longrightarrow> at_reach v s'"

section \<open>Operations take effect one at a time\<close>

text \<open>
  \<open>replay v log\<close> performs the logged operations one after the other on \<open>v\<close>; it fails when an
  operation reports another value than the one it would find.
\<close>

fun replay :: "uint32 \<Rightarrow> (nat \<times> rmw \<times> uint32) list \<Rightarrow> uint32 option" where
  "replay v [] = Some v"
| "replay v ((t, op, prev) # log) = (if prev = v then replay (rmw_new op v) log else None)"

fun fits :: "rmw \<Rightarrow> uint32 \<Rightarrow> bool" where
  "fits (Cas old new) v = (old = v)"
| "fits op v = True"

fun pc_ok :: "at_pc \<Rightarrow> bool \<Rightarrow> uint32 \<Rightarrow> bool" where
  "pc_ok Idle r v = True"
| "pc_ok (Begin op) r v = (\<not> is_cas op)"
| "pc_ok (Loaded op old new) r v = (new = rmw_new op old \<and> fits op old)"
| "pc_ok (Reserved op old new) r v = (new = rmw_new op old \<and> fits op old \<and> (r \<longrightarrow> v = old))"

definition at_inv :: "uint32 \<Rightarrow> at_sys \<Rightarrow> bool" where
  "at_inv v s \<longleftrightarrow> replay v (at_log s) = Some (cell s) \<and> (\<forall>t. pc_ok (at_pcs s t) (resv s t) (cell s))"

lemma replay_append:
  "replay v log = Some w \<Longrightarrow> replay v (log @ [(t, op, w)]) = Some (rmw_new op w)"
  by (induction v log rule: replay.induct) (simp_all split: if_splits)

lemma pc_ok_call: "pc_ok (call_pc op) r v"
  by (cases op) simp_all

lemma pc_ok_unreserved: "pc_ok pc r v \<Longrightarrow> pc_ok pc False w"
  by (cases pc) simp_all

lemma fits_loop: "\<not> is_cas op \<Longrightarrow> fits op v"
  by (cases op) simp_all

lemma cas_missed: "is_cas op \<Longrightarrow> fits op old \<Longrightarrow> v \<noteq> old \<Longrightarrow> rmw_new op v = v"
  by (cases op) simp_all

lemma at_invD:
  assumes "at_inv v s"
  shows "replay v (at_log s) = Some (cell s)" "pc_ok (at_pcs s t) (resv s t) (cell s)"
  using assms by (simp_all add: at_inv_def)

lemma at_inv_move:
  assumes "at_inv v s" "pc_ok pc r (cell s)" "\<And>u. u \<noteq> t \<Longrightarrow> resv' u = resv s u" "resv' t = r"
  shows "at_inv v (s\<lparr>at_pcs := (at_pcs s)(t := pc), resv := resv'\<rparr>)"
  using assms by (auto simp: at_inv_def)

lemma at_inv_step:
  assumes "at_do a s = Some s'" "at_inv v s"
  shows "at_inv v s'"
proof (cases a)
  case (Call t op)
  with assms(1) have "s' = s\<lparr>at_pcs := (at_pcs s)(t := call_pc op), resv := resv s\<rparr>"
    by (simp split: if_splits)
  with at_inv_move [OF assms(2) pc_ok_call, of t "resv s"] show ?thesis by simp
next
  case (Load t)
  with assms(1) obtain op where pc: "at_pcs s t = Begin op"
    and s': "s' = s\<lparr>at_pcs := (at_pcs s)(t := Loaded op (cell s) (rmw_new op (cell s))), resv := resv s\<rparr>"
    by (simp split: at_pc.splits)
  from at_invD(2) [OF assms(2), of t] pc have "\<not> is_cas op" by simp
  then show ?thesis unfolding s' by (intro at_inv_move [OF assms(2)]) (simp_all add: fits_loop)
next
  case (Lwarx t)
  with assms(1) obtain op old new where pc: "at_pcs s t = Loaded op old new" by (simp split: at_pc.splits)
  from at_invD(2) [OF assms(2), of t] pc have ok: "new = rmw_new op old" "fits op old" by simp_all
  consider "cell s = old" | "cell s \<noteq> old" "is_cas op" | "cell s \<noteq> old" "\<not> is_cas op" by blast
  then show ?thesis
  proof cases
    case 2
    let ?s = "s\<lparr>at_pcs := (at_pcs s)(t := Idle), resv := (resv s)(t := True)\<rparr>"
    have inv: "at_inv v ?s" by (rule at_inv_move [OF assms(2)]) simp_all
    have "s' = ?s\<lparr>at_log := at_log s @ [(t, op, cell s)]\<rparr>" using assms(1) Lwarx pc 2 by simp
    with inv replay_append [OF at_invD(1) [OF assms(2)], of t op] cas_missed [OF 2(2) ok(2) 2(1)]
    show ?thesis by (simp add: at_inv_def)
  qed (use assms(1) Lwarx pc ok in \<open>auto intro!: at_inv_move [OF assms(2)]\<close>)
next
  case (Stwcx t)
  with assms(1) obtain op old new where pc: "at_pcs s t = Reserved op old new" by (simp split: at_pc.splits)
  from at_invD(2) [OF assms(2), of t] pc
  have ok: "new = rmw_new op old" "fits op old" "resv s t \<Longrightarrow> cell s = old" by simp_all
  show ?thesis
  proof (cases "resv s t")
    case True
    then have "s' = s\<lparr>cell := new, at_pcs := (at_pcs s)(t := Idle), resv := (\<lambda>_. False),
        at_log := at_log s @ [(t, op, old)]\<rparr>" using assms(1) Stwcx pc by simp
    with at_invD [OF assms(2)] replay_append [OF at_invD(1) [OF assms(2)], of t op] ok True show ?thesis
      by (auto simp: at_inv_def intro: pc_ok_unreserved)
  next
    case False
    have "Some s' = Some (s\<lparr>at_pcs := (at_pcs s)(t := Loaded op old new), resv := resv s\<rparr>)"
      unfolding assms(1) [symmetric] using Stwcx pc False by simp
    then have "s' = s\<lparr>at_pcs := (at_pcs s)(t := Loaded op old new), resv := resv s\<rparr>" by (simp only: option.inject)
    with ok show ?thesis by (simp only:) (rule at_inv_move [OF assms(2)], simp_all)
  qed
next
  case (Lose t)
  with assms(1) have "s' = s\<lparr>at_pcs := (at_pcs s)(t := at_pcs s t), resv := (resv s)(t := False)\<rparr>" by simp
  with at_inv_move [OF assms(2) pc_ok_unreserved [OF at_invD(2) [OF assms(2), of t]], of t "(resv s)(t := False)"]
  show ?thesis by simp
qed

lemma at_reach_inv: "at_reach v s \<Longrightarrow> at_inv v s"
proof (induction rule: at_reach.induct)
  case at_init
  show ?case by (simp add: at_inv_def at_start_def)
next
  case (at_next s a s')
  then show ?case by (blast intro: at_inv_step)
qed

section \<open>A task that is left alone finishes\<close>

fun next_act :: "nat \<Rightarrow> at_pc \<Rightarrow> at_act" where
  "next_act t (Begin op) = Load t"
| "next_act t (Loaded op old new) = Lwarx t"
| "next_act t pc = Stwcx t"

fun solo :: "nat \<Rightarrow> nat \<Rightarrow> at_sys \<Rightarrow> at_sys" where
  "solo 0 t s = s"
| "solo (Suc n) t s =
     (if at_pcs s t = Idle then s
      else case at_do (next_act t (at_pcs s t)) s of None \<Rightarrow> s | Some s' \<Rightarrow> solo n t s')"

lemma solo_numeral [simp]: "solo (numeral k) t s = solo (Suc (pred_numeral k)) t s"
  by (simp only: numeral_eq_Suc)

lemma solo_idle: "at_pcs s t = Idle \<Longrightarrow> solo n t s = s"
  by (cases n) simp_all

definition done_once :: "nat \<Rightarrow> at_sys \<Rightarrow> at_sys \<Rightarrow> bool" where
  "done_once t s s' \<longleftrightarrow> at_pcs s' t = Idle \<and> (\<exists>op prev. at_log s' = at_log s @ [(t, op, prev)])"

lemma solo_begin: "at_pcs s t = Begin op \<Longrightarrow> done_once t s (solo (Suc (Suc (Suc n))) t s)"
  by (simp add: done_once_def solo_idle)

lemma solo_loaded:
  assumes "at_pcs s t = Loaded op old new"
  shows "done_once t s (solo (Suc (Suc (Suc (Suc n)))) t s)"
proof (cases "cell s = old \<or> is_cas op")
  case True
  with assms show ?thesis by (auto simp: done_once_def solo_idle)
next
  case False
  let ?s = "s\<lparr>at_pcs := (at_pcs s)(t := Begin op), resv := (resv s)(t := True)\<rparr>"
  have "solo (Suc (Suc (Suc (Suc n)))) t s = solo (Suc (Suc (Suc n))) t ?s"
    using assms False by (simp del: solo.simps add: solo.simps(2) [of "Suc (Suc (Suc n))"])
  with solo_begin [of ?s t op n] show ?thesis by (simp add: done_once_def)
qed

lemma solo_done:
  assumes "at_pcs s t \<noteq> Idle"
  shows "done_once t s (solo (Suc (Suc (Suc (Suc (Suc n))))) t s)"
proof (cases "at_pcs s t")
  case (Begin op)
  then show ?thesis by (rule solo_begin)
next
  case (Loaded op old new)
  then show ?thesis by (rule solo_loaded)
next
  case (Reserved op old new)
  show ?thesis
  proof (cases "resv s t")
    case True
    with Reserved show ?thesis by (simp add: done_once_def solo_idle)
  next
    case False
    let ?s = "s\<lparr>at_pcs := (at_pcs s)(t := Loaded op old new)\<rparr>"
    have "solo (Suc (Suc (Suc (Suc (Suc n))))) t s = solo (Suc (Suc (Suc (Suc n)))) t ?s"
      using Reserved False by (simp del: solo.simps add: solo.simps(2) [of "Suc (Suc (Suc (Suc n)))"])
    with solo_loaded [of ?s t op old new n] show ?thesis by (simp add: done_once_def)
  qed
qed (use assms in simp)

section \<open>Byte swaps\<close>

definition bswap32 :: "uint32 \<Rightarrow> uint32" where
  "bswap32 v =
     drop_bit 24 (v AND 0xFF000000) OR drop_bit 8 (v AND 0x00FF0000) OR
     push_bit 8 (v AND 0x0000FF00) OR push_bit 24 (v AND 0x000000FF)"

definition bswap64 :: "uint64 \<Rightarrow> uint64" where
  "bswap64 v =
     push_bit 32 (ucast (bswap32 (ucast (v AND 0xFFFFFFFF)))) OR
     ucast (bswap32 (ucast (drop_bit 32 v)))"

definition byte_of :: "nat \<Rightarrow> 'a :: len word \<Rightarrow> 'a word" where
  "byte_of i v = take_bit 8 (drop_bit (8 * i) v)"

text \<open>The bit that bit \<open>n\<close> comes from when \<open>k + 1\<close> bytes are reversed.\<close>

definition swapped :: "nat \<Rightarrow> nat \<Rightarrow> nat" where
  "swapped k n = 8 * (k - n div 8) + n mod 8"

lemma byte_masks:
  "(0xFF000000 :: uint32) = push_bit 24 (mask 8)" "(0x00FF0000 :: uint32) = push_bit 16 (mask 8)"
  "(0x0000FF00 :: uint32) = push_bit 8 (mask 8)" "(0x000000FF :: uint32) = mask 8"
  "(0xFFFFFFFF :: uint64) = mask 32"
  by (simp_all add: mask_numeral)

lemma byte_cases [consumes 1, case_names 0 1 2 3]:
  assumes "n < (32 :: nat)"
  obtains m where "m < 8" "n = m" | m where "m < 8" "n = 8 + m" | m where "m < 8" "n = 16 + m" | m where "m < 8" "n = 24 + m"
proof -
  consider "n < 8" | "8 \<le> n" "n < 16" | "16 \<le> n" "n < 24" | "24 \<le> n" using assms by linarith
  then show ?thesis
    by cases (use assms that(1) [of n] that(2) [of "n - 8"] that(3) [of "n - 16"] that(4) [of "n - 24"] in simp_all)
qed

lemma swapped_byte: "m < 8 \<Longrightarrow> swapped k (8 * b + m) = 8 * (k - b) + m"
  by (simp add: swapped_def)

lemma swapped_parts:
  "m < 8 \<Longrightarrow> swapped 3 m = 24 + m" "m < 8 \<Longrightarrow> swapped 3 (8 + m) = 16 + m"
  "m < 8 \<Longrightarrow> swapped 3 (16 + m) = 8 + m" "m < 8 \<Longrightarrow> swapped 3 (24 + m) = m"
  using swapped_byte [of m 3 0] swapped_byte [of m 3 1] swapped_byte [of m 3 2] swapped_byte [of m 3 3] by simp_all

lemma bit_bswap32:
  assumes "n < 32"
  shows "bit (bswap32 v) n \<longleftrightarrow> bit v (swapped 3 n)"
  using assms unfolding bswap32_def byte_masks
  by (cases rule: byte_cases)
    (simp_all add: swapped_parts bit_or_iff bit_and_iff bit_drop_bit_eq bit_push_bit_iff bit_mask_iff)

lemma swapped_lt: "n < 8 * Suc k \<Longrightarrow> swapped k n < 8 * Suc k"
  using mod_less_divisor [of 8 n] by (simp add: swapped_def less_Suc_eq_le)

lemma swapped_swapped: "n < 8 * Suc k \<Longrightarrow> swapped k (swapped k n) = n"
  by (simp add: swapped_def)

lemma bswap32_bswap32: "bswap32 (bswap32 v) = v"
  by (rule bit_word_eqI) (use swapped_lt [of _ 3] swapped_swapped [of _ 3] in \<open>simp add: bit_bswap32\<close>)

lemma swapped_halves:
  assumes "n < 64"
  shows "swapped 7 n = (if n < 32 then 32 + swapped 3 n else swapped 3 (n - 32))"
proof (cases "n < 32")
  case True
  then have "7 - n div 8 = 4 + (3 - n div 8)" by simp
  with True show ?thesis by (simp add: swapped_def)
next
  case False
  then obtain m where m: "n = 32 + m" by (metis add.commute le_add_diff_inverse2 linorder_not_less)
  have "(32 + m) div 8 = 4 + m div 8" "(32 + m) mod 8 = m mod 8"
    using div_mult_self1 [of 8 m 4] mod_mult_self1 [of m 4 8] by (simp_all add: add.commute)
  with False show ?thesis by (simp add: m swapped_def)
qed

lemma bit_bswap64:
  assumes "n < 64"
  shows "bit (bswap64 v) n \<longleftrightarrow> bit v (swapped 7 n)"
proof (cases "n < 32")
  case True
  then show ?thesis
    using assms swapped_lt [of n 3] unfolding bswap64_def byte_masks
    by (simp add: bit_or_iff bit_push_bit_iff bit_ucast_iff bit_drop_bit_eq bit_bswap32 swapped_halves)
next
  case False
  then have "\<not> bit x n" for x :: uint32 using bit_imp_le_length [of x n] by auto
  moreover have "n - 32 < 32" using assms by linarith
  moreover from this have "swapped 3 (n - 32) < 64" using swapped_lt [of "n - 32" 3] by simp
  ultimately show ?thesis
    using assms False swapped_lt [of "n - 32" 3] unfolding bswap64_def byte_masks
    by (auto simp: bit_or_iff bit_push_bit_iff bit_ucast_iff bit_drop_bit_eq bit_and_iff bit_mask_iff
        bit_bswap32 swapped_halves)
qed

lemma bswap64_bswap64: "bswap64 (bswap64 v) = v"
  by (rule bit_word_eqI) (use swapped_lt [of _ 7] swapped_swapped [of _ 7] in \<open>simp add: bit_bswap64\<close>)

lemma bit_byte_of: "bit (byte_of i v) n \<longleftrightarrow> n < 8 \<and> bit v (8 * i + n)"
  by (simp add: byte_of_def bit_take_bit_iff bit_drop_bit_eq)

lemma byte_of_bswap32: "i < 4 \<Longrightarrow> byte_of i (bswap32 v) = byte_of (3 - i) v"
  by (rule bit_word_eqI) (auto simp: bit_byte_of bit_bswap32 swapped_byte)

lemma byte_of_bswap64: "i < 8 \<Longrightarrow> byte_of i (bswap64 v) = byte_of (7 - i) v"
  by (rule bit_word_eqI) (auto simp: bit_byte_of bit_bswap64 swapped_byte)

section \<open>Properties\<close>

fun addend :: "nat \<times> rmw \<times> uint32 \<Rightarrow> uint32" where
  "addend (t, Add k, prev) = k"
| "addend e = 0"

lemma replay_adds:
  "replay v log = Some w \<Longrightarrow> list_all (\<lambda>e. \<exists>k. fst (snd e) = Add k) log \<Longrightarrow> w = v + sum_list (map addend log)"
  by (induction v log rule: replay.induct) (auto split: if_splits)

text \<open>
  C18: atomic operations take effect one at a time. However tasks interleave inside their
  load-reserve, store-conditional and compare-and-swap loops, and whenever reservations are
  lost, the cell holds what the completed operations give when performed one after the other,
  each finding the value it reported; in particular no addition is ever lost.
\<close>

theorem atomics_one_at_a_time:
  assumes "at_reach v s"
  shows "replay v (at_log s) = Some (cell s) \<and>
    (list_all (\<lambda>e. \<exists>k. fst (snd e) = Add k) (at_log s) \<longrightarrow> cell s = v + sum_list (map addend (at_log s)))"
  using at_invD(1) [OF at_reach_inv [OF assms]] replay_adds by blast

fun at_run :: "at_act list \<Rightarrow> at_sys \<Rightarrow> at_sys option" where
  "at_run [] s = Some s"
| "at_run (a # as) s = (case at_do a s of None \<Rightarrow> None | Some s' \<Rightarrow> at_run as s')"

lemma at_run_reach: "at_run as s = Some s' \<Longrightarrow> at_reach v s \<Longrightarrow> at_reach v s'"
  by (induction as arbitrary: s) (auto split: option.splits intro: at_next)

text \<open>Two tasks increment; the second completes between the first's load and its reservation.\<close>

definition race :: "at_act list" where
  "race = [Call 1 (fst atomic_inc_uint), Call 2 (fst atomic_inc_uint), Load 1, Load 2, Lwarx 2, Stwcx 2,
     Lwarx 1, Load 1, Lwarx 1, Stwcx 1]"

theorem atomics_one_at_a_time_witness:
  "\<exists>s. at_run race (at_start 40) = Some s \<and> at_log s = [(2, Add 1, 40), (1, Add 1, 41)] \<and> cell s = 42"
proof -
  obtain s where s: "at_run race (at_start 40) = Some s" "at_log s = [(2, Add 1, 40), (1, Add 1, 41)]"
    by (simp add: race_def at_start_def atomic_inc_uint_def atomic_add_int_def)
  from atomics_one_at_a_time [OF at_run_reach [OF s(1) at_init]] s show ?thesis by auto
qed

text \<open>
  A task inside an atomic operation that is left alone completes it within five steps,
  whatever it had loaded and whether or not its reservation was lost, and completes it once.
\<close>

theorem atomic_finishes_alone:
  assumes "at_pcs s t \<noteq> Idle"
  shows "at_pcs (solo 5 t s) t = Idle \<and> (\<exists>op prev. at_log (solo 5 t s) = at_log s @ [(t, op, prev)])"
  using solo_done [OF assms, of 0] by (simp add: done_once_def eval_nat_numeral del: solo.simps)

theorem atomic_finishes_alone_witness:
  "\<exists>op prev. at_log (solo 5 3 (at_start 0\<lparr>at_pcs := (\<lambda>_. Reserved (Or 6) 1 7)\<rparr>)) = [(3, op, prev)]"
  using atomic_finishes_alone [of "at_start 0\<lparr>at_pcs := (\<lambda>_. Reserved (Or 6) 1 7)\<rparr>" 3]
  by (simp add: at_start_def del: solo.simps solo_numeral)

text \<open>
  \<open>bswap32\<close> and \<open>bswap64\<close> reverse the bytes of their argument, and swapping twice gives it back.
\<close>

theorem bswap_reverses_bytes:
  assumes "i < 4" "j < 8"
  shows "byte_of i (bswap32 v) = byte_of (3 - i) v \<and> byte_of j (bswap64 w) = byte_of (7 - j) w \<and>
    bswap32 (bswap32 v) = v \<and> bswap64 (bswap64 w) = w"
  using assms by (simp add: byte_of_bswap32 byte_of_bswap64 bswap32_bswap32 bswap64_bswap64)

theorem bswap_reverses_bytes_witness:
  "byte_of 0 (bswap32 0x11223344) = 0x11 \<and> bswap64 (bswap64 0x1122334455667788) = 0x1122334455667788"
  using bswap_reverses_bytes [of 0 0 "0x11223344" "0x1122334455667788"] by (simp add: byte_of_def)

end
