(* ===== verification/Timer.thy ===== *)
theory Timer
  imports Osal Slots "HOL-Library.Multiset"
begin

text \<open>
  Clock and sleep (\<open>src/phase1_osal/osal_timer.c\<close>): the time-base clock, one timer request per
  task in a table of sixteen slots, and the two hypercalls. What exec and \<open>timer.device\<close> return
  is a parameter; what a sleep asks of the device is its result.
\<close>

section \<open>Clock\<close>

text \<open>\<open>tb\<close> is the 32-bit time base at the call.\<close>

definition osal_clock_monotonic_ns :: "uint32 \<Rightarrow> uint64" where
  "osal_clock_monotonic_ns tb = ucast tb * 10"

text \<open>The values stored through \<open>sec\<close> and \<open>nsec\<close>.\<close>

definition rumpuser_clock_gettime :: "uint32 \<Rightarrow> int32 \<times> int \<times> int32" where
  "rumpuser_clock_gettime tb =
     (let ns = osal_clock_monotonic_ns tb in (0, sint (ns div 1000000000), sint (ucast (ns mod 1000000000) :: uint32)))"

section \<open>One timer request per task\<close>

record timer_slot =
  ts_owner :: ptr
  ts_port :: ptr
  ts_req :: ptr

text \<open>What exec gives: a port, an I/O request, and the error code of \<open>OpenDevice\<close>.\<close>

record timer_env =
  te_port :: ptr
  te_req :: ptr
  te_open :: int32

definition g_timer_slots_init :: "timer_slot list" where
  "g_timer_slots_init = replicate (nat TASK_SLOT_MAX) \<lparr>ts_owner = NULL, ts_port = NULL, ts_req = NULL\<rparr>"

text \<open>Filling a free slot: the slot afterwards, whether it can be used, and what exec was asked.\<close>

definition open_slot :: "timer_env \<Rightarrow> ptr \<Rightarrow> timer_slot \<Rightarrow> bool \<times> timer_slot \<times> os_event list" where
  "open_slot env me s =
     (if te_port env = NULL then (False, s\<lparr>ts_port := NULL\<rparr>, [])
      else if te_req env = NULL
      then (False, s\<lparr>ts_port := NULL, ts_req := NULL\<rparr>, [Got (Port (te_port env)), Freed (Port (te_port env))])
      else if te_open env \<noteq> 0
      then (False, s\<lparr>ts_port := NULL, ts_req := NULL\<rparr>,
            [Got (Port (te_port env)), Got (IORequest (te_req env)),
             Freed (IORequest (te_req env)), Freed (Port (te_port env))])
      else (True, s\<lparr>ts_owner := me, ts_port := te_port env, ts_req := te_req env\<rparr>,
            [Got (Port (te_port env)), Got (IORequest (te_req env))]))"

text \<open>The index of the caller's slot, or \<open>None\<close> for \<open>NULL\<close>.\<close>

definition timer_slot_for_current_task ::
  "timer_env \<Rightarrow> ptr \<Rightarrow> timer_slot list \<Rightarrow> (nat option \<times> timer_slot list) \<times> os_event list"
where
  "timer_slot_for_current_task env me ts =
     (let i = c_search (\<lambda>i. ts_owner (aget ts i) = me) 0 TASK_SLOT_MAX in
      if i \<ge> 0 then ((Some (nat i), ts), [])
      else let j = c_search (\<lambda>j. ts_owner (aget ts j) = NULL) 0 TASK_SLOT_MAX in
        if j \<ge> 0
        then (case open_slot env me (aget ts j) of
                (ok, s, calls) \<Rightarrow> ((if ok then Some (nat j) else None, aset ts j s), calls))
        else ((None, ts), []))"

section \<open>Sleep\<close>

text \<open>
  A sleep is either one request to the device, in seconds and microseconds of 32 bits each, or,
  when there is no slot, a number of yields.
\<close>

datatype sleep = AddRequest uint32 uint32 | Yields uint64

definition sleep_request :: "nat option \<Rightarrow> uint64 \<Rightarrow> sleep" where
  "sleep_request slot ns =
     (case slot of
        None \<Rightarrow> Yields (ns div 100)
      | Some _ \<Rightarrow>
          let us = (if ns div 1000 = 0 then 1 else ns div 1000)
          in AddRequest (ucast (us div 1000000)) (ucast (us mod 1000000)))"

definition osal_sleep_ns ::
  "timer_env \<Rightarrow> ptr \<Rightarrow> uint64 \<Rightarrow> timer_slot list \<Rightarrow> sleep \<times> timer_slot list \<times> os_event list"
where
  "osal_sleep_ns env me ns ts =
     (case timer_slot_for_current_task env me ts of
        ((slot, ts'), calls) \<Rightarrow> (sleep_request slot ns, ts', calls))"

definition rumpuser_clock_sleep ::
  "timer_env \<Rightarrow> ptr \<Rightarrow> int \<Rightarrow> int32 \<Rightarrow> timer_slot list \<Rightarrow> int32 \<times> sleep \<times> timer_slot list \<times> os_event list"
where
  "rumpuser_clock_sleep env me sec nsec ts =
     (0, osal_sleep_ns env me (of_int sec * 1000000000 + of_int nsec) ts)"

section \<open>The timer requests are a table of task slots\<close>

abbreviation timer_slot_ensure :: "timer_env \<Rightarrow> ptr \<Rightarrow> timer_slot list \<Rightarrow> nat option \<times> timer_slot list" where
  "timer_slot_ensure env me ts \<equiv> fst (timer_slot_for_current_task env me ts)"

lemma open_slot_owner:
  "open_slot env me s = (ok, s', calls) \<Longrightarrow> ts_owner s' = (if ok then me else ts_owner s)"
  by (auto simp: open_slot_def split: if_splits)

lemma open_slot_events:
  "open_slot env me s = (ok, s', calls) \<Longrightarrow>
   outstanding calls held = (if ok then IORequest (ts_req s') # Port (ts_port s') # held else held)"
  by (auto simp: open_slot_def split: if_splits)

lemma timer_slot_cases:
  assumes "owners_wf (map ts_owner ts)" "me \<notin> ts_owner ` set ts"
  obtains "timer_slot_for_current_task env me ts = ((None, ts), [])" "NULL \<notin> ts_owner ` set ts"
  | j s calls where "j < length ts" "ts_owner (ts ! j) = NULL"
      "open_slot env me (ts ! j) = (False, s, calls)" "timer_slot_for_current_task env me ts = ((None, ts[j := s]), calls)"
  | j s calls where "j < length ts" "ts_owner (ts ! j) = NULL"
      "open_slot env me (ts ! j) = (True, s, calls)" "timer_slot_for_current_task env me ts = ((Some j, ts[j := s]), calls)"
proof -
  have len: "TASK_SLOT_MAX = int (length ts)" using assms(1) by (simp add: owners_wf_def)
  from assms(2) have miss: "c_search (\<lambda>i. ts_owner (aget ts i) = me) 0 TASK_SLOT_MAX = -1"
    by (cases rule: c_search_list [OF len, of "\<lambda>s. ts_owner s = me"]) auto
  show ?thesis
  proof (cases rule: c_search_list [OF len, of "\<lambda>s. ts_owner s = NULL", case_names none found])
    case none
    with miss show ?thesis by (intro that(1)) (auto simp: timer_slot_for_current_task_def)
  next
    case (found j)
    obtain ok s calls where o: "open_slot env me (ts ! j) = (ok, s, calls)" by (cases "open_slot env me (ts ! j)")
    then have "timer_slot_for_current_task env me ts = ((if ok then Some j else None, ts[j := s]), calls)"
      using miss found(1) by (simp add: timer_slot_for_current_task_def aget_def aset_def)
    with o found that(2,3) show ?thesis by (cases ok) auto
  qed
qed

lemma timer_slot_hit:
  assumes "owners_wf (map ts_owner ts)" "me \<noteq> NULL" "i < length ts" "ts_owner (ts ! i) = me"
  shows "timer_slot_for_current_task env me ts = ((Some i, ts), [])"
proof -
  have len: "TASK_SLOT_MAX = int (length ts)" using assms(1) by (simp add: owners_wf_def)
  show ?thesis
  proof (cases rule: c_search_list [OF len, of "\<lambda>s. ts_owner s = me", case_names none found])
    case none
    with assms show ?thesis by (metis nth_mem)
  next
    case (found k)
    have "k = i" using owners_unique [of "map ts_owner ts" k i] assms found by simp
    with found show ?thesis by (simp add: timer_slot_for_current_task_def)
  qed
qed

interpretation tm: task_slots timer_slot_ensure ts_owner "\<lambda>i s. Some i" None
proof (unfold_locales, goal_cases)
  case (1 ts me i env)
  then show ?case by (simp add: timer_slot_hit)
next
  case (2 ts me env r ts')
  from timer_slot_cases [OF 2(1,3), of env] show ?case
  proof cases
    case 1
    with 2(4) show ?thesis by simp
  next
    case (2 j s calls)
    with \<open>timer_slot_ensure env me ts = (r, ts')\<close> open_slot_owner [OF 2(3)] show ?thesis
      by (auto simp: map_update nth_list_update intro!: list_update_same_conv [THEN iffD2])
  next
    case (3 j s calls)
    with \<open>timer_slot_ensure env me ts = (r, ts')\<close> open_slot_owner [OF 3(3)] show ?thesis by auto
  qed
next
  case (3 ts me env)
  from timer_slot_cases [OF 3(1,3), of env] show ?case
    by cases (use 3(4) in \<open>auto dest: nth_mem\<close>)
qed

section \<open>What the table holds\<close>

fun timer_run :: "(timer_env \<times> ptr) list \<Rightarrow> timer_slot list \<Rightarrow> timer_slot list \<times> os_event list" where
  "timer_run [] ts = (ts, [])"
| "timer_run ((env, me) # cs) ts =
     (case timer_slot_for_current_task env me ts of
        ((r, ts'), calls) \<Rightarrow> case timer_run cs ts' of (ts'', later) \<Rightarrow> (ts'', calls @ later))"

definition slot_resources :: "timer_slot \<Rightarrow> resource list" where
  "slot_resources s = (if ts_owner s = NULL then [] else [IORequest (ts_req s), Port (ts_port s)])"

lemma mset_resources_update:
  "j < length ts \<Longrightarrow> ts_owner (ts ! j) = NULL \<Longrightarrow>
   mset (concat (map slot_resources (ts[j := s]))) = mset (concat (map slot_resources ts)) + mset (slot_resources s)"
proof (induction ts arbitrary: j)
  case (Cons x xs)
  then show ?case by (cases j) (simp_all add: slot_resources_def)
qed simp

lemma timer_slot_balance:
  assumes "owners_wf (map ts_owner ts)" "me \<noteq> NULL"
    and "timer_slot_for_current_task env me ts = ((r, ts'), calls)"
    and "mset held = mset (concat (map slot_resources ts))"
  shows "mset (outstanding calls held) = mset (concat (map slot_resources ts'))"
proof (cases "me \<in> ts_owner ` set ts")
  case True
  then obtain i where "i < length ts" "ts_owner (ts ! i) = me" by (auto simp: in_set_conv_nth)
  with timer_slot_hit [OF assms(1,2), of i env] assms(3,4) show ?thesis by simp
next
  case False
  from timer_slot_cases [OF assms(1) False, of env] show ?thesis
  proof cases
    case 1
    with assms(3,4) show ?thesis by simp
  next
    case (2 j s c)
    have "slot_resources s = []" using open_slot_owner [OF 2(3)] 2(2) by (simp add: slot_resources_def)
    with 2 assms(3,4) open_slot_events [OF 2(3), of held] mset_resources_update [OF 2(1,2), of s]
    show ?thesis by simp
  next
    case (3 j s c)
    have "slot_resources s = [IORequest (ts_req s), Port (ts_port s)]"
      using open_slot_owner [OF 3(3)] assms(2) by (simp add: slot_resources_def)
    with 3 assms(3,4) open_slot_events [OF 3(3), of held] mset_resources_update [OF 3(1,2), of s]
    show ?thesis by simp
  qed
qed

lemma timer_run_balance:
  assumes "owners_wf (map ts_owner ts)" "list_all (\<lambda>c. snd c \<noteq> NULL) cs" "timer_run cs ts = (ts', es)"
    and "mset held = mset (concat (map slot_resources ts))"
  shows "owners_wf (map ts_owner ts') \<and> mset (outstanding es held) = mset (concat (map slot_resources ts'))"
  using assms
proof (induction cs arbitrary: ts es held)
  case (Cons c cs)
  obtain env me where c: "c = (env, me)" by fastforce
  obtain r ts1 calls where one: "timer_slot_for_current_task env me ts = ((r, ts1), calls)"
    by (metis surj_pair)
  obtain later where rest: "timer_run cs ts1 = (ts', later)" and es: "es = calls @ later"
    using Cons.prems(3) c one by (auto split: prod.splits)
  have me: "me \<noteq> NULL" using Cons.prems(2) c by simp
  have wf: "owners_wf (map ts_owner ts1)" using tm.ensure_wf [OF Cons.prems(1) me, of env r ts1] one by simp
  from Cons.IH [OF wf _ rest timer_slot_balance [OF Cons.prems(1) me one Cons.prems(4)]] Cons.prems(2)
  show ?case by (simp add: es outstanding_append)
qed simp

lemma timer_init_wf: "owners_wf (map ts_owner g_timer_slots_init)"
  "mset [] = mset (concat (map slot_resources g_timer_slots_init))"
  by (simp_all add: owners_wf_def g_timer_slots_init_def slot_resources_def)

section \<open>Properties\<close>

text \<open>
  C21: the timer leaks nothing: whatever tasks sleep, one after the other, in whatever order, and however often exec has
  no port, no request or no device for them, what has been obtained and not freed is exactly
  one port and one request for each task in the table, and no task is in it twice.
\<close>

theorem timer_resources_balanced:
  assumes "list_all (\<lambda>c. snd c \<noteq> NULL) cs" "timer_run cs g_timer_slots_init = (ts, es)"
  shows "mset (outstanding es []) = mset (concat (map slot_resources ts)) \<and>
    distinct (filter (\<lambda>p. p \<noteq> NULL) (map ts_owner ts))"
  using timer_run_balance [OF timer_init_wf(1) assms timer_init_wf(2)] by (simp add: owners_wf_def)

definition sleepers :: "(timer_env \<times> ptr) list" where
  "sleepers = [(\<lparr>te_port = 0x10, te_req = 0, te_open = 0\<rparr>, 7), (\<lparr>te_port = 0x20, te_req = 0x30, te_open = 0\<rparr>, 7),
     (\<lparr>te_port = 0x40, te_req = 0x50, te_open = -1\<rparr>, 9)]"

theorem timer_resources_balanced_witness:
  "\<exists>ts es. timer_run sleepers g_timer_slots_init = (ts, es) \<and> length es = 8 \<and>
     mset (outstanding es []) = mset (concat (map slot_resources ts))"
proof -
  obtain ts es where run: "timer_run sleepers g_timer_slots_init = (ts, es)" "length es = 8"
    by (simp add: sleepers_def g_timer_slots_init_def timer_slot_for_current_task_def open_slot_def
        c_search.simps aget_def aset_def Let_def)
  have "list_all (\<lambda>c. snd c \<noteq> NULL) sleepers" by (simp add: sleepers_def)
  from timer_resources_balanced [OF this run(1)] run show ?thesis by blast
qed

text \<open>
  A sleep through the device asks for the time it was given in whole microseconds, rounded
  down but never less than one, with a microsecond part below a million; this holds for every
  duration below 2\<open>^\<close>32 seconds.
\<close>

theorem sleep_duration:
  assumes "unat ns < 2 ^ 32 * 1000000000" "sleep_request (Some i) ns = AddRequest s us"
  shows "unat s * 1000000 + unat us = max 1 (unat ns div 1000) \<and> unat us < 1000000"
proof -
  define m :: uint64 where "m = (if ns div 1000 = 0 then 1 else ns div 1000)"
  have m: "unat m = max 1 (unat ns div 1000)"
  proof (cases "ns div 1000 = 0")
    case True
    then have "unat (ns div 1000) = 0" by simp
    then have "unat ns div 1000 = 0" by (simp only: unat_div unat_numeral) simp
    with True show ?thesis by (simp add: m_def)
  next
    case False
    then have "unat (ns div 1000) \<noteq> 0" by (simp add: unat_eq_0)
    then have "unat ns div 1000 \<noteq> 0" by (simp only: unat_div) simp
    with False show ?thesis by (simp add: m_def unat_div max_def)
  qed
  have s: "s = ucast (m div 1000000)" "us = ucast (m mod 1000000)"
    using assms(2) by (simp_all add: sleep_request_def m_def Let_def)
  have bound: "unat (m div 1000000) < 2 ^ 32"
  proof -
    have "unat ns div 1000 < 2 ^ 32 * 1000000" using assms(1) by (simp add: less_mult_imp_div_less)
    then have "unat m < 2 ^ 32 * 1000000" by (simp add: m)
    then show ?thesis by (simp add: unat_div less_mult_imp_div_less)
  qed
  have lt: "unat (m mod 1000000) < 1000000" by (simp add: unat_mod)
  have "unat s = unat m div 1000000" "unat us = unat m mod 1000000"
    using bound lt unfolding s by (simp_all add: unat_ucast_small) (simp_all add: unat_div unat_mod)
  with m show ?thesis by simp
qed

theorem sleep_duration_witness:
  "\<exists>s us. sleep_request (Some 0) 2500000000 = AddRequest s us \<and> unat s * 1000000 + unat us = 2500000"
proof -
  obtain s us where r: "sleep_request (Some 0) 2500000000 = AddRequest s us"
    by (simp add: sleep_request_def Let_def)
  from sleep_duration [OF _ r] r show ?thesis by simp
qed

lemma clock_unat: "unat (osal_clock_monotonic_ns tb) = 10 * unat tb"
proof -
  have b: "unat tb < 2 ^ 32" by (rule unat_bound32)
  then show ?thesis by (simp add: osal_clock_monotonic_ns_def unat_word_ariths)
qed

text \<open>
  The clock follows the 32-bit time base: it is ten nanoseconds times the count, so that time
  goes back when the counter wraps, after \<open>43\<close> seconds; the seconds and nanoseconds of
  \<open>rumpuser_clock_gettime\<close> add up to it, with the nanoseconds below a thousand million.
\<close>

theorem clock_follows_time_base:
  "unat (osal_clock_monotonic_ns tb) = 10 * unat tb \<and>
   (osal_clock_monotonic_ns tb < osal_clock_monotonic_ns tb' \<longleftrightarrow> tb < tb') \<and>
   (case rumpuser_clock_gettime tb of (rc, sec, nsec) \<Rightarrow>
      rc = 0 \<and> sec * 1000000000 + nsec = 10 * int (unat tb) \<and> 0 \<le> nsec \<and> nsec < 1000000000)"
proof -
  let ?ns = "osal_clock_monotonic_ns tb"
  have b: "unat tb < 4294967296" using unat_bound32 [of tb] by simp
  have lt: "?ns < osal_clock_monotonic_ns tb' \<longleftrightarrow> tb < tb'"
    by (simp add: word_less_nat_alt clock_unat)
  have sec: "sint (?ns div 1000000000) = int (10 * unat tb div 1000000000)"
  proof -
    have "unat (?ns div 1000000000) = 10 * unat tb div 1000000000" by (simp add: unat_div clock_unat)
    moreover from this have "unat (?ns div 1000000000) < 2 ^ 63" using b by simp
    ultimately show ?thesis by (subst sint_small) simp_all
  qed
  have nsec: "sint (ucast (?ns mod 1000000000) :: uint32) = int (10 * unat tb mod 1000000000)"
  proof -
    have m: "unat (?ns mod 1000000000) = 10 * unat tb mod 1000000000" by (simp add: unat_mod clock_unat)
    then have "unat (?ns mod 1000000000) < 1000000000" by simp
    then have "unat (ucast (?ns mod 1000000000) :: uint32) = 10 * unat tb mod 1000000000"
      using m by (subst unat_ucast_small) simp_all
    moreover from this have "unat (ucast (?ns mod 1000000000) :: uint32) < 2 ^ 31"
      using mod_less_divisor [of 1000000000 "10 * unat tb"] by simp
    ultimately show ?thesis by (subst sint_small) simp_all
  qed
  have "int (n div d) * int d + int (n mod d) = int n" for n d :: nat
    by (metis div_mult_mod_eq of_nat_add of_nat_mult)
  from this [of "10 * unat tb" 1000000000]
  have "int (10 * unat tb div 1000000000) * 1000000000 + int (10 * unat tb mod 1000000000) = int (10 * unat tb)"
    by (simp only: of_nat_numeral)
  with lt sec nsec clock_unat [of tb] show ?thesis by (simp add: rumpuser_clock_gettime_def Let_def)
qed

end
