(* ===== verification/Threads.thy ===== *)
theory Threads
  imports Osal
begin

text \<open>
  Threads (\<open>src/phase1_osal/osal_thread.c\<close>): creation with all its failure paths, the trampoline
  a new task runs, the polling join, and the hypercalls on top. What exec returns is a
  parameter; the values the joiner reads from \<open>done\<close>, poll by poll, are one too.
\<close>

record osal_thread =
  th_task :: ptr
  th_joiner :: ptr
  join_sigmask :: uint32
  join_sigbit :: int32
  th_fn :: ptr
  th_arg :: ptr
  th_done :: bool

text \<open>What exec gives: memory for the two structures, the caller, a signal bit and a task.\<close>

record thread_env =
  tv_wrap :: ptr
  tv_mem :: ptr
  tv_me :: ptr
  tv_bit :: int32
  tv_task :: ptr

definition osal_thread_create ::
  "thread_env \<Rightarrow> ptr \<Rightarrow> ptr \<Rightarrow> int32 \<Rightarrow> bool \<Rightarrow> int32 \<times> (ptr \<times> osal_thread) option \<times> os_event list"
where
  "osal_thread_create env fn arg priority has_out =
     (if fn = NULL \<or> \<not> has_out then (-1, None, [])
      else let prio = (if priority < -128 \<or> priority > 127 then 0 else priority) in
        if tv_mem env = NULL then (-1, None, [])
        else if tv_bit env < 0
        then (-1, None, Got (Mem (tv_mem env)) # osal_free (tv_mem env))
        else if tv_task env = NULL
        then (-1, None, [Got (Mem (tv_mem env)), Got (SignalBit (tv_bit env)), Freed (SignalBit (tv_bit env))] @
                        osal_free (tv_mem env))
        else (0, Some (tv_mem env,
                   \<lparr>th_task = tv_task env, th_joiner = tv_me env, join_sigmask = push_bit (nat (tv_bit env)) 1,
                    join_sigbit = tv_bit env, th_fn = fn, th_arg = arg, th_done = False\<rparr>),
              [Got (Mem (tv_mem env)), Got (SignalBit (tv_bit env)), Got (Task (tv_task env)),
               Started (tv_task env) prio]))"

text \<open>After its function has returned, the new task marks itself done and signals the joiner.\<close>

definition osal_thread_trampoline :: "osal_thread \<Rightarrow> osal_thread \<times> (ptr \<times> uint32)" where
  "osal_thread_trampoline t = (t\<lparr>th_done := True\<rparr>, (th_joiner t, join_sigmask t))"

text \<open>\<open>fin i\<close> is what the \<open>i\<close>-th read of \<open>t->done\<close> returns; the result is the number of sleeps.\<close>

partial_function (option) join_poll :: "(nat \<Rightarrow> bool) \<Rightarrow> nat \<Rightarrow> nat option" where
  "join_poll fin i = (if fin i then Some i else join_poll fin (Suc i))"

definition osal_thread_join ::
  "ptr \<Rightarrow> osal_thread \<Rightarrow> (nat \<Rightarrow> bool) \<Rightarrow> (int32 \<times> nat \<times> os_event list) option"
where
  "osal_thread_join p t fin =
     (if p = NULL then Some (-1, 0, [])
      else case join_poll fin 0 of
        None \<Rightarrow> None
      | Some sleeps \<Rightarrow>
          Some (0, sleeps, [Freed (Task (th_task t)), Freed (SignalBit (join_sigbit t))] @ osal_free p))"

section \<open>Hypercalls\<close>

record rump_wrap =
  rw_f :: ptr
  rw_arg :: ptr

text \<open>The shim reads the wrapper, frees it and calls the function with the argument.\<close>

definition rump_thread_shim :: "ptr \<Rightarrow> rump_wrap \<Rightarrow> (ptr \<times> ptr) \<times> os_event list" where
  "rump_thread_shim w rw = ((rw_f rw, rw_arg rw), osal_free w)"

text \<open>\<open>shim\<close> is the address of \<open>rump_thread_shim\<close>.\<close>

definition rumpuser_thread_create ::
  "ptr \<Rightarrow> thread_env \<Rightarrow> ptr \<Rightarrow> ptr \<Rightarrow> int32 \<Rightarrow> int32 \<times> (ptr \<times> osal_thread) option \<times> rump_wrap option \<times> os_event list"
where
  "rumpuser_thread_create shim env f arg priority =
     (if tv_wrap env = NULL then (ENOMEM, None, None, [])
      else case osal_thread_create env shim (tv_wrap env) priority True of
        (rc, out, es) \<Rightarrow>
          if rc \<noteq> 0 then (ENOMEM, None, None, Got (Mem (tv_wrap env)) # es @ osal_free (tv_wrap env))
          else (0, out, Some \<lparr>rw_f = f, rw_arg = arg\<rparr>, Got (Mem (tv_wrap env)) # es))"

definition rumpuser_thread_join ::
  "ptr \<Rightarrow> osal_thread \<Rightarrow> (nat \<Rightarrow> bool) \<Rightarrow> (int32 \<times> nat \<times> os_event list) option"
where
  "rumpuser_thread_join cookie t fin = osal_thread_join cookie t fin"

text \<open>The current LWP is one variable for all tasks.\<close>

definition rumpuser_curlwpop :: "int32 \<Rightarrow> ptr \<Rightarrow> ptr \<Rightarrow> ptr" where
  "rumpuser_curlwpop lwpop l g_stub_curlwp =
     (if lwpop = 2 then l else if lwpop = 3 then NULL else g_stub_curlwp)"

definition rumpuser_curlwp :: "ptr \<Rightarrow> ptr" where
  "rumpuser_curlwp g_stub_curlwp = g_stub_curlwp"

text \<open>The thread structure of the running task, from its \<open>tc_UserData\<close>.\<close>

definition osal_thread_self :: "ptr \<Rightarrow> ptr" where
  "osal_thread_self tc_UserData = tc_UserData"

text \<open>Waits for no signal, again and again: it never returns.\<close>

definition rumpuser_thread_exit :: "unit option" where
  "rumpuser_thread_exit = None"

section \<open>Lemmas\<close>

lemma outstanding_free [simp]: "outstanding (osal_free p) held = (if p = NULL then held else remove1 (Mem p) held)"
  by (simp add: osal_free_def)

lemma join_poll_first:
  assumes "fin k" "i \<le> k" "\<And>j. i \<le> j \<Longrightarrow> j < k \<Longrightarrow> \<not> fin j"
  shows "join_poll fin i = Some k"
  using assms
proof (induction "k - i" arbitrary: i)
  case 0
  then show ?case by (subst join_poll.simps) simp
next
  case (Suc d)
  then have "\<not> fin i" by simp
  moreover have "join_poll fin (Suc i) = Some k" by (rule Suc.hyps(1)) (use Suc in simp_all)
  ultimately show ?case by (subst join_poll.simps) simp
qed

lemma join_poll_some: "join_poll fin i = Some k \<Longrightarrow> fin k"
proof (induction rule: join_poll.raw_induct [rotated, consumes 1, of "fin" i k "\<lambda>fin i k. fin k", case_names step])
  case (step jp d j l)
  then show ?case by (auto split: if_splits)
qed

lemma create_outstanding:
  assumes "osal_thread_create env fn arg prio has_out = (rc, out, es)"
  shows "(rc \<noteq> 0 \<and> rc = -1 \<and> out = None \<and> outstanding es held = held) \<or>
    (\<exists>th. rc = 0 \<and> out = Some (tv_mem env, th) \<and> tv_mem env \<noteq> NULL \<and> th_task th = tv_task env \<and>
       join_sigbit th = tv_bit env \<and> th_fn th = fn \<and> th_arg th = arg \<and> \<not> th_done th \<and>
       outstanding es held = Task (tv_task env) # SignalBit (tv_bit env) # Mem (tv_mem env) # held)"
  using assms by (auto simp: osal_thread_create_def Let_def osal_free_def split: if_splits)

lemma join_events:
  assumes "osal_thread_join p t fin = Some (rc, sleeps, js)" "p \<noteq> NULL"
  shows "rc = 0" "js = [Freed (Task (th_task t)), Freed (SignalBit (join_sigbit t)), Freed (Mem p)]"
  using assms by (auto simp: osal_thread_join_def osal_free_def split: option.splits)

section \<open>Properties\<close>

text \<open>
  C20: threads leak nothing. A creation that fails, at whichever step, has given back everything it
  obtained; after one that succeeds, once the new task has run its shim and the joiner has
  joined it, the wrapper, the thread structure, the signal bit and the task have all been
  given back, and the shim calls the function with the argument it was created for.
\<close>

theorem thread_resources_balanced:
  assumes "rumpuser_thread_create shim env f arg prio = (rc, out, rw, es)"
  shows "(rc \<noteq> 0 \<longrightarrow> rc = ENOMEM \<and> out = None \<and> outstanding es [] = []) \<and>
    (rc = 0 \<longrightarrow> (\<exists>p th w. out = Some (p, th) \<and> rw = Some w \<and> th_arg th = tv_wrap env \<and> th_fn th = shim \<and>
       fst (rump_thread_shim (tv_wrap env) w) = (f, arg) \<and>
       (osal_thread_join p th fin = Some (jrc, sleeps, js) \<longrightarrow>
          jrc = 0 \<and> outstanding (es @ snd (rump_thread_shim (tv_wrap env) w) @ js) [] = [])))"
proof (cases "tv_wrap env = NULL")
  case True
  with assms show ?thesis by (simp add: rumpuser_thread_create_def)
next
  case False
  obtain rc1 out1 es1 where c: "osal_thread_create env shim (tv_wrap env) prio True = (rc1, out1, es1)"
    by (metis surj_pair)
  note o = create_outstanding [OF c, of "[Mem (tv_wrap env)]"]
  show ?thesis
  proof (cases "rc1 = 0")
    case True
    with assms False c have r: "rc = 0" "out = out1" "rw = Some \<lparr>rw_f = f, rw_arg = arg\<rparr>"
      "es = Got (Mem (tv_wrap env)) # es1" by (auto simp: rumpuser_thread_create_def)
    from o True obtain th where th: "out1 = Some (tv_mem env, th)" "tv_mem env \<noteq> NULL" "th_task th = tv_task env"
      "join_sigbit th = tv_bit env" "th_fn th = shim" "th_arg th = tv_wrap env"
      "outstanding es1 [Mem (tv_wrap env)] =
        [Task (tv_task env), SignalBit (tv_bit env), Mem (tv_mem env), Mem (tv_wrap env)]" by auto
    have "jrc = 0 \<and> outstanding (es @ osal_free (tv_wrap env) @ js) [] = []"
      if "osal_thread_join (tv_mem env) th fin = Some (jrc, sleeps, js)"
      using join_events [OF that th(2)] th r(4) False by (simp add: outstanding_append)
    with th r show ?thesis by (simp add: rump_thread_shim_def)
  next
    case ne: False
    with assms False c have r: "rc = ENOMEM" "out = None" "es = Got (Mem (tv_wrap env)) # es1 @ osal_free (tv_wrap env)"
      by (auto simp: rumpuser_thread_create_def)
    from o ne r False show ?thesis by (simp add: outstanding_append)
  qed
qed

definition thread_boot_env :: thread_env where
  "thread_boot_env = \<lparr>tv_wrap = 0x100, tv_mem = 0x200, tv_me = 0x300, tv_bit = 20, tv_task = 0x400\<rparr>"

text \<open>What the joiner reads when the thread's function returns before poll \<open>n\<close>.\<close>

definition reads_done :: "nat \<Rightarrow> osal_thread \<Rightarrow> nat \<Rightarrow> bool" where
  "reads_done n t i = th_done (if n \<le> i then fst (osal_thread_trampoline t) else t)"

lemma join_reads:
  assumes "p \<noteq> NULL" "\<not> th_done t"
  shows "osal_thread_join p t (reads_done n t) =
    Some (0, n, [Freed (Task (th_task t)), Freed (SignalBit (join_sigbit t)), Freed (Mem p)])"
proof -
  have "join_poll (reads_done n t) 0 = Some n"
    by (rule join_poll_first) (use assms(2) in \<open>simp_all add: reads_done_def osal_thread_trampoline_def\<close>)
  with assms(1) show ?thesis by (simp add: osal_thread_join_def osal_free_def)
qed

theorem thread_resources_balanced_witness:
  "\<exists>p th w es js. rumpuser_thread_create 0x99 thread_boot_env 0x50 0x60 200 = (0, Some (p, th), Some w, es) \<and>
     osal_thread_join p th (reads_done 3 th) = Some (0, 3, js) \<and>
     outstanding (es @ snd (rump_thread_shim 0x100 w) @ js) [] = []"
proof -
  obtain p th w es where c: "rumpuser_thread_create 0x99 thread_boot_env 0x50 0x60 200 = (0, Some (p, th), Some w, es)"
    and p: "p \<noteq> NULL" "\<not> th_done th"
    by (simp add: rumpuser_thread_create_def osal_thread_create_def thread_boot_env_def)
  note j = join_reads [OF p, of 3]
  from thread_resources_balanced [OF c, where fin = "reads_done 3 th"] j c show ?thesis
    by (fastforce simp: thread_boot_env_def)
qed

text \<open>
  C28: a join returns exactly when the thread's function returns: if that happens before the
  joiner's poll \<open>n\<close>, the join sleeps \<open>n\<close> times and returns 0; if it never happens, neither
  does the join.
\<close>

theorem thread_join_returns:
  assumes "p \<noteq> NULL" "\<not> th_done t"
  shows "(\<exists>es. osal_thread_join p t (reads_done n t) = Some (0, n, es)) \<and>
    ((\<forall>i. \<not> fin i) \<longrightarrow> osal_thread_join p t fin = None)"
proof -
  have "join_poll fin 0 = None" if "\<forall>i. \<not> fin i"
    using that join_poll_some [of "fin" 0] by (cases "join_poll fin 0") auto
  with join_reads [OF assms] assms(1) show ?thesis by (auto simp: osal_thread_join_def)
qed

definition thread_demo :: osal_thread where
  "thread_demo = \<lparr>th_task = 0x400, th_joiner = 0x300, join_sigmask = 0x100000, join_sigbit = 20,
     th_fn = 0x50, th_arg = 0x60, th_done = False\<rparr>"

theorem thread_join_returns_witness:
  "\<exists>es. osal_thread_join 0x200 thread_demo (reads_done 5 thread_demo) = Some (0, 5, es)"
  using thread_join_returns [of "0x200" thread_demo 5] by (simp add: thread_demo_def)

end
