(* ===== verification/Popcount.thy ===== *)
theory Popcount
  imports Prelude
begin

unbundle bit_operations_syntax

text \<open>
  The population count of \<open>src/phase1_osal/rump_link_stubs.c\<close>, which adds the bits of a word in
  parallel: first in pairs, then in nibbles, then in bytes, and the bytes by a multiplication.
  It is shown to count the set bits of its argument. The argument goes through sums of digits:
  each step replaces a number by one with the same sum of digits in a larger base.
\<close>

definition popcount32 :: "uint32 \<Rightarrow> int32" where
  "popcount32 v =
     (let v1 = v - (drop_bit 1 v AND 0x55555555);
          v2 = (v1 AND 0x33333333) + (drop_bit 2 v1 AND 0x33333333)
      in int (unat (drop_bit 24 (((v2 + drop_bit 4 v2) AND 0xF0F0F0F) * 0x01010101))))"

section \<open>Sums of digits\<close>

text \<open>\<open>dsum k j n\<close> adds the \<open>j\<close> lowest digits of \<open>n\<close> in base \<open>2^k\<close>.\<close>

fun dsum :: "nat \<Rightarrow> nat \<Rightarrow> nat \<Rightarrow> nat" where
  "dsum k 0 n = 0"
| "dsum k (Suc j) n = n mod 2 ^ k + dsum k j (n div 2 ^ k)"

text \<open>\<open>pairs k j n\<close> adds neighbouring digits into digits of twice the width.\<close>

fun pairs :: "nat \<Rightarrow> nat \<Rightarrow> nat \<Rightarrow> nat" where
  "pairs k 0 n = 0"
| "pairs k (Suc j) n = (n mod 2 ^ k + n div 2 ^ k mod 2 ^ k) + 2 ^ (2 * k) * pairs k j (n div 2 ^ (2 * k))"

text \<open>Every second digit all ones.\<close>

fun low_mask :: "nat \<Rightarrow> nat \<Rightarrow> nat" where
  "low_mask k 0 = 0"
| "low_mask k (Suc j) = mask k + 2 ^ (2 * k) * low_mask k j"

fun digits_le :: "nat \<Rightarrow> nat \<Rightarrow> nat \<Rightarrow> nat \<Rightarrow> bool" where
  "digits_le k b 0 n = True"
| "digits_le k b (Suc j) n = (n mod 2 ^ k \<le> b \<and> digits_le k b j (n div 2 ^ k))"

lemma div_pow2_double: "n div 2 ^ (2 * k) = n div 2 ^ k div (2 ^ k :: nat)"
  by (simp add: mult_2 power_add div_mult2_eq)

lemma pair_lt:
  assumes "0 < k"
  shows "n mod 2 ^ k + n div 2 ^ k mod 2 ^ k < (2 :: nat) ^ (2 * k)"
proof -
  have a: "x mod p + y mod p < p + p" if "0 < p" for x y p :: nat
    by (rule add_strict_mono) (simp_all add: that)
  have "(2 :: nat) * 2 ^ k \<le> 2 ^ k * 2 ^ k"
    using assms by (intro mult_right_mono) (simp_all add: self_le_power)
  moreover have "n mod 2 ^ k + n div 2 ^ k mod 2 ^ k < 2 * 2 ^ k"
    using a [of "2 ^ k" n "n div 2 ^ k"] by simp
  ultimately have "n mod 2 ^ k + n div 2 ^ k mod 2 ^ k < 2 ^ k * 2 ^ k" by linarith
  then show ?thesis by (simp add: mult_2 power_add)
qed

lemma pairs_parts:
  assumes "0 < k"
  shows "pairs k (Suc j) n mod 2 ^ (2 * k) = n mod 2 ^ k + n div 2 ^ k mod 2 ^ k"
    "pairs k (Suc j) n div 2 ^ (2 * k) = pairs k j (n div 2 ^ k div 2 ^ k)"
  using pair_lt [OF assms, of n] by (simp_all add: div_pow2_double [of n])

declare pairs.simps(2) [simp del]

lemma dsum_pairs: "0 < k \<Longrightarrow> dsum (2 * k) j (pairs k j n) = dsum k (2 * j) n"
  by (induction j arbitrary: n) (simp_all add: pairs_parts)

lemma digits_pairs: "0 < k \<Longrightarrow> digits_le k b (2 * j) n \<Longrightarrow> digits_le (2 * k) (2 * b) j (pairs k j n)"
  by (induction j arbitrary: n) (simp_all add: pairs_parts)

lemma two_digits: "n mod p + p * (n div p mod p) + p * p * (n div p div p) = (n :: nat)"
proof -
  have "p * (n div p mod p) + p * p * (n div p div p) = p * (n div p mod p + p * (n div p div p))"
    by (simp only: distrib_left mult.assoc)
  also have "\<dots> = p * (n div p)" by (simp only: mod_mult_div_eq)
  finally show ?thesis using mod_mult_div_eq [of n p] by linarith
qed

section \<open>Masks\<close>

lemma and_split:
  "(m :: nat) AND n = (m mod 2 ^ p AND n mod 2 ^ p) + 2 ^ p * (m div 2 ^ p AND n div 2 ^ p)"
  using bits_ident [of p "m AND n"]
  by (simp add: push_bit_eq_mult drop_bit_eq_div [symmetric] take_bit_eq_mod [symmetric] mult.commute)

lemma low_mask_parts:
  "low_mask k (Suc j) mod 2 ^ (2 * k) = mask k" "low_mask k (Suc j) div 2 ^ (2 * k) = low_mask k j"
proof -
  have "mask k < (2 :: nat) ^ (2 * k)"
    by (rule less_le_trans [of _ "2 ^ k"]) (simp_all add: mask_eq_exp_minus_1 power_increasing)
  then show "low_mask k (Suc j) mod 2 ^ (2 * k) = mask k" "low_mask k (Suc j) div 2 ^ (2 * k) = low_mask k j"
    by simp_all
qed

lemma and_low_mask:
  "n AND low_mask k (Suc j) = n mod 2 ^ k + 2 ^ (2 * k) * (n div 2 ^ (2 * k) AND low_mask k j)"
proof -
  have "n mod 2 ^ (2 * k) AND mask k = n mod 2 ^ k"
    by (simp add: take_bit_eq_mask [symmetric] take_bit_eq_mod [symmetric] min_def)
  then show ?thesis by (subst and_split [of _ _ "2 * k"]) (simp only: low_mask_parts)
qed

lemma pairs_and: "(n AND low_mask k j) + (n div 2 ^ k AND low_mask k j) = pairs k j n"
proof (induction j arbitrary: n)
  case (Suc j)
  have "n div 2 ^ k div 2 ^ (2 * k) = n div 2 ^ (2 * k) div 2 ^ k" by (simp add: div_mult2_eq [symmetric] mult.commute)
  then show ?case
    by (simp only: and_low_mask pairs.simps Suc [of "n div 2 ^ (2 * k)", symmetric] distrib_left)
qed simp

lemma pairs_diff:
  assumes "n < 2 ^ (2 * j)"
  shows "n - (n div 2 AND low_mask 1 j) = pairs 1 j n" "n div 2 AND low_mask 1 j \<le> n"
proof -
  have "n = (n AND low_mask 1 j) + 2 * (n div 2 AND low_mask 1 j)"
    using assms
  proof (induction j arbitrary: n)
    case (Suc j)
    then have "n div 4 < 2 ^ (2 * j)" by simp
    from Suc.IH [OF this] have IH: "n div 4 = (n div 4 AND low_mask 1 j) + 2 * (n div 4 div 2 AND low_mask 1 j)" .
    have d: "n div 2 div 2 = n div 4" "n div 2 div 4 = n div 4 div 2" by (simp_all add: div_mult2_eq [symmetric])
    have "n = n mod 2 + 2 * (n div 2 mod 2) + 4 * (n div 4)" using two_digits [of n 2] d(1) by simp
    moreover have "n AND low_mask 1 (Suc j) = n mod 2 + 4 * (n div 4 AND low_mask 1 j)"
      "n div 2 AND low_mask 1 (Suc j) = n div 2 mod 2 + 4 * (n div 4 div 2 AND low_mask 1 j)"
      using and_low_mask [of n 1 j] and_low_mask [of "n div 2" 1 j] d(2) by simp_all
    ultimately show ?case using IH by linarith
  qed simp
  with pairs_and [of n 1 j] show "n - (n div 2 AND low_mask 1 j) = pairs 1 j n" "n div 2 AND low_mask 1 j \<le> n"
    by simp_all
qed

section \<open>The last steps\<close>

lemma regroup:
  fixes x y lo hi b m q :: nat
  assumes "x = lo + 16 * hi + 256 * b" "y = hi + 16 * b" "m + 16 * q = b"
  shows "x + y = (lo + hi) + 16 * (hi + m) + 256 * (b + q)"
  using assms by simp

lemma regroup_lt: "m \<le> 4 \<Longrightarrow> lo \<le> 4 \<Longrightarrow> hi \<le> 4 \<Longrightarrow> (lo + hi) + 16 * (hi + m) < (256 :: nat)"
  by simp

lemma add_then_mask:
  "digits_le 4 4 (2 * j) n \<Longrightarrow> (n + n div 16) AND low_mask 4 j = pairs 4 j n"
proof (induction j arbitrary: n)
  case (Suc j)
  define lo hi b where p: "lo = n mod 16" "hi = n div 16 mod 16" "b = n div 256"
  have d: "n div 16 div 16 = b" "n div 16 = hi + 16 * b"
    using mod_mult_div_eq [of "n div 16" 16] by (simp_all add: p div_mult2_eq [symmetric])
  have n: "n = lo + 16 * hi + 256 * b" using two_digits [of n 16] d(1) by (simp add: p)
  have le: "lo \<le> 4" "hi \<le> 4" "digits_le 4 4 (2 * j) b"
    using Suc.prems by (simp_all add: p div_mult2_eq [symmetric])
  have s: "n + n div 16 = (lo + hi) + 16 * (hi + b mod 16) + 256 * (b + b div 16)"
    by (rule regroup [OF n d(2) mod_mult_div_eq])
  have rest: "(n + n div 16) div 256 AND low_mask 4 j = pairs 4 j b"
  proof (cases j)
    case (Suc i)
    then have "b mod 16 \<le> 4" using le(3) by simp
    then have "(lo + hi) + 16 * (hi + b mod 16) < 256" using le(1,2) by (intro regroup_lt)
    then have "(n + n div 16) div 256 = b + b div 16" unfolding s by simp
    with Suc.IH le(3) show ?thesis by simp
  qed simp
  have "(n + n div 16) mod 16 = lo + hi"
  proof -
    have "(x + 16 * u + 256 * w) mod 16 = x" if "x < 16" for x u w :: nat
    proof -
      have "x + 16 * u + 256 * w = x + 16 * (u + 16 * w)" by simp
      with that show ?thesis by (simp only: mod_mult_self2 mod_less)
    qed
    moreover have "lo + hi < 16" using le(1,2) by simp
    ultimately show ?thesis unfolding s by blast
  qed
  with rest show ?case
    using and_low_mask [of "n + n div 16" 4 j] by (simp add: pairs.simps(2) p)
qed simp

lemma byte_sum:
  fixes n :: nat
  assumes "n < 2 ^ 32" "digits_le 8 8 4 n"
  shows "n * 0x01010101 mod 2 ^ 32 div 2 ^ 24 = dsum 8 4 n"
proof -
  define a b c d where p: "a = n mod 256" "b = n div 256 mod 256" "c = n div 65536 mod 256" "d = n div 16777216"
  have q: "n div 256 div 256 = n div 65536" "n div 65536 div 256 = n div 16777216"
    by (simp_all add: div_mult2_eq [symmetric])
  have n: "n = a + 256 * b + 65536 * c + 16777216 * d"
    using two_digits [of n 256] mod_mult_div_eq [of "n div 65536" 256] q by (simp add: p)
  have four: "(4 :: nat) = Suc (Suc (Suc (Suc 0)))" by simp
  have d: "d < 256" using assms(1) by (simp add: p less_mult_imp_div_less)
  then have le: "a \<le> 8" "b \<le> 8" "c \<le> 8" "d \<le> 8"
    using assms(2) unfolding four by (simp_all add: p q)
  have sum: "dsum 8 4 n = a + b + c + d"
    using d unfolding four by (simp add: p q)
  have eq: "n * 0x01010101 = (a + 256 * (a + b) + 65536 * (a + b + c)) + 16777216 * (a + b + c + d) +
      4294967296 * (b + c + d + 256 * (c + d) + 65536 * d)"
    unfolding n by (simp add: algebra_simps)
  have lt: "a + 256 * (a + b) + 65536 * (a + b + c) < 16777216" "a + b + c + d < 256" using le by simp_all
  have g: "(x + 16777216 * y + 4294967296 * z) mod 4294967296 div 16777216 = y"
    if "x < 16777216" "y < 256" for x y z :: nat
  proof -
    have "x + 16777216 * y < 4294967296" using that by linarith
    then have "(x + 16777216 * y + 4294967296 * z) mod 4294967296 = x + 16777216 * y" by simp
    with that(1) show ?thesis by simp
  qed
  have "n * 0x01010101 mod 4294967296 div 16777216 = a + b + c + d"
    unfolding eq by (rule g [OF lt])
  with sum show ?thesis by simp
qed

section \<open>Counting bits\<close>

lemma dsum_bits: "dsum 1 j n = card {i. i < j \<and> bit n i}"
proof (induction j arbitrary: n)
  case (Suc j)
  have "{i. i < Suc j \<and> bit n i} = (if odd n then {0} else {}) \<union> Suc ` {i. i < j \<and> bit (n div 2) i}"
    by (auto simp: bit_Suc [symmetric] bit_0 less_Suc_eq_0_disj image_iff)
  moreover have "card ((if odd n then {0} else {}) \<union> Suc ` S) = (if odd n then 1 else 0) + card S"
    if "finite S" for S using that by (simp add: card_image)
  ultimately show ?case using Suc by (simp add: odd_iff_mod_2_eq_one mod2_eq_if)
qed simp

lemma digits_bits: "digits_le 1 1 j n"
  by (induction j arbitrary: n) (simp_all add: less_Suc_eq_le [symmetric])

lemma low_mask_numeral: "low_mask k (numeral w) = mask k + 2 ^ (2 * k) * low_mask k (pred_numeral w)"
  by (simp add: numeral_eq_Suc)

lemma low_masks:
  "low_mask 1 16 = 0x55555555" "low_mask 2 8 = 0x33333333" "low_mask 4 4 = 0x0F0F0F0F"
  by (simp_all add: low_mask_numeral mask_eq_exp_minus_1)

lemma pairs_bound: "0 < k \<Longrightarrow> pairs k j n < 2 ^ (2 * k * j)"
proof (induction j arbitrary: n)
  case (Suc j)
  have "x + p * y < p * z" if "x < p" "y < z" for x y z p :: nat
  proof -
    have "p * Suc y \<le> p * z" using that(2) by (intro mult_le_mono2) simp
    with that(1) show ?thesis by simp
  qed
  from this [OF pair_lt [OF Suc.prems, of n] Suc.IH [OF Suc.prems, of "n div 2 ^ (2 * k)"]]
  show ?case by (simp add: pairs.simps(2) power_add)
qed simp

lemma mod_and_below: "m < 2 ^ p \<Longrightarrow> n mod 2 ^ p AND m = n AND (m :: nat)"
  using and_split [of n m p] by simp

lemma unat_drop: "unat (drop_bit k v) = unat v div 2 ^ k" for v :: uint32
proof -
  have "unat v < 2 ^ LENGTH(32)" by (rule unsigned_less)
  then have "take_bit LENGTH(32) (unat v) = unat v" by (simp only: take_bit_nat_eq_self)
  then show ?thesis by (subst unsigned_drop_bit_eq) (simp only: drop_bit_eq_div)
qed

section \<open>The routine\<close>

lemma step_pairs:
  fixes v :: uint32
  assumes "v1 = v - (drop_bit 1 v AND 0x55555555)"
  shows "unat v1 = pairs 1 16 (unat v)"
proof -
  have x: "unat (drop_bit 1 v AND 0x55555555) = (unat v div 2 AND low_mask 1 16)"
    unfolding unsigned_and_eq unat_drop low_masks by simp
  have n: "unat v < 2 ^ (2 * 16)" using unat_bound32 [of v] by simp
  have "drop_bit 1 v AND 0x55555555 \<le> v" unfolding word_le_nat_alt x by (rule pairs_diff(2) [OF n])
  then show ?thesis unfolding assms by (simp only: unat_sub x pairs_diff(1) [OF n])
qed

lemma step_nibbles:
  fixes v1 :: uint32
  assumes "v2 = (v1 AND 0x33333333) + (drop_bit 2 v1 AND 0x33333333)"
  shows "unat v2 = pairs 2 8 (unat v1)"
proof -
  have "unat (v1 AND 0x33333333) + unat (drop_bit 2 v1 AND 0x33333333) = pairs 2 8 (unat v1)"
    unfolding unsigned_and_eq unat_drop pairs_and [symmetric] low_masks by simp
  moreover have "pairs 2 8 (unat v1) < 2 ^ (2 * 2 * 8)" by (rule pairs_bound) simp
  ultimately show ?thesis unfolding assms by (simp add: unat_word_ariths)
qed

lemma step_bytes:
  fixes v2 :: uint32
  assumes "v3 = (v2 + drop_bit 4 v2) AND 0xF0F0F0F" "digits_le 4 4 8 (unat v2)"
  shows "unat v3 = pairs 4 4 (unat v2)"
proof -
  have d: "unat (drop_bit 4 v2) = unat v2 div 16" by (simp add: unat_drop)
  have "unat v3 = ((unat v2 + unat v2 div 16) mod 2 ^ 32 AND 0x0F0F0F0F)"
    unfolding assms(1) unsigned_and_eq by (simp add: unat_word_ariths d)
  also have "\<dots> = (unat v2 + unat v2 div 16 AND 0x0F0F0F0F)" by (rule mod_and_below) simp
  also have "\<dots> = pairs 4 4 (unat v2)"
    using add_then_mask [of 4 "unat v2"] assms(2) by (simp add: low_masks)
  finally show ?thesis .
qed

lemma step_sum:
  fixes v3 :: uint32
  assumes "digits_le 8 8 4 (unat v3)"
  shows "unat (drop_bit 24 (v3 * 0x01010101)) = dsum 8 4 (unat v3)"
  using byte_sum [OF unat_bound32 assms] unfolding unat_drop by (simp add: unat_word_ariths)

text \<open>
  C19: \<open>popcount32\<close> counts the set bits of its argument.
\<close>

theorem popcount32_counts_bits: "popcount32 v = int (card {i. i < 32 \<and> bit v i})"
proof -
  define v1 where "v1 = v - (drop_bit 1 v AND 0x55555555)"
  define v2 where "v2 = (v1 AND 0x33333333) + (drop_bit 2 v1 AND 0x33333333)"
  define v3 where "v3 = (v2 + drop_bit 4 v2) AND 0xF0F0F0F"
  note u1 = step_pairs [OF v1_def] and u2 = step_nibbles [OF v2_def]
  have d1: "digits_le 2 2 16 (unat v1)" using digits_pairs [of 1 1 16 "unat v"] digits_bits by (simp add: u1)
  have d2: "digits_le 4 4 8 (unat v2)" using digits_pairs [of 2 2 8 "unat v1"] d1 by (simp add: u2)
  note u3 = step_bytes [OF v3_def d2]
  have d3: "digits_le 8 8 4 (unat v3)" using digits_pairs [of 4 4 4 "unat v2"] d2 by (simp add: u3)
  have "dsum 8 4 (unat v3) = dsum 4 8 (unat v2)" using dsum_pairs [of 4 4 "unat v2"] by (simp add: u3)
  also have "\<dots> = dsum 2 16 (unat v1)" using dsum_pairs [of 2 8 "unat v1"] by (simp add: u2)
  also have "\<dots> = dsum 1 32 (unat v)" using dsum_pairs [of 1 16 "unat v"] by (simp add: u1)
  also have "\<dots> = card {i. i < 32 \<and> bit v i}" unfolding dsum_bits by (simp add: bit_unsigned_iff)
  finally have "unat (drop_bit 24 (v3 * 0x01010101)) = card {i. i < 32 \<and> bit v i}"
    using step_sum [OF d3] by (simp only:)
  moreover have "popcount32 v = int (unat (drop_bit 24 (v3 * 0x01010101)))"
    by (simp only: popcount32_def Let_def v1_def v2_def v3_def)
  ultimately show ?thesis by (simp only:)
qed

end
