(* ===== verification/Hypercalls.thy ===== *)
theory Hypercalls
  imports Prelude
begin

unbundle bit_operations_syntax

text \<open>
  The hypercalls of \<open>src/phase1_osal/osal_diag.c\<close> that compute something (boot parameters and the
  entropy source) and the byte and string routines of \<open>rump_link_stubs.c\<close>. A C string is the
  list of its characters before the NUL; a buffer is the list of its cells.
\<close>

section \<open>Copying characters\<close>

text \<open>
  The loop \<open>for (i = 0; i < lim && s[i]; i++) d[i] = s[i];\<close> with the final \<open>i\<close>, which both string
  copies of the sources contain.
\<close>

function copy_loop :: "nat \<Rightarrow> string \<Rightarrow> string \<Rightarrow> nat \<Rightarrow> nat \<times> string" where
  "copy_loop lim s d i =
     (if i < lim \<and> i < length s then copy_loop lim s (d[i := s ! i]) (Suc i) else (i, d))"
  by pat_completeness auto
termination
  by (relation "measure (\<lambda>(lim, s, d, i). length s - i)") auto

declare copy_loop.simps [simp del]

lemma copy_loop_from:
  assumes "lim \<le> length d" "i \<le> min lim (length s)" "take i d = take i s"
  shows "copy_loop lim s d i = (min lim (length s), take (min lim (length s)) s @ drop (min lim (length s)) d)"
  using assms
proof (induction lim s d i rule: copy_loop.induct)
  case (1 lim s d i)
  show ?case
  proof (cases "i < lim \<and> i < length s")
    case True
    then have t: "take (Suc i) (d[i := s ! i]) = take (Suc i) s"
      using 1(2,4) by (simp add: take_Suc_conv_app_nth take_update_swap list_update_append)
    have "copy_loop lim s (d[i := s ! i]) (Suc i) =
        (min lim (length s), take (min lim (length s)) s @ drop (min lim (length s)) (d[i := s ! i]))"
      by (rule 1(1) [OF True]) (use 1(2) True t in simp_all)
    then show ?thesis using True by (subst copy_loop.simps) simp
  next
    case False
    with 1(3) have i: "i = min lim (length s)" by linarith
    have "take i s @ drop i d = d" using 1(4) append_take_drop_id [of i d] by simp
    moreover have "copy_loop lim s d i = (i, d)" by (subst copy_loop.simps) (use False in auto)
    ultimately show ?thesis unfolding i [symmetric] by simp
  qed
qed

lemma copy_loop_eq:
  "lim \<le> length d \<Longrightarrow>
   copy_loop lim s d 0 = (min lim (length s), take (min lim (length s)) s @ drop (min lim (length s)) d)"
  by (rule copy_loop_from) simp_all

abbreviation (input) NUL :: char where "NUL \<equiv> CHR 0x00"

section \<open>Boot parameters\<close>

definition buf_write :: "string \<Rightarrow> nat \<Rightarrow> string \<Rightarrow> string" where
  "buf_write b buflen s = (case copy_loop (buflen - 1) s b 0 of (i, b') \<Rightarrow> b'[i := NUL])"

definition param_value :: "string \<Rightarrow> string option" where
  "param_value name =
     (if name = ''_RUMPUSER_NCPU'' then Some ''1''
      else if name = ''_RUMPUSER_HOSTNAME'' then Some ''netstack-os4''
      else if name = ''RUMP_VERBOSE'' then Some ''0''
      else if name = ''RUMP_THREADS'' then Some ''1''
      else if name = ''RUMP_MEMLIMIT'' then Some ''33554432''
      else None)"

text \<open>\<open>None\<close> for a name or a buffer is \<open>NULL\<close>. The result code and the buffer afterwards.\<close>

definition rumpuser_getparam :: "string option \<Rightarrow> string option \<Rightarrow> nat \<Rightarrow> int32 \<times> string option" where
  "rumpuser_getparam name buf buflen =
     (case (name, buf) of
        (Some nm, Some b) \<Rightarrow>
          if buflen < 2 then (22, buf)
          else (case param_value nm of
                  Some v \<Rightarrow> (0, Some (buf_write b buflen v))
                | None \<Rightarrow> (2, buf))
      | _ \<Rightarrow> (22, buf))"

section \<open>Entropy\<close>

text \<open>The bytes stored from \<open>buf\<close> on, and the static counter afterwards.\<close>

fun rumpuser_getrandom :: "uint8 \<Rightarrow> nat \<Rightarrow> uint8 list \<times> uint8" where
  "rumpuser_getrandom ctr 0 = ([], ctr)"
| "rumpuser_getrandom ctr (Suc n) =
     (case rumpuser_getrandom (ctr + 1) n of (bs, ctr') \<Rightarrow> (ctr # bs, ctr'))"

section \<open>Routines of the link stubs\<close>

abbreviation (input) ENAMETOOLONG :: int32 where "ENAMETOOLONG \<equiv> 34"

text \<open>The result code, the destination and the value stored through \<open>done\<close>.\<close>

definition copystr :: "string \<Rightarrow> string \<Rightarrow> nat \<Rightarrow> int32 \<times> string \<times> nat" where
  "copystr s d len =
     (case copy_loop len s d 0 of
        (i, d') \<Rightarrow> if i < len then (0, d'[i := NUL], i + 1) else (ENAMETOOLONG, d', i))"

fun explicit_memset :: "uint8 list \<Rightarrow> int32 \<Rightarrow> nat \<Rightarrow> uint8 list" where
  "explicit_memset p c 0 = p"
| "explicit_memset [] c (Suc n) = []"
| "explicit_memset (x # p) c (Suc n) = of_int c # explicit_memset p c n"

fun memequal_acc :: "uint8 list \<Rightarrow> uint8 list \<Rightarrow> nat \<Rightarrow> uint8 \<Rightarrow> uint8" where
  "memequal_acc (x # xs) (y # ys) (Suc n) acc = memequal_acc xs ys n (acc OR (x XOR y))"
| "memequal_acc xs ys n acc = acc"

definition consttime_memequal :: "uint8 list \<Rightarrow> uint8 list \<Rightarrow> nat \<Rightarrow> bool" where
  "consttime_memequal a b n \<longleftrightarrow> memequal_acc a b n 0 = 0"

text \<open>The default vector entries: each returns one error code.\<close>

definition nullop :: "ptr \<Rightarrow> int32" where "nullop arg = 0"
definition enxio :: "ptr \<Rightarrow> int32" where "enxio arg = 6"
definition enodev :: "ptr \<Rightarrow> int32" where "enodev arg = 19"
definition eopnotsupp :: "ptr \<Rightarrow> int32" where "eopnotsupp arg = 45"
definition einval :: "ptr \<Rightarrow> int32" where "einval arg = 22"
definition enosys :: "ptr \<Rightarrow> int32" where "enosys arg = 38"

section \<open>Lemmas\<close>

lemma word_or_eq_0: "x OR y = 0 \<longleftrightarrow> x = 0 \<and> y = (0 :: uint8)"
  by (auto simp: bit_eq_iff bit_or_iff)

lemma word_xor_eq_0: "x XOR y = 0 \<longleftrightarrow> x = (y :: uint8)"
  by (auto simp: bit_eq_iff bit_xor_iff)

lemma memequal_acc_0:
  "n \<le> length a \<Longrightarrow> n \<le> length b \<Longrightarrow> memequal_acc a b n acc = 0 \<longleftrightarrow> acc = 0 \<and> take n a = take n b"
  by (induction a b n acc rule: memequal_acc.induct) (auto simp: word_or_eq_0 word_xor_eq_0)

lemma getrandom_eq:
  "rumpuser_getrandom ctr n = (map (\<lambda>i. ctr + of_nat i) [0..<n], ctr + of_nat n)"
proof (induction n arbitrary: ctr)
  case (Suc n)
  have "map (\<lambda>i. ctr + of_nat i) [0..<Suc n] = ctr # map (\<lambda>i. ctr + 1 + of_nat i) [0..<n]"
    by (simp add: upt_conv_Cons map_Suc_upt [symmetric] add.assoc del: upt_Suc)
  with Suc [of "ctr + 1"] show ?case by (simp add: add.assoc del: upt_Suc)
qed simp

lemma buf_write_eq:
  assumes "0 < buflen" "buflen \<le> length b" "k = min (buflen - 1) (length s)"
  shows "buf_write b buflen s = take k s @ NUL # drop (Suc k) b"
proof -
  have "copy_loop (buflen - 1) s b 0 = (k, take k s @ drop k b)"
    unfolding assms(3) by (rule copy_loop_eq) (use assms(2) in simp)
  moreover have "drop k b = b ! k # drop (Suc k) b" using assms by (intro Cons_nth_drop_Suc [symmetric]) auto
  moreover have "length (take k s) = k" using assms(3) by simp
  ultimately show ?thesis by (simp add: buf_write_def list_update_append)
qed

section \<open>Properties\<close>

text \<open>
  A boot parameter is written within the buffer and as a C string: a known name gives result 0
  and the buffer holds the value, cut to the length less one, then a NUL, and nothing else of
  it changes; an unknown name gives ENOENT and a missing name or buffer, or a buffer of less
  than two bytes, gives EINVAL, and the buffer is untouched.
\<close>

theorem getparam_writes_c_string:
  assumes "buflen \<le> length b" "rumpuser_getparam (Some nm) (Some b) buflen = (rc, Some b')"
  shows "rc = (if buflen < 2 then 22 else if param_value nm = None then 2 else 0) \<and> length b' = length b \<and>
    drop buflen b' = drop buflen b \<and> (rc \<noteq> 0 \<longrightarrow> b' = b) \<and>
    (\<forall>v. rc = 0 \<longrightarrow> param_value nm = Some v \<longrightarrow> take (min (buflen - 1) (length v) + 1) b' = take (buflen - 1) v @ [NUL])"
proof (cases "buflen < 2 \<or> param_value nm = None")
  case True
  with assms(2) show ?thesis by (auto simp: rumpuser_getparam_def split: option.splits if_splits)
next
  case False
  then obtain v where v: "param_value nm = Some v" and n: "2 \<le> buflen" by auto
  define k where "k = min (buflen - 1) (length v)"
  have b': "b' = take k v @ NUL # drop (Suc k) b" "rc = 0"
    using assms(2) v n buf_write_eq [OF _ assms(1) k_def] by (auto simp: rumpuser_getparam_def)
  have k: "k < buflen" "k \<le> length v" "take k v = take (buflen - 1) v" using n by (auto simp: k_def min_def)
  have "drop buflen b' = drop buflen b"
  proof -
    have "b' = (take k v @ [NUL]) @ drop (Suc k) b" "length (take k v @ [NUL]) = Suc k" using k(2) by (simp_all add: b'(1))
    then show ?thesis using k(1) by (simp only: drop_append drop_drop) simp
  qed
  moreover have "length b' = length b" using k(1,2) assms(1) by (simp add: b'(1))
  moreover have "take (k + 1) b' = take (buflen - 1) v @ [NUL]" 
  proof -
    have "take (k + 1) b' = take k v @ [NUL]" using k(2) by (simp add: b'(1))
    then show ?thesis by (simp only: k(3))
  qed
  ultimately show ?thesis using v n b'(2) k(3) by (simp add: k_def)
qed

theorem getparam_writes_c_string_witness:
  "rumpuser_getparam (Some ''_RUMPUSER_HOSTNAME'') (Some (replicate 6 CHR ''x'')) 4 =
     (0, Some (''net'' @ NUL # ''xx''))"
proof -
  obtain rc b' where r: "rumpuser_getparam (Some ''_RUMPUSER_HOSTNAME'') (Some (replicate 6 CHR ''x'')) 4 = (rc, Some b')"
    by (simp add: rumpuser_getparam_def param_value_def)
  from getparam_writes_c_string [OF _ r]
  have g: "rc = 0" "length b' = 6" "drop 4 b' = ''xx''" "take 4 b' = ''net'' @ [NUL]"
    by (simp_all add: param_value_def eval_nat_numeral)
  then have "b' = (''net'' @ [NUL]) @ ''xx''" by (metis append_take_drop_id)
  with g(1) r show ?thesis by simp
qed

text \<open>
  \<open>copystr\<close> copies a string that fits with its NUL and reports the bytes written, copies
  exactly \<open>len\<close> characters and no NUL of one that does not, and never writes past \<open>len\<close>;
  \<open>consttime_memequal\<close> is equality of the first \<open>n\<close> bytes.
\<close>

theorem copystr_and_memequal:
  assumes "len \<le> length d" "n \<le> length a" "n \<le> length b"
  shows "copystr s d len =
      (if length s < len then (0, s @ NUL # drop (Suc (length s)) d, length s + 1)
       else (ENAMETOOLONG, take len s @ drop len d, len)) \<and>
    (consttime_memequal a b n \<longleftrightarrow> take n a = take n b)"
proof -
  have "drop (length s) d = d ! length s # drop (Suc (length s)) d" if "length s < len"
    using that assms(1) by (intro Cons_nth_drop_Suc [symmetric]) simp
  then have "copystr s d len =
      (if length s < len then (0, s @ NUL # drop (Suc (length s)) d, length s + 1)
       else (ENAMETOOLONG, take len s @ drop len d, len))"
    using copy_loop_eq [OF assms(1), of s] by (auto simp: copystr_def min_def list_update_append)
  with memequal_acc_0 [OF assms(2,3)] show ?thesis by (simp add: consttime_memequal_def)
qed

theorem copystr_and_memequal_witness:
  "copystr ''ab'' ''....'' 4 = (0, ''ab'' @ NUL # ''.'', 3) \<and> copystr ''abcde'' ''....'' 3 = (ENAMETOOLONG, ''abc.'', 3) \<and>
   \<not> consttime_memequal [1, 2] [1, 3] 2"
  using copystr_and_memequal [of 4 "''....''" 2 "[1, 2]" "[1, 3]" "''ab''"]
    copystr_and_memequal [of 3 "''....''" 2 "[1, 2]" "[1, 3]" "''abcde''"]
  by (simp add: eval_nat_numeral)

text \<open>
  The entropy source is a counter: a request returns consecutive byte values, wrapping at 256,
  and two requests in a row return what one request for both lengths would.
\<close>

theorem getrandom_is_counter:
  "rumpuser_getrandom ctr n = (map (\<lambda>i. ctr + of_nat i) [0..<n], ctr + of_nat n) \<and>
   fst (rumpuser_getrandom ctr (n + m)) =
     fst (rumpuser_getrandom ctr n) @ fst (rumpuser_getrandom (snd (rumpuser_getrandom ctr n)) m)"
proof -
  have "map (\<lambda>i. ctr + of_nat i) [n..<n + m] = map (\<lambda>i. ctr + of_nat n + of_nat i) [0..<m]"
    by (rule nth_equalityI) (simp_all add: add.assoc)
  moreover have "[0..<n + m] = [0..<n] @ [n..<n + m]" by (rule upt_add_eq_append) simp
  ultimately show ?thesis by (simp add: getrandom_eq)
qed

end
