(* ===== verification/ClientSteps.thy ===== *)
theory ClientSteps
  imports ClientProps
begin

text \<open>
  What a single call of the client library does while the engine is up: one lemma per call, with the sockets
  before and after. Programs over the library are run with them (\<open>Session\<close>, \<open>EchoTest\<close>).
\<close>

section \<open>Calls while the engine is up\<close>

definition up :: "ipc_env \<Rightarrow> world \<Rightarrow> socks \<Rightarrow> bool" where
  "up env w m \<longleftrightarrow> online env w \<and> sockets w = m"

lemma up_call:
  assumes "up env w m" "op req \<noteq> NETSTACK_OP_SHUTDOWN"
    and "\<And>p. fst (spec_dispatch (m, False) (req\<lparr>mn_ReplyPort := p\<rparr>)) = (m', False)"
  obtains w' p where "netstack_ipc_call env req w = Some (0, snd (spec_dispatch (m, False) (req\<lparr>mn_ReplyPort := p\<rparr>)), w')"
    "up env w' m'"
proof -
  have on: "online env w" and m: "abs_engine (eng w) = (m, False)"
    using assms(1) by (simp_all add: up_def online_def in_loop_def sockets_def abs_engine_def)
  show ?thesis
  proof (rule ipc_online [OF on assms(2)])
    fix w'
    assume w': "netstack_ipc_call env req w =
        Some (0, snd (spec_dispatch (abs_engine (eng w)) (req\<lparr>mn_ReplyPort := reply_target env w\<rparr>)), w')"
      "online env w'" "abs_engine (eng w') = fst (spec_dispatch (abs_engine (eng w)) (req\<lparr>mn_ReplyPort := reply_target env w\<rparr>))"
    show ?thesis
      by (rule that) (use w' in \<open>simp_all add: m assms(3) up_def\<close>, simp add: abs_engine_def sockets_def)
  qed
qed

text \<open>A call whose result is the error code of its reply.\<close>

lemma up_code:
  assumes "up env w m" "op req \<noteq> NETSTACK_OP_SHUTDOWN"
    and "\<And>p. fst (spec_dispatch (m, False) (req\<lparr>mn_ReplyPort := p\<rparr>)) = (m', False)"
    and "\<And>p. err (snd (spec_dispatch (m, False) (req\<lparr>mn_ReplyPort := p\<rparr>))) = code"
    and "call = do {
      (rc, rep, w') \<leftarrow> netstack_ipc_call env req w; if rc \<noteq> 0 then Some (-1, w') else Some (err rep, w') }"
  obtains w' where "call = Some (code, w')" "up env w' m'"
proof (rule up_call [OF assms(1-3)])
  fix w' p
  assume "netstack_ipc_call env req w = Some (0, snd (spec_dispatch (m, False) (req\<lparr>mn_ReplyPort := p\<rparr>)), w')" "up env w' m'"
  then show thesis by (intro that) (simp_all add: assms(4,5))
qed

definition plain_sock :: sock where
  "plain_sock = \<lparr>s_kind = Unbound, s_domain = 2, s_type = 1, s_proto = 0, s_port = 0, s_queue = [],
     s_peer = None, s_stream = []\<rparr>"

lemma up_socket:
  assumes "up env w m" "free_fd m = Some fd"
  obtains w' where "netstack_socket env 2 1 0 w = Some (0, Some fd, w')" "up env w' (m(fd \<mapsto> plain_sock))"
  by (rule up_call [OF assms(1), of "req_zero\<lparr>op := NETSTACK_OP_SOCKET,
      u_socket := \<lparr>socket_domain = 2, socket_type = 1, socket_proto = 0, socket_sock = 0\<rparr>\<rparr>"])
    (use assms(2) that in \<open>auto simp: spec_dispatch_def spec_handler_def spec_socket_def plain_sock_def netstack_socket_def\<close>)

lemma up_bind:
  assumes "up env w m" "m fd = Some x" "s_kind x = Unbound" "\<And>i. \<not> holds_port p (m i)"
  obtains w' where "netstack_bind env fd p w = Some (0, w')" "up env w' (m(fd \<mapsto> x\<lparr>s_port := p\<rparr>))"
proof -
  have "\<not> list_ex (\<lambda>i. holds_port p (m i)) all_fds" using assms(4) by (simp add: list_ex_all_fds)
  with assms(2,3) show ?thesis
    by (intro up_code [OF assms(1) _ _ _ netstack_bind_def that])
      (simp_all add: spec_dispatch_def spec_handler_def spec_bind_def)
qed

lemma up_listen:
  assumes "up env w m" "m fd = Some x" "s_kind x = Unbound" "s_port x \<noteq> 0"
  obtains w' where "netstack_listen env fd bl w = Some (0, w')"
    "up env w' (m(fd \<mapsto> x\<lparr>s_kind := Listening, s_queue := []\<rparr>))"
  using assms(2-4)
  by (intro up_code [OF assms(1) _ _ _ netstack_listen_def that])
    (simp_all add: spec_dispatch_def spec_handler_def spec_listen_def)

lemma up_connect:
  assumes "up env w m" "m fd = Some x" "s_kind x = Unbound"
    and "find (\<lambda>i. listener_on p (m i)) all_fds = Some l" "m l = Some y" "s_queue y = []"
  obtains w' where "netstack_connect env fd p w = Some (0, w')"
    "up env w' (m(fd \<mapsto> x\<lparr>s_kind := Connected, s_peer := None\<rparr>, l \<mapsto> y\<lparr>s_queue := [fd]\<rparr>))"
  using assms(2-6)
  by (intro up_code [OF assms(1) _ _ _ netstack_connect_def that])
    (simp_all add: spec_dispatch_def spec_handler_def spec_connect_def)

lemma up_connect_refused:
  assumes "up env w m" "m fd = Some x" "s_kind x = Unbound"
    and "find (\<lambda>i. listener_on p (m i)) all_fds = None"
  obtains w' where "netstack_connect env fd p w = Some (NETSTACK_ECONNREFUSED, w')" "up env w' m"
  using assms(2-4)
  by (intro up_code [OF assms(1) _ _ _ netstack_connect_def that])
    (simp_all add: spec_dispatch_def spec_handler_def spec_connect_def)

lemma up_close:
  assumes "up env w m" "m fd = Some x"
  obtains w' where "netstack_close env fd w = Some (0, w')" "up env w' ((disconnect (s_peer x) m)(fd := None))"
  using assms(2)
  by (intro up_code [OF assms(1) _ _ _ netstack_close_def that])
    (simp_all add: spec_dispatch_def spec_handler_def spec_close_def)

lemma up_accept:
  assumes "up env w m" "m fd = Some y" "s_kind y = Listening" "s_queue y = c # q" "free_fd m = Some k"
  obtains w' where "netstack_accept env fd w = Some (0, Some (k, s_port y), w')"
    "up env w' (attach c k (m(fd \<mapsto> y\<lparr>s_queue := q\<rparr>,
       k \<mapsto> \<lparr>s_kind = Connected, s_domain = s_domain y, s_type = s_type y, s_proto = s_proto y,
             s_port = s_port y, s_queue = [], s_peer = Some c, s_stream = []\<rparr>)))"
  by (rule up_call [OF assms(1), of "req_zero\<lparr>op := NETSTACK_OP_ACCEPT,
      u_accept := \<lparr>accept_sock = fd, accept_new_sock = 0, accept_peer_port = 0\<rparr>\<rparr>"])
    (use assms(2-5) that in \<open>auto simp: spec_dispatch_def spec_handler_def spec_accept_def netstack_accept_def\<close>)

lemma up_accept_empty:
  assumes "up env w m" "m fd = Some l" "s_kind l = Listening" "s_queue l = []"
  obtains w' out where "netstack_accept env fd w = Some (NETSTACK_EAGAIN, out, w')" "up env w' m"
  by (rule up_call [OF assms(1), of "req_zero\<lparr>op := NETSTACK_OP_ACCEPT,
      u_accept := \<lparr>accept_sock = fd, accept_new_sock = 0, accept_peer_port = 0\<rparr>\<rparr>"])
    (use assms(2-4) that in \<open>auto simp: spec_dispatch_def spec_handler_def spec_accept_def netstack_accept_def\<close>)

lemma up_recv_nothing:
  assumes "up env w m" "m fd = Some s" "s_kind s = Connected" "s_stream s = []" "0 \<le> n"
  obtains w' where "netstack_recv env fd (Some buf) n w =
      Some (if Option.bind (s_peer s) m = None then 0 else NETSTACK_EAGAIN, Some buf, w')" "up env w' m"
proof -
  let ?req = "req_zero\<lparr>op := NETSTACK_OP_RECV,
    u_recv := \<lparr>recv_sock = fd, recv_len_in = (if n > NETSTACK_MAX_PAYLOAD then NETSTACK_MAX_PAYLOAD else n),
      recv_len_out = 0, recv_data = zero_payload\<rparr>\<rparr>"
  have d: "spec_dispatch (m, False) (?req\<lparr>mn_ReplyPort := p\<rparr>) = ((m, False), ?req\<lparr>mn_ReplyPort := p,
      err := (if Option.bind (s_peer s) m = None then NETSTACK_OK else NETSTACK_EAGAIN)\<rparr>)" for p
    using assms(2-4) by (simp add: spec_dispatch_def spec_handler_def spec_recv_def)
  show ?thesis
  proof (rule up_call [OF assms(1), of ?req m])
    fix w' p
    assume "netstack_ipc_call env ?req w = Some (0, snd (spec_dispatch (m, False) (?req\<lparr>mn_ReplyPort := p\<rparr>)), w')" "up env w' m"
    with assms(5) show thesis by (intro that) (simp_all add: d netstack_recv_def Let_def)
  qed (simp_all add: d)
qed

section \<open>From power-on\<close>

text \<open>Exec has two signal bits, a task and a port for the engine, and a reply port for the caller.\<close>

lemma started_up:
  assumes "0 \<le> ready_bit st" "0 \<le> stopped_bit st" "new_task st \<noteq> NULL" "new_port st \<noteq> NULL"
    and "env_find_port env = new_port st" "env_me env \<noteq> NULL" "env_alloc_port env \<noteq> NULL"
  obtains e calls c where "NetstackEngine_Start None st engine_init = (0, e, calls)"
    "netstack_client_init env client_zero = (0, c)" "up env \<lparr>cl = c, eng = e\<rparr> Map.empty"
proof -
  obtain e calls where st: "NetstackEngine_Start None st engine_init = (0, e, calls)"
    and e: "g_fdtable e = g_fdtable_init" "g_engine_ready e" "\<not> g_engine_shutdown e" "g_request_port e = new_port st"
    using assms by (auto simp: NetstackEngine_Start_def engine_init_def engine_open_def Let_def)
  obtain c where c: "netstack_client_init env client_zero = (0, c)"
    and c': "g_reply_slots c = g_reply_slots client_zero" "g_engine_port c = new_port st"
    using assms by (auto simp: netstack_client_init_def ensure_engine_port_def client_zero_def Let_def)
  have "up env \<lparr>cl = c, eng = e\<rparr> Map.empty"
    using assms e c' wf_engine_init
    by (simp add: up_def online_def engine_target_def reply_target_def in_loop_def sockets_def
        reply_slot_first abs_table_init engine_init_def owners_wf_def)
      (simp add: client_zero_def reply_slot_zero_def)
  with st c show thesis using that by blast
qed

end
