(* ===== verification/Session.thy ===== *)
theory Session
  imports Bsdsocket ClientSteps
begin

text \<open>
  A whole session through every layer, the one of \<open>tests/phase3/test_echo.c\<close> and
  \<open>test_bsdlib.c\<close>: a program that has opened the library makes a listening socket, connects to
  it, accepts, sends a message and receives it. The library starts the engine on the first
  call, the client finds its port, and every call goes through the port to the descriptor
  table and back.
\<close>

definition echo_session ::
  "bsd_env \<Rightarrow> uint8 list \<Rightarrow> int32 \<Rightarrow> uint8 list \<Rightarrow> int32 \<Rightarrow> uint8 list \<Rightarrow> int32 \<Rightarrow> bsd \<Rightarrow>
     (int32 list \<times> uint8 list option \<times> bsd) option"
where
  "echo_session env addr addrlen buf len rbuf mx s0 =
     do {
       (l, s1) \<leftarrow> bs_socket env 2 1 0 s0;
       (r1, s2) \<leftarrow> bs_bind env l (Some addr) addrlen s1;
       (r2, s3) \<leftarrow> bs_listen env l 4 s2;
       (c, s4) \<leftarrow> bs_socket env 2 1 0 s3;
       (r3, s5) \<leftarrow> bs_connect env c (Some addr) addrlen s4;
       (a, addr', addrlen', s6) \<leftarrow> bs_accept env l None None s5;
       (n1, s7) \<leftarrow> bs_send env c buf len s6;
       (n2, rbuf', s8) \<leftarrow> bs_recv env a (Some rbuf) mx s7;
       Some ([l, r1, r2, c, r3, a, n1, n2], rbuf', s8)
     }"

section \<open>A library whose engine is up\<close>

definition ready :: "bsd_env \<Rightarrow> bsd \<Rightarrow> socks \<Rightarrow> bool" where
  "ready env s m \<longleftrightarrow> g_engine_started s \<and> up (ipc_answers env) (wld s) m"

lemma ready_up: "ready env s m \<Longrightarrow> up (ipc_answers env) (wld s) m"
  by (simp add: ready_def)

lemma ready_ensure: "ready env s m \<Longrightarrow> ensure_engine env s = (0, s, [])"
  by (simp add: ready_def ensure_engine_def)

lemma ready_next: "ready env s m \<Longrightarrow> up (ipc_answers env) w m' \<Longrightarrow> ready env (s\<lparr>wld := w\<rparr>) m'"
  by (simp add: ready_def)

section \<open>The steps of the session\<close>

lemma step_socket:
  assumes "ready env s m" "free_fd m = Some fd"
  obtains s' where "bs_socket env 2 1 0 s = Some (fd, s')" "ready env s' (m(fd \<mapsto> plain_sock))"
proof (rule up_socket [OF ready_up [OF assms(1)] assms(2)])
  fix w
  assume "netstack_socket (ipc_answers env) 2 1 0 (wld s) = Some (0, Some fd, w)"
    "up (ipc_answers env) w (m(fd \<mapsto> plain_sock))"
  with ready_next [OF assms(1)] show thesis by (intro that) (simp_all add: bs_socket_def ready_ensure [OF assms(1)])
qed

lemma step_bind:
  assumes "ready env s m" "m fd = Some x" "s_kind x = Unbound" "\<And>i. \<not> holds_port p (m i)"
    and "extract_port (Some addr) n = p"
  obtains s' where "bs_bind env fd (Some addr) n s = Some (0, s')" "ready env s' (m(fd \<mapsto> x\<lparr>s_port := p\<rparr>))"
proof (rule up_bind [OF ready_up [OF assms(1)] assms(2-4)])
  fix w
  assume "netstack_bind (ipc_answers env) fd p (wld s) = Some (0, w)" "up (ipc_answers env) w (m(fd \<mapsto> x\<lparr>s_port := p\<rparr>))"
  with ready_next [OF assms(1)] show thesis
    by (intro that) (simp_all add: bs_bind_def ready_ensure [OF assms(1)] assms(5))
qed

lemma step_listen:
  assumes "ready env s m" "m fd = Some x" "s_kind x = Unbound" "s_port x \<noteq> 0"
  obtains s' where "bs_listen env fd bl s = Some (0, s')"
    "ready env s' (m(fd \<mapsto> x\<lparr>s_kind := Listening, s_queue := []\<rparr>))"
proof (rule up_listen [OF ready_up [OF assms(1)] assms(2-4)])
  fix w
  assume "netstack_listen (ipc_answers env) fd bl (wld s) = Some (0, w)"
    "up (ipc_answers env) w (m(fd \<mapsto> x\<lparr>s_kind := Listening, s_queue := []\<rparr>))"
  with ready_next [OF assms(1)] show thesis by (intro that) (simp_all add: bs_listen_def ready_ensure [OF assms(1)])
qed

lemma step_connect:
  assumes "ready env s m" "m fd = Some x" "s_kind x = Unbound"
    and "find (\<lambda>i. listener_on p (m i)) all_fds = Some l" "m l = Some y" "s_queue y = []"
    and "extract_port (Some addr) n = p"
  obtains s' where "bs_connect env fd (Some addr) n s = Some (0, s')"
    "ready env s' (m(fd \<mapsto> x\<lparr>s_kind := Connected, s_peer := None\<rparr>, l \<mapsto> y\<lparr>s_queue := [fd]\<rparr>))"
proof (rule up_connect [OF ready_up [OF assms(1)] assms(2-6)])
  fix w
  assume "netstack_connect (ipc_answers env) fd p (wld s) = Some (0, w)"
    "up (ipc_answers env) w (m(fd \<mapsto> x\<lparr>s_kind := Connected, s_peer := None\<rparr>, l \<mapsto> y\<lparr>s_queue := [fd]\<rparr>))"
  with ready_next [OF assms(1)] show thesis
    by (intro that) (simp_all add: bs_connect_def ready_ensure [OF assms(1)] assms(7))
qed

lemma step_round_trip:
  assumes "ready env s m" "m a = Some sa" "s_peer sa = Some b"
    and "m b = Some sb" "s_kind sb = Connected" "s_stream sb = []"
    and "0 < len" "len \<le> NETSTACK_MAX_PAYLOAD" "nat len \<le> length buf" "len \<le> mx"
  obtains s1 s2 where "bs_send env a buf len s = Some (len, s1)"
    "bs_recv env b (Some rbuf) mx s1 = Some (len, Some (blit rbuf 0 (take (nat len) buf)), s2)" "ready env s2 m"
proof -
  have on: "online (ipc_answers env) (wld s)" "sockets (wld s) = m" using assms(1) by (simp_all add: ready_def up_def)
  obtain w1 w2 where w: "netstack_send (ipc_answers env) a buf len (wld s) = Some (len, w1)"
    "netstack_recv (ipc_answers env) b (Some rbuf) mx w1 = Some (len, Some (blit rbuf 0 (take (nat len) buf)), w2)"
    "sockets w2 = m" "online (ipc_answers env) w2"
    using client_round_trip [OF on(1), of a sa b sb len buf mx rbuf] assms(2-10) on(2) by auto
  show ?thesis
  proof (rule that)
    show "bs_send env a buf len s = Some (len, s\<lparr>wld := w1\<rparr>)"
      using w(1) assms(7) by (simp add: bs_send_def ready_ensure [OF assms(1)])
    have "ensure_engine env (s\<lparr>wld := w1\<rparr>) = (0, s\<lparr>wld := w1\<rparr>, [])"
      using assms(1) by (simp add: ensure_engine_def ready_def)
    then show "bs_recv env b (Some rbuf) mx (s\<lparr>wld := w1\<rparr>) =
        Some (len, Some (blit rbuf 0 (take (nat len) buf)), s\<lparr>wld := w2\<rparr>)"
      using w(2) assms(7) by (simp add: bs_recv_def)
    show "ready env (s\<lparr>wld := w2\<rparr>) m" using w(3,4) assms(1) by (simp add: ready_def up_def)
  qed
qed

lemma step_accept:
  assumes "ready env s m" "m fd = Some y" "s_kind y = Listening" "s_queue y = c # q" "free_fd m = Some k"
  obtains s' where "bs_accept env fd None None s = Some (k, None, None, s')"
    "ready env s' (attach c k (m(fd \<mapsto> y\<lparr>s_queue := q\<rparr>,
       k \<mapsto> \<lparr>s_kind = Connected, s_domain = s_domain y, s_type = s_type y, s_proto = s_proto y,
             s_port = s_port y, s_queue = [], s_peer = Some c, s_stream = []\<rparr>)))"
proof (rule up_accept [OF ready_up [OF assms(1)] assms(2-5)])
  let ?m = "attach c k (m(fd \<mapsto> y\<lparr>s_queue := q\<rparr>,
       k \<mapsto> \<lparr>s_kind = Connected, s_domain = s_domain y, s_type = s_type y, s_proto = s_proto y,
             s_port = s_port y, s_queue = [], s_peer = Some c, s_stream = []\<rparr>))"
  fix w
  assume "netstack_accept (ipc_answers env) fd (wld s) = Some (0, Some (k, s_port y), w)" "up (ipc_answers env) w ?m"
  with ready_next [OF assms(1)] show thesis by (intro that) (simp_all add: bs_accept_def ready_ensure [OF assms(1)])
qed

section \<open>From power-on\<close>

definition fresh :: "bsd \<Rightarrow> bool" where
  "fresh s \<longleftrightarrow> \<not> g_engine_started s \<and> eng (wld s) = engine_init \<and> cl (wld s) = client_zero"

text \<open>Exec has two signal bits, a task and a port for the engine, and a reply port for the caller.\<close>

definition gives :: "bsd_env \<Rightarrow> bool" where
  "gives env \<longleftrightarrow> 0 \<le> ready_bit (start_answers env) \<and> 0 \<le> stopped_bit (start_answers env) \<and>
     new_task (start_answers env) \<noteq> NULL \<and> new_port (start_answers env) \<noteq> NULL \<and>
     env_find_port (ipc_answers env) = new_port (start_answers env) \<and>
     env_me (ipc_answers env) \<noteq> NULL \<and> env_alloc_port (ipc_answers env) \<noteq> NULL"

lemma fresh_start:
  assumes "fresh s" "gives env"
  obtains s' calls where "ensure_engine env s = (0, s', calls)" "ready env s' Map.empty"
proof (rule started_up [of "start_answers env" "ipc_answers env"])
  fix e calls c
  assume st: "NetstackEngine_Start None (start_answers env) engine_init = (0, e, calls)"
    "netstack_client_init (ipc_answers env) client_zero = (0, c)" "up (ipc_answers env) \<lparr>cl = c, eng = e\<rparr> Map.empty"
  then show thesis using assms(1)
    by (intro that [of "s\<lparr>wld := \<lparr>cl = c, eng = e\<rparr>, g_engine_started := True\<rparr>" calls])
      (simp_all add: ensure_engine_def fresh_def ready_def)
qed (use assms(2) in \<open>simp_all add: gives_def\<close>)

lemma started_socket:
  "ensure_engine env s = (0, s', calls) \<Longrightarrow> ready env s' m \<Longrightarrow> bs_socket env d t p s = bs_socket env d t p s'"
  by (simp add: bs_socket_def ready_ensure)

text \<open>
  C6: a whole session works from power-on: with nothing running, a program that makes a socket,
  binds and listens, makes a second socket, connects, accepts and sends gets the descriptors
  3, 4 and 5, no error from any call, and on the accepted socket the message it sent, byte for
  byte, for every port but 0 and every message of 1 to 1024 bytes: library, lazy engine start,
  client, message port, dispatcher and descriptor table fit together.
\<close>

theorem echo_session_works:
  assumes "fresh s" "gives env" "extract_port (Some addr) addrlen = p" "p \<noteq> 0"
    and "0 < len" "len \<le> NETSTACK_MAX_PAYLOAD" "nat len \<le> length buf" "len \<le> mx"
  shows "\<exists>s'. echo_session env addr addrlen buf len rbuf mx s =
    Some ([3, 0, 0, 4, 0, 5, len, len], Some (blit rbuf 0 (take (nat len) buf)), s')"
proof -
  obtain s0 calls where s0: "ensure_engine env s = (0, s0, calls)" "ready env s0 Map.empty"
    using fresh_start [OF assms(1,2)] .
  obtain s1 where s1: "bs_socket env 2 1 0 s0 = Some (3, s1)" "ready env s1 [3 \<mapsto> plain_sock]"
    using step_socket [OF s0(2), of 3] by (simp add: free_fd_eval del: upto_rec_numeral) blast
  let ?m2 = "[3 \<mapsto> plain_sock\<lparr>s_port := p\<rparr>]"
  obtain s2 where s2: "bs_bind env 3 (Some addr) addrlen s1 = Some (0, s2)" "ready env s2 ?m2"
    by (rule step_bind [OF s1(2), of 3 plain_sock p addr addrlen])
      (use assms(3) in \<open>auto simp: plain_sock_def holds_port_def\<close>)
  let ?m3 = "[3 \<mapsto> plain_sock\<lparr>s_port := p, s_kind := Listening\<rparr>]"
  obtain s3 where s3: "bs_listen env 3 4 s2 = Some (0, s3)" "ready env s3 ?m3"
    using step_listen [OF s2(2), of 3 "plain_sock\<lparr>s_port := p\<rparr>" 4] assms(4)
    by (auto simp: plain_sock_def)
  obtain s4 where s4: "bs_socket env 2 1 0 s3 = Some (4, s4)" "ready env s4 (?m3(4 \<mapsto> plain_sock))"
    using step_socket [OF s3(2), of 4] by (simp add: free_fd_eval del: upto_rec_numeral) blast
  let ?c = "plain_sock\<lparr>s_kind := Connected\<rparr>" and ?l = "plain_sock\<lparr>s_port := p, s_kind := Listening\<rparr>"
  have find: "find (\<lambda>i. listener_on p ((?m3(4 \<mapsto> plain_sock)) i)) all_fds = Some 3"
    by (simp add: find_all_fds_eval listener_on_def plain_sock_def del: upto_rec_numeral)
  obtain s5 where s5: "bs_connect env 4 (Some addr) addrlen s4 = Some (0, s5)"
    "ready env s5 [3 \<mapsto> ?l\<lparr>s_queue := [4]\<rparr>, 4 \<mapsto> ?c]"
  proof (rule step_connect [OF s4(2) _ _ find, of 4 plain_sock ?l addr addrlen])
    fix s5
    assume "bs_connect env 4 (Some addr) addrlen s4 = Some (0, s5)"
      "ready env s5 (?m3(4 \<mapsto> plain_sock, 4 \<mapsto> plain_sock\<lparr>s_kind := Connected, s_peer := None\<rparr>, 3 \<mapsto> ?l\<lparr>s_queue := [4]\<rparr>))"
    moreover have "?m3(4 \<mapsto> plain_sock, 4 \<mapsto> plain_sock\<lparr>s_kind := Connected, s_peer := None\<rparr>, 3 \<mapsto> ?l\<lparr>s_queue := [4]\<rparr>) =
        [3 \<mapsto> ?l\<lparr>s_queue := [4]\<rparr>, (4 :: int32) \<mapsto> ?c]" by (rule ext) (simp add: plain_sock_def)
    ultimately show thesis by (intro that) (simp_all only:)
  qed (use assms(3) in \<open>simp_all add: plain_sock_def\<close>)
  let ?a = "?c\<lparr>s_port := p, s_peer := Some 4\<rparr>"
  let ?m6 = "[3 \<mapsto> ?l, 5 \<mapsto> ?a, 4 \<mapsto> ?c\<lparr>s_peer := Some 5\<rparr>]"
  obtain s6 where s6: "bs_accept env 3 None None s5 = Some (5, None, None, s6)" "ready env s6 ?m6"
  proof (rule step_accept [OF s5(2), of 3 "?l\<lparr>s_queue := [4]\<rparr>" 4 "[]" 5])
    show "free_fd [3 \<mapsto> ?l\<lparr>s_queue := [4]\<rparr>, 4 \<mapsto> ?c] = Some 5"
      by (simp add: free_fd_eval del: upto_rec_numeral)
  qed (auto simp: plain_sock_def attach_def fun_upd_twist)
  obtain s7 s8 where s78: "bs_send env 4 buf len s6 = Some (len, s7)"
    "bs_recv env 5 (Some rbuf) mx s7 = Some (len, Some (blit rbuf 0 (take (nat len) buf)), s8)"
    by (rule step_round_trip [OF s6(2), of 4 "?c\<lparr>s_peer := Some 5\<rparr>" 5 ?a len buf mx rbuf])
      (use assms(5-8) in \<open>auto simp: plain_sock_def\<close>)
  show ?thesis
    using started_socket [OF s0, of 2 1 0] s1(1) s2(1) s3(1) s4(1) s5(1) s6(1) s78
    by (simp add: echo_session_def)
qed

theorem echo_session_works_witness:
  "\<exists>s'. echo_session bsd_boot_env [16, 2, 4, 210] 4 [104, 105] 2 [0, 0, 0] 3 bsd_twice_open =
     Some ([3, 0, 0, 4, 0, 5, 2, 2], Some [104, 105, 0], s')"
  using echo_session_works [of bsd_twice_open bsd_boot_env "[16, 2, 4, 210]" 4 1234 2 "[104, 105]" 3 "[0, 0, 0]"]
  by (simp add: fresh_def gives_def bsd_twice_open_def bsd_boot_env_def boot_env_def task_env_def
      extract_port_def blit_def)

end
