(* ===== verification/Locks.thy ===== *)
theory Locks
  imports Osal
begin

text \<open>
  Mutexes and reader-writer locks (\<open>src/phase1_osal/osal_lock.c\<close>), which wrap exec's signal
  semaphores, and the rump kernel's calls on them. The semaphore is a parameter: \<open>exec_sem\<close> are
  the calls of exec that the file uses, on a semaphore of any representation, and \<open>sem_laws\<close> is
  what exec documents about them. A call that has to wait is \<open>None\<close>: it happens when it returns.
\<close>

section \<open>The semaphore\<close>

record 's exec_sem =
  InitSemaphore :: 's
  ObtainSemaphore :: "ptr \<Rightarrow> 's \<Rightarrow> 's option"
  ObtainSemaphoreShared :: "ptr \<Rightarrow> 's \<Rightarrow> 's option"
  AttemptSemaphore :: "ptr \<Rightarrow> 's \<Rightarrow> 's option"
  ReleaseSemaphore :: "ptr \<Rightarrow> 's \<Rightarrow> 's"

text \<open>
  \<open>depth s t\<close> is how often task \<open>t\<close> has obtained the semaphore and not released it, \<open>shared s\<close>
  whether it is held in shared mode. A semaphore nests; it is obtained exclusively only if no
  other task holds it, and never by a task that holds it in shared mode; in shared mode only if
  all who hold it do so in shared mode, or inside the caller's own exclusive hold.
\<close>

definition obtains_exclusive :: "('s \<Rightarrow> ptr \<Rightarrow> nat) \<Rightarrow> ('s \<Rightarrow> bool) \<Rightarrow> ptr \<Rightarrow> 's \<Rightarrow> 's \<Rightarrow> bool" where
  "obtains_exclusive depth shared t s s' \<longleftrightarrow>
     (\<forall>u. u \<noteq> t \<longrightarrow> depth s u = 0) \<and> (0 < depth s t \<longrightarrow> \<not> shared s) \<and>
     depth s' = (depth s)(t := Suc (depth s t)) \<and> \<not> shared s'"

definition obtains_shared :: "('s \<Rightarrow> ptr \<Rightarrow> nat) \<Rightarrow> ('s \<Rightarrow> bool) \<Rightarrow> ptr \<Rightarrow> 's \<Rightarrow> 's \<Rightarrow> bool" where
  "obtains_shared depth shared t s s' \<longleftrightarrow>
     depth s' = (depth s)(t := Suc (depth s t)) \<and>
     (if shared s' then \<forall>u. 0 < depth s u \<longrightarrow> shared s
      else \<not> shared s \<and> 0 < depth s t \<and> (\<forall>u. u \<noteq> t \<longrightarrow> depth s u = 0))"

definition sem_laws :: "'s exec_sem \<Rightarrow> ('s \<Rightarrow> ptr \<Rightarrow> nat) \<Rightarrow> ('s \<Rightarrow> bool) \<Rightarrow> bool" where
  "sem_laws X depth shared \<longleftrightarrow>
     depth (InitSemaphore X) = (\<lambda>_. 0) \<and>
     (\<forall>t s s'. ObtainSemaphore X t s = Some s' \<longrightarrow> obtains_exclusive depth shared t s s') \<and>
     (\<forall>t s. (\<forall>u. u \<noteq> t \<longrightarrow> depth s u = 0) \<longrightarrow> (0 < depth s t \<longrightarrow> \<not> shared s) \<longrightarrow>
        ObtainSemaphore X t s \<noteq> None) \<and>
     (\<forall>t s. AttemptSemaphore X t s = ObtainSemaphore X t s) \<and>
     (\<forall>t s s'. ObtainSemaphoreShared X t s = Some s' \<longrightarrow> obtains_shared depth shared t s s') \<and>
     (\<forall>t s. 0 < depth s t \<longrightarrow> depth (ReleaseSemaphore X t s) = (depth s)(t := depth s t - 1) \<and>
        shared (ReleaseSemaphore X t s) = shared s)"

lemma sem_lawsD:
  assumes "sem_laws X depth shared"
  shows "depth (InitSemaphore X) = (\<lambda>_. 0)"
    and "ObtainSemaphore X t s = Some s' \<Longrightarrow> obtains_exclusive depth shared t s s'"
    and "(\<And>u. u \<noteq> t \<Longrightarrow> depth s u = 0) \<Longrightarrow> (0 < depth s t \<Longrightarrow> \<not> shared s) \<Longrightarrow> \<exists>s'. ObtainSemaphore X t s = Some s'"
    and "AttemptSemaphore X t s = ObtainSemaphore X t s"
    and "ObtainSemaphoreShared X t s = Some s' \<Longrightarrow> obtains_shared depth shared t s s'"
    and "0 < depth s t \<Longrightarrow> depth (ReleaseSemaphore X t s) = (depth s)(t := depth s t - 1)"
    and "0 < depth s t \<Longrightarrow> shared (ReleaseSemaphore X t s) = shared s"
proof -
  show "\<exists>s'. ObtainSemaphore X t s = Some s'"
    if "\<And>u. u \<noteq> t \<Longrightarrow> depth s u = 0" "0 < depth s t \<Longrightarrow> \<not> shared s"
    using assms that by (simp add: sem_laws_def)
qed (use assms in \<open>simp_all add: sem_laws_def\<close>)

section \<open>Mutexes\<close>

record 's osal_mutex =
  m_sem :: 's

definition osal_mutex_new :: "'s exec_sem \<Rightarrow> ptr \<Rightarrow> 's osal_mutex option" where
  "osal_mutex_new X mem = (if mem \<noteq> NULL then Some \<lparr>m_sem = InitSemaphore X\<rparr> else None)"

definition osal_mutex_free :: "ptr \<Rightarrow> os_event list" where
  "osal_mutex_free m = osal_free m"

definition osal_mutex_lock :: "'s exec_sem \<Rightarrow> ptr \<Rightarrow> 's osal_mutex \<Rightarrow> 's osal_mutex option" where
  "osal_mutex_lock X t m = map_option (\<lambda>s. m\<lparr>m_sem := s\<rparr>) (ObtainSemaphore X t (m_sem m))"

definition osal_mutex_trylock :: "'s exec_sem \<Rightarrow> ptr \<Rightarrow> 's osal_mutex \<Rightarrow> int32 \<times> 's osal_mutex" where
  "osal_mutex_trylock X t m =
     (case AttemptSemaphore X t (m_sem m) of None \<Rightarrow> (0, m) | Some s \<Rightarrow> (1, m\<lparr>m_sem := s\<rparr>))"

definition osal_mutex_unlock :: "'s exec_sem \<Rightarrow> ptr \<Rightarrow> 's osal_mutex \<Rightarrow> 's osal_mutex" where
  "osal_mutex_unlock X t m = m\<lparr>m_sem := ReleaseSemaphore X t (m_sem m)\<rparr>"

definition rumpuser_mutex_init :: "'s exec_sem \<Rightarrow> ptr \<Rightarrow> int32 \<Rightarrow> 's osal_mutex option" where
  "rumpuser_mutex_init X mem flags = osal_mutex_new X mem"

definition rumpuser_mutex_enter :: "'s exec_sem \<Rightarrow> ptr \<Rightarrow> 's osal_mutex \<Rightarrow> 's osal_mutex option" where
  "rumpuser_mutex_enter X t mtx = osal_mutex_lock X t mtx"

definition rumpuser_mutex_enter_nowrap :: "'s exec_sem \<Rightarrow> ptr \<Rightarrow> 's osal_mutex \<Rightarrow> 's osal_mutex option" where
  "rumpuser_mutex_enter_nowrap X t mtx = osal_mutex_lock X t mtx"

definition rumpuser_mutex_tryenter :: "'s exec_sem \<Rightarrow> ptr \<Rightarrow> 's osal_mutex \<Rightarrow> int32 \<times> 's osal_mutex" where
  "rumpuser_mutex_tryenter X t mtx = osal_mutex_trylock X t mtx"

definition rumpuser_mutex_exit :: "'s exec_sem \<Rightarrow> ptr \<Rightarrow> 's osal_mutex \<Rightarrow> 's osal_mutex" where
  "rumpuser_mutex_exit X t mtx = osal_mutex_unlock X t mtx"

definition rumpuser_mutex_destroy :: "ptr \<Rightarrow> os_event list" where
  "rumpuser_mutex_destroy mtx = osal_mutex_free mtx"

text \<open>The owner is never reported.\<close>

definition rumpuser_mutex_owner :: "'s osal_mutex \<Rightarrow> ptr" where
  "rumpuser_mutex_owner mtx = NULL"

section \<open>Reader-writer locks\<close>

record 's osal_rwlock =
  rw_sem :: 's

definition osal_rwlock_new :: "'s exec_sem \<Rightarrow> ptr \<Rightarrow> 's osal_rwlock option" where
  "osal_rwlock_new X mem = (if mem \<noteq> NULL then Some \<lparr>rw_sem = InitSemaphore X\<rparr> else None)"

definition osal_rwlock_free :: "ptr \<Rightarrow> os_event list" where
  "osal_rwlock_free rw = osal_free rw"

definition osal_rwlock_rlock :: "'s exec_sem \<Rightarrow> ptr \<Rightarrow> 's osal_rwlock \<Rightarrow> 's osal_rwlock option" where
  "osal_rwlock_rlock X t rw = map_option (\<lambda>s. rw\<lparr>rw_sem := s\<rparr>) (ObtainSemaphoreShared X t (rw_sem rw))"

definition osal_rwlock_wlock :: "'s exec_sem \<Rightarrow> ptr \<Rightarrow> 's osal_rwlock \<Rightarrow> 's osal_rwlock option" where
  "osal_rwlock_wlock X t rw = map_option (\<lambda>s. rw\<lparr>rw_sem := s\<rparr>) (ObtainSemaphore X t (rw_sem rw))"

definition osal_rwlock_unlock :: "'s exec_sem \<Rightarrow> ptr \<Rightarrow> 's osal_rwlock \<Rightarrow> 's osal_rwlock" where
  "osal_rwlock_unlock X t rw = rw\<lparr>rw_sem := ReleaseSemaphore X t (rw_sem rw)\<rparr>"

definition rumpuser_rw_init :: "'s exec_sem \<Rightarrow> ptr \<Rightarrow> 's osal_rwlock option" where
  "rumpuser_rw_init X mem = osal_rwlock_new X mem"

text \<open>The kind of access, reader or writer, is ignored.\<close>

definition rumpuser_rw_enter :: "'s exec_sem \<Rightarrow> int32 \<Rightarrow> ptr \<Rightarrow> 's osal_rwlock \<Rightarrow> 's osal_rwlock option" where
  "rumpuser_rw_enter X type t rw = osal_rwlock_wlock X t rw"

definition rumpuser_rw_tryenter :: "int32 \<Rightarrow> 's osal_rwlock \<Rightarrow> int32 \<times> 's osal_rwlock" where
  "rumpuser_rw_tryenter type rw = (0, rw)"

definition rumpuser_rw_tryupgrade :: "'s osal_rwlock \<Rightarrow> int32 \<times> 's osal_rwlock" where
  "rumpuser_rw_tryupgrade rw = (0, rw)"

definition rumpuser_rw_downgrade :: "'s osal_rwlock \<Rightarrow> 's osal_rwlock" where
  "rumpuser_rw_downgrade rw = rw"

definition rumpuser_rw_exit :: "'s exec_sem \<Rightarrow> ptr \<Rightarrow> 's osal_rwlock \<Rightarrow> 's osal_rwlock" where
  "rumpuser_rw_exit X t rw = osal_rwlock_unlock X t rw"

definition rumpuser_rw_destroy :: "ptr \<Rightarrow> os_event list" where
  "rumpuser_rw_destroy rw = osal_rwlock_free rw"

definition rumpuser_rw_held :: "int32 \<Rightarrow> 's osal_rwlock \<Rightarrow> int32" where
  "rumpuser_rw_held type rw = 0"

section \<open>Who is inside\<close>

text \<open>
  A lock with the count of each task's entries it has not left, and whether one of them is an
  exclusive one: what the callers know. \<open>sem_inv\<close> ties it to the semaphore.
\<close>

definition sem_inv ::
  "('s \<Rightarrow> ptr \<Rightarrow> nat) \<Rightarrow> ('s \<Rightarrow> bool) \<Rightarrow> 's \<Rightarrow> (ptr \<Rightarrow> nat) \<Rightarrow> (ptr \<Rightarrow> bool) \<Rightarrow> bool"
where
  "sem_inv depth shared s ins ex \<longleftrightarrow>
     depth s = ins \<and> (\<forall>t. 0 < ins t \<longrightarrow> ex t \<longrightarrow> \<not> shared s) \<and>
     (\<not> shared s \<longrightarrow> (\<forall>t u. 0 < ins t \<longrightarrow> 0 < ins u \<longrightarrow> t = u))"

lemma sem_inv_mono:
  "sem_inv depth shared s ins ex \<Longrightarrow> (\<And>t. ex' t \<Longrightarrow> ex t) \<Longrightarrow> sem_inv depth shared s ins ex'"
  unfolding sem_inv_def by blast

lemma sem_inv_alone:
  "sem_inv depth shared s ins ex \<Longrightarrow> 0 < ins t \<Longrightarrow> ex t \<Longrightarrow> 0 < ins u \<Longrightarrow> u = t"
  unfolding sem_inv_def by blast

lemma sem_inv_init: "sem_laws X depth shared \<Longrightarrow> sem_inv depth shared (InitSemaphore X) (\<lambda>_. 0) ex"
  by (simp add: sem_inv_def sem_lawsD(1))

lemma sem_inv_obtain:
  assumes "sem_laws X depth shared" "sem_inv depth shared s ins ex" "ObtainSemaphore X t s = Some s'"
    and "\<And>u. u \<noteq> t \<Longrightarrow> ex' u \<Longrightarrow> ex u"
  shows "sem_inv depth shared s' (ins(t := Suc (ins t))) ex'"
  using sem_lawsD(2) [OF assms(1,3)] assms(2) by (auto simp: obtains_exclusive_def sem_inv_def split: if_splits)

lemma sem_inv_shared:
  assumes "sem_laws X depth shared" "sem_inv depth shared s ins ex" "ObtainSemaphoreShared X t s = Some s'"
    and "\<And>u. ex' u \<Longrightarrow> ex u \<and> 0 < ins u"
  shows "sem_inv depth shared s' (ins(t := Suc (ins t))) ex'"
proof (cases "shared s'")
  case True
  with sem_lawsD(5) [OF assms(1,3)] assms(2,4) show ?thesis
    by (auto simp: obtains_shared_def sem_inv_def split: if_splits)
next
  case False
  with sem_lawsD(5) [OF assms(1,3)] assms(2,4) show ?thesis
    by (auto simp: obtains_shared_def sem_inv_def split: if_splits)
qed

lemma sem_inv_release:
  assumes "sem_laws X depth shared" "sem_inv depth shared s ins ex" "0 < ins t"
  shows "sem_inv depth shared (ReleaseSemaphore X t s) (ins(t := ins t - Suc 0)) ex"
proof -
  have d: "0 < depth s t" using assms(2,3) by (simp add: sem_inv_def)
  show ?thesis
    using sem_lawsD(6,7) [OF assms(1) d] assms(2,3) by (auto simp: sem_inv_def split: if_splits)
qed

section \<open>Tasks around one mutex\<close>

record 's mtx_sys =
  mtx :: "'s osal_mutex"
  mtx_in :: "ptr \<Rightarrow> nat"

datatype mtx_act = M_enter ptr | M_tryenter ptr | M_exit ptr

text \<open>\<open>None\<close>: the call waits, or it is an exit of a task that is not inside.\<close>

fun mtx_do :: "'s exec_sem \<Rightarrow> mtx_act \<Rightarrow> 's mtx_sys \<Rightarrow> 's mtx_sys option" where
  "mtx_do X (M_enter t) s =
     map_option (\<lambda>m. \<lparr>mtx = m, mtx_in = (mtx_in s)(t := Suc (mtx_in s t))\<rparr>) (rumpuser_mutex_enter X t (mtx s))"
| "mtx_do X (M_tryenter t) s =
     (case rumpuser_mutex_tryenter X t (mtx s) of (got, m) \<Rightarrow>
        Some \<lparr>mtx = m, mtx_in = (if got = 1 then (mtx_in s)(t := Suc (mtx_in s t)) else mtx_in s)\<rparr>)"
| "mtx_do X (M_exit t) s =
     (if 0 < mtx_in s t
      then Some \<lparr>mtx = rumpuser_mutex_exit X t (mtx s), mtx_in = (mtx_in s)(t := mtx_in s t - 1)\<rparr>
      else None)"

text \<open>The states that the tasks' calls lead to, from a new mutex.\<close>

inductive mtx_reach :: "'s exec_sem \<Rightarrow> 's mtx_sys \<Rightarrow> bool" for X where
  mtx_start: "osal_mutex_new X mem = Some m \<Longrightarrow> mtx_reach X \<lparr>mtx = m, mtx_in = \<lambda>_. 0\<rparr>"
| mtx_next: "mtx_reach X s \<Longrightarrow> mtx_do X a s = Some s' \<Longrightarrow> mtx_reach X s'"

lemmas mutex_defs = rumpuser_mutex_enter_def rumpuser_mutex_tryenter_def rumpuser_mutex_exit_def
  osal_mutex_lock_def osal_mutex_trylock_def osal_mutex_unlock_def

lemma mtx_inv:
  assumes "sem_laws X depth shared" "mtx_reach X s"
  shows "sem_inv depth shared (m_sem (mtx s)) (mtx_in s) (\<lambda>_. True)"
  using assms(2)
proof induction
  case (mtx_start mem m)
  then have "m_sem m = InitSemaphore X" by (auto simp: osal_mutex_new_def split: if_splits)
  with sem_inv_init [OF assms(1)] show ?case by simp
next
  case (mtx_next s a s')
  note step = sem_inv_obtain [OF assms(1) mtx_next.IH, unfolded fun_upd_def]
    sem_inv_release [OF assms(1) mtx_next.IH, unfolded fun_upd_def]
  show ?case
  proof (cases a)
    case (M_enter t)
    with mtx_next.hyps(2) step(1) show ?thesis by (auto simp: mutex_defs fun_upd_def)
  next
    case (M_tryenter t)
    with mtx_next.hyps(2) mtx_next.IH step(1) show ?thesis
      by (auto simp: mutex_defs fun_upd_def sem_lawsD(4) [OF assms(1)] split: option.splits)
  next
    case (M_exit t)
    with mtx_next.hyps(2) step(2) [of t] show ?thesis by (auto simp: mutex_defs fun_upd_def split: if_splits)
  qed
qed

section \<open>Tasks around one reader-writer lock\<close>

record 's rw_sys =
  rw_lock :: "'s osal_rwlock"
  rw_in :: "ptr \<Rightarrow> nat"
  rw_exclusive :: "ptr \<Rightarrow> bool"

text \<open>
  Entries through \<open>osal_rwlock_wlock\<close> and through \<open>rumpuser_rw_enter\<close>, whatever its kind of
  access, are exclusive ones.
\<close>

datatype rw_act = RW_rlock ptr | RW_wlock ptr | RW_enter int32 ptr | RW_tryenter int32 | RW_unlock ptr | RW_exit ptr

definition rw_enters :: "ptr \<Rightarrow> bool \<Rightarrow> 's osal_rwlock option \<Rightarrow> 's rw_sys \<Rightarrow> 's rw_sys option" where
  "rw_enters t ex r s =
     map_option (\<lambda>rw. \<lparr>rw_lock = rw, rw_in = (rw_in s)(t := Suc (rw_in s t)),
       rw_exclusive = (rw_exclusive s)(t := ex \<or> 0 < rw_in s t \<and> rw_exclusive s t)\<rparr>) r"

definition rw_leaves :: "ptr \<Rightarrow> 's osal_rwlock \<Rightarrow> 's rw_sys \<Rightarrow> 's rw_sys option" where
  "rw_leaves t rw s =
     (if 0 < rw_in s t then Some (s\<lparr>rw_lock := rw, rw_in := (rw_in s)(t := rw_in s t - 1)\<rparr>) else None)"

fun rw_do :: "'s exec_sem \<Rightarrow> rw_act \<Rightarrow> 's rw_sys \<Rightarrow> 's rw_sys option" where
  "rw_do X (RW_rlock t) s = rw_enters t False (osal_rwlock_rlock X t (rw_lock s)) s"
| "rw_do X (RW_wlock t) s = rw_enters t True (osal_rwlock_wlock X t (rw_lock s)) s"
| "rw_do X (RW_enter ty t) s = rw_enters t True (rumpuser_rw_enter X ty t (rw_lock s)) s"
| "rw_do X (RW_tryenter ty) s = Some (s\<lparr>rw_lock := snd (rumpuser_rw_tryenter ty (rw_lock s))\<rparr>)"
| "rw_do X (RW_unlock t) s = rw_leaves t (osal_rwlock_unlock X t (rw_lock s)) s"
| "rw_do X (RW_exit t) s = rw_leaves t (rumpuser_rw_exit X t (rw_lock s)) s"

inductive rw_reach :: "'s exec_sem \<Rightarrow> 's rw_sys \<Rightarrow> bool" for X where
  rw_start: "osal_rwlock_new X mem = Some rw \<Longrightarrow>
    rw_reach X \<lparr>rw_lock = rw, rw_in = \<lambda>_. 0, rw_exclusive = \<lambda>_. False\<rparr>"
| rw_next: "rw_reach X s \<Longrightarrow> rw_do X a s = Some s' \<Longrightarrow> rw_reach X s'"

definition rw_sys_inv :: "('s \<Rightarrow> ptr \<Rightarrow> nat) \<Rightarrow> ('s \<Rightarrow> bool) \<Rightarrow> 's rw_sys \<Rightarrow> bool" where
  "rw_sys_inv depth shared s \<longleftrightarrow>
     sem_inv depth shared (rw_sem (rw_lock s)) (rw_in s) (\<lambda>t. 0 < rw_in s t \<and> rw_exclusive s t)"

lemma rw_wlock_inv:
  assumes "sem_laws X depth shared" "rw_sys_inv depth shared s"
    and "rw_enters t True (osal_rwlock_wlock X t (rw_lock s)) s = Some s'"
  shows "rw_sys_inv depth shared s'"
proof -
  obtain z where z: "ObtainSemaphore X t (rw_sem (rw_lock s)) = Some z"
    and s': "s' = \<lparr>rw_lock = (rw_lock s)\<lparr>rw_sem := z\<rparr>, rw_in = (rw_in s)(t := Suc (rw_in s t)),
      rw_exclusive = (rw_exclusive s)(t := True)\<rparr>"
    using assms(3) by (auto simp: rw_enters_def osal_rwlock_wlock_def)
  show ?thesis
    unfolding rw_sys_inv_def s'
    by simp (rule sem_inv_obtain [OF assms(1) assms(2) [unfolded rw_sys_inv_def] z], simp)
qed

lemma rw_rlock_inv:
  assumes "sem_laws X depth shared" "rw_sys_inv depth shared s"
    and "rw_enters t False (osal_rwlock_rlock X t (rw_lock s)) s = Some s'"
  shows "rw_sys_inv depth shared s'"
proof -
  obtain z where z: "ObtainSemaphoreShared X t (rw_sem (rw_lock s)) = Some z"
    and s': "s' = \<lparr>rw_lock = (rw_lock s)\<lparr>rw_sem := z\<rparr>, rw_in = (rw_in s)(t := Suc (rw_in s t)),
      rw_exclusive = (rw_exclusive s)(t := 0 < rw_in s t \<and> rw_exclusive s t)\<rparr>"
    using assms(3) by (auto simp: rw_enters_def osal_rwlock_rlock_def)
  show ?thesis
    unfolding rw_sys_inv_def s'
    by simp (rule sem_inv_shared [OF assms(1) assms(2) [unfolded rw_sys_inv_def] z], metis)
qed

lemma rw_leaves_inv:
  assumes "sem_laws X depth shared" "rw_sys_inv depth shared s"
    and "rw_leaves t (osal_rwlock_unlock X t (rw_lock s)) s = Some s'"
  shows "rw_sys_inv depth shared s'"
proof -
  have i: "0 < rw_in s t" and s': "s' = s\<lparr>rw_lock := (rw_lock s)\<lparr>rw_sem := ReleaseSemaphore X t (rw_sem (rw_lock s))\<rparr>,
      rw_in := (rw_in s)(t := rw_in s t - 1)\<rparr>"
    using assms(3) by (auto simp: rw_leaves_def osal_rwlock_unlock_def split: if_splits)
  show ?thesis
    unfolding rw_sys_inv_def s'
    by simp (rule sem_inv_mono [OF sem_inv_release [OF assms(1) assms(2) [unfolded rw_sys_inv_def] i]],
        metis Suc_lessD)
qed

lemma rw_inv:
  assumes "sem_laws X depth shared" "rw_reach X s"
  shows "rw_sys_inv depth shared s"
  using assms(2)
proof induction
  case (rw_start mem rw)
  then have "rw_sem rw = InitSemaphore X" by (auto simp: osal_rwlock_new_def split: if_splits)
  with sem_inv_init [OF assms(1)] show ?case by (simp add: rw_sys_inv_def)
next
  case (rw_next s a s')
  note step = rw_wlock_inv [OF assms(1) rw_next.IH] rw_rlock_inv [OF assms(1) rw_next.IH]
    rw_leaves_inv [OF assms(1) rw_next.IH]
  show ?case
    using rw_next.hyps(2) rw_next.IH
    by (cases a) (auto simp: rumpuser_rw_enter_def rumpuser_rw_exit_def rumpuser_rw_tryenter_def intro: step)
qed

section \<open>Exclusion\<close>

text \<open>
  C40: a mutex lets one task in: however tasks enter, try and leave, two that are inside are the
  same one; an enter goes through, and a try returns 1, exactly when no other task is inside,
  so the one inside may enter again.
\<close>

theorem mutex_excludes:
  assumes "sem_laws X depth shared" "mtx_reach X s"
  shows "(0 < mtx_in s t \<longrightarrow> 0 < mtx_in s u \<longrightarrow> t = u) \<and>
    ((\<exists>m. rumpuser_mutex_enter X t (mtx s) = Some m) \<longleftrightarrow> (\<forall>v. v \<noteq> t \<longrightarrow> mtx_in s v = 0)) \<and>
    (fst (rumpuser_mutex_tryenter X t (mtx s)) = 1 \<longleftrightarrow> (\<forall>v. v \<noteq> t \<longrightarrow> mtx_in s v = 0))"
proof -
  note inv = mtx_inv [OF assms]
  have d: "depth (m_sem (mtx s)) = mtx_in s" using inv by (simp add: sem_inv_def)
  have "(\<exists>z. ObtainSemaphore X t (m_sem (mtx s)) = Some z) \<longleftrightarrow> (\<forall>v. v \<noteq> t \<longrightarrow> mtx_in s v = 0)"
    using sem_lawsD(2,3) [OF assms(1), of t "m_sem (mtx s)"] inv
    by (auto simp: obtains_exclusive_def sem_inv_def d)
  then show ?thesis
    using sem_inv_alone [OF inv] sem_lawsD(4) [OF assms(1)] by (auto simp: mutex_defs split: option.splits)
qed

text \<open>
  C23: who is inside a reader-writer lock for writing, or through \<open>rumpuser_rw_enter\<close> for any kind
  of access, is alone: nobody else is inside, and readers, writers and the rump kernel wait.
\<close>

theorem rwlock_excludes:
  assumes "sem_laws X depth shared" "rw_reach X s" "0 < rw_in s t" "rw_exclusive s t" "u \<noteq> t"
  shows "rw_in s u = 0 \<and> osal_rwlock_rlock X u (rw_lock s) = None \<and>
    osal_rwlock_wlock X u (rw_lock s) = None \<and> rumpuser_rw_enter X ty u (rw_lock s) = None"
proof -
  let ?z = "rw_sem (rw_lock s)"
  have inv: "sem_inv depth shared ?z (rw_in s) (\<lambda>t. 0 < rw_in s t \<and> rw_exclusive s t)"
    using rw_inv [OF assms(1,2)] by (simp add: rw_sys_inv_def)
  have d: "depth ?z = rw_in s" and sh: "\<not> shared ?z" using inv assms(3,4) by (auto simp: sem_inv_def)
  have "ObtainSemaphore X u ?z = None"
    using sem_lawsD(2) [OF assms(1), of u ?z] assms(3,5) by (cases "ObtainSemaphore X u ?z") (auto simp: obtains_exclusive_def d)
  moreover have "ObtainSemaphoreShared X u ?z = None"
    using sem_lawsD(5) [OF assms(1), of u ?z] assms(3,5) sh
    by (cases "ObtainSemaphoreShared X u ?z") (auto simp: obtains_shared_def d split: if_splits)
  ultimately show ?thesis
    using sem_inv_alone [OF inv, of t u] assms(3-5)
    by (auto simp: rumpuser_rw_enter_def osal_rwlock_rlock_def osal_rwlock_wlock_def)
qed

text \<open>
  \<open>osal_cv_wait\<close> leaves the mutex once before it sleeps: a task that has entered it twice keeps
  every other task out while it waits for one of them to signal.
\<close>

lemma nested_wait_keeps_mutex:
  assumes "sem_laws X depth shared" "mtx_reach X s" "1 < mtx_in s t" "u \<noteq> t"
  shows "osal_mutex_lock X u (osal_mutex_unlock X t (mtx s)) = None"
proof -
  let ?m = "osal_mutex_unlock X t (mtx s)"
  have "mtx_reach X \<lparr>mtx = ?m, mtx_in = (mtx_in s)(t := mtx_in s t - 1)\<rparr>"
    by (rule mtx_next [OF assms(2), of "M_exit t"]) (use assms(3) in \<open>simp add: rumpuser_mutex_exit_def\<close>)
  from mtx_inv [OF assms(1) this] have "0 < depth (m_sem ?m) t" using assms(3) by (simp add: sem_inv_def)
  then have "ObtainSemaphore X u (m_sem ?m) = None"
    using sem_lawsD(2) [OF assms(1), of u "m_sem ?m"] assms(4)
    by (cases "ObtainSemaphore X u (m_sem ?m)") (auto simp: obtains_exclusive_def)
  then show ?thesis by (simp add: osal_mutex_lock_def)
qed

section \<open>A semaphore\<close>

text \<open>A semaphore that keeps the list of its holders, once for each time they obtained it, and its mode.\<close>

definition list_sem :: "(ptr list \<times> bool) exec_sem" where
  "list_sem =
     \<lparr>InitSemaphore = ([], False),
      ObtainSemaphore = (\<lambda>t (hs, sh). if list_all ((=) t) hs \<and> (hs = [] \<or> \<not> sh) then Some (t # hs, False) else None),
      ObtainSemaphoreShared = (\<lambda>t (hs, sh).
        if hs = [] \<or> sh then Some (t # hs, True)
        else if list_all ((=) t) hs then Some (t # hs, False) else None),
      AttemptSemaphore = (\<lambda>t (hs, sh). if list_all ((=) t) hs \<and> (hs = [] \<or> \<not> sh) then Some (t # hs, False) else None),
      ReleaseSemaphore = (\<lambda>t (hs, sh). (remove1 t hs, sh))\<rparr>"

lemma count_list_remove1: "count_list (remove1 x xs) y = (if x = y then count_list xs y - 1 else count_list xs y)"
  by (induction xs) (auto simp: count_list_0_iff)

lemma holders_only: "list_all ((=) t) hs \<longleftrightarrow> (\<forall>u. u \<noteq> t \<longrightarrow> count_list hs u = 0)"
  by (auto simp: list_all_iff count_list_0_iff)

lemma holders_pos: "hs \<noteq> [] \<Longrightarrow> list_all ((=) t) hs \<Longrightarrow> 0 < count_list hs t"
  by (cases hs) auto

lemma list_sem_laws: "sem_laws list_sem (\<lambda>(hs, sh). count_list hs) snd"
  unfolding sem_laws_def
proof (intro conjI allI impI)
  show "(\<lambda>(hs, sh). count_list hs) (InitSemaphore list_sem) = (\<lambda>_. 0)"
    by (rule ext) (simp add: list_sem_def)
next
  fix t s s'
  show "ObtainSemaphore list_sem t s = Some s' \<Longrightarrow> obtains_exclusive (\<lambda>(hs, sh). count_list hs) snd t s s'"
    by (auto simp: list_sem_def obtains_exclusive_def holders_only fun_eq_iff split: prod.splits if_splits)
  show "ObtainSemaphoreShared list_sem t s = Some s' \<Longrightarrow> obtains_shared (\<lambda>(hs, sh). count_list hs) snd t s s'"
    by (auto simp: list_sem_def obtains_shared_def fun_eq_iff holders_pos holders_only [symmetric] split: prod.splits if_splits)
next
  fix t and s :: "ptr list \<times> bool"
  show "ObtainSemaphore list_sem t s \<noteq> None"
    if "\<forall>u. u \<noteq> t \<longrightarrow> (\<lambda>(hs, sh). count_list hs) s u = 0" "0 < (\<lambda>(hs, sh). count_list hs) s t \<longrightarrow> \<not> snd s"
    using that by (cases s) (auto simp: list_sem_def holders_only neq_Nil_conv split: if_splits)
  show "AttemptSemaphore list_sem t s = ObtainSemaphore list_sem t s" by (simp add: list_sem_def)
  assume "0 < (\<lambda>(hs, sh). count_list hs) s t"
  show "(\<lambda>(hs, sh). count_list hs) (ReleaseSemaphore list_sem t s) =
      ((\<lambda>(hs, sh). count_list hs) s)(t := (\<lambda>(hs, sh). count_list hs) s t - 1)"
    by (cases s) (simp add: list_sem_def count_list_remove1 fun_eq_iff)
  show "snd (ReleaseSemaphore list_sem t s) = snd s" by (cases s) (simp add: list_sem_def)
qed

lemma list_mutex_reach: "mtx_reach list_sem \<lparr>mtx = \<lparr>m_sem = ([7], False)\<rparr>, mtx_in = (\<lambda>_. 0)(7 := 1)\<rparr>"
proof -
  have "mtx_reach list_sem \<lparr>mtx = \<lparr>m_sem = ([], False)\<rparr>, mtx_in = \<lambda>_. 0\<rparr>"
    by (rule mtx_start [of list_sem 1]) (simp add: osal_mutex_new_def list_sem_def)
  from mtx_next [OF this, of "M_enter 7"] show ?thesis by (simp add: mutex_defs list_sem_def)
qed

theorem mutex_excludes_witness:
  "fst (rumpuser_mutex_tryenter list_sem 9 \<lparr>m_sem = ([7], False)\<rparr>) \<noteq> 1 \<and>
   (\<exists>m. rumpuser_mutex_enter list_sem 7 \<lparr>m_sem = ([7], False)\<rparr> = Some m)"
  using mutex_excludes [OF list_sem_laws list_mutex_reach, of 9 7]
    mutex_excludes [OF list_sem_laws list_mutex_reach, of 7 7] by auto

lemma list_rw_reach:
  "rw_reach list_sem \<lparr>rw_lock = \<lparr>rw_sem = ([7], False)\<rparr>, rw_in = (\<lambda>_. 0)(7 := 1), rw_exclusive = (\<lambda>_. False)(7 := True)\<rparr>"
proof -
  have "rw_reach list_sem \<lparr>rw_lock = \<lparr>rw_sem = ([], False)\<rparr>, rw_in = \<lambda>_. 0, rw_exclusive = \<lambda>_. False\<rparr>"
    by (rule rw_start [of list_sem 1]) (simp add: osal_rwlock_new_def list_sem_def)
  from rw_next [OF this, of "RW_enter 0 7"] show ?thesis
    by (simp add: rw_enters_def rumpuser_rw_enter_def osal_rwlock_wlock_def list_sem_def)
qed

theorem rwlock_excludes_witness:
  "osal_rwlock_rlock list_sem 9 \<lparr>rw_sem = ([7], False)\<rparr> = None \<and>
   rumpuser_rw_enter list_sem 0 9 \<lparr>rw_sem = ([7], False)\<rparr> = None"
  using rwlock_excludes [OF list_sem_laws list_rw_reach, of 7 9] by simp

end
