(* ===== verification/Concurrent.thy ===== *)
theory Concurrent
  imports Scenario
begin

text \<open>
  Many tasks calling at once. \<open>Client\<close> treats a remote call as one step; here the calls of all
  tasks and the engine's loop are taken apart into the steps that exec can interleave: the two
  semaphore-protected lookups of \<open>netstack_ipc_call\<close> (\<open>socket_ipc.c\<close>), \<open>PutMsg\<close>, and \<open>WaitPort\<close>
  with \<open>GetMsg\<close>; the engine's \<open>Wait\<close>, \<open>GetMsg\<close> with the dispatch, and \<open>ReplyMsg\<close>
  (\<open>engine_process_main\<close>, \<open>engine_main.c\<close>). A message is not copied: it is the request on the
  caller's stack, which caller and engine both write, so ports hold the address of the message,
  here the task it belongs to, and \<open>n_msg\<close> is the memory behind it.
\<close>

section \<open>The steps\<close>

text \<open>
  Where a call is: about to look for the engine's port, about to get its reply port, about to put
  the message, waiting at its reply port, or waiting for a port nobody reads.
\<close>

datatype call_pc = C_Idle | C_Engine | C_Reply ptr | C_Put ptr ptr | C_Wait ptr | C_Stuck

text \<open>Where the engine is: in \<open>Wait\<close>, about to call \<open>GetMsg\<close>, about to reply, or gone.\<close>

datatype engine_pc = E_Wait | E_Drain | E_Reply ptr | E_Gone

text \<open>What is observed: a message put, dispatched (with the reply it becomes), and returned.\<close>

datatype call_event = Inv ptr NetstackReq | Lin ptr NetstackReq NetstackReq | Res ptr NetstackReq

record net =
  n_cl :: client
  n_eng :: engine
  n_epc :: engine_pc
  n_queue :: "ptr list"
  n_replies :: "ptr \<Rightarrow> ptr list"
  n_msg :: "ptr \<Rightarrow> NetstackReq"
  n_pc :: "ptr \<Rightarrow> call_pc"
  n_hist :: "call_event list"

text \<open>
  \<open>Find t found\<close>: \<open>found\<close> is what \<open>FindPort\<close> would answer. \<open>Reply t p\<close>: \<open>p\<close> is the port exec would
  allocate, which is none that is allocated already.
\<close>

datatype net_act =
    Call ptr NetstackReq | Find ptr ptr | Reply ptr ptr | Put ptr | Return ptr
  | Wake | Get | Answer | Leave

definition n_slots :: "net \<Rightarrow> reply_slot list" where
  "n_slots s = g_reply_slots (n_cl s)"

definition move :: "ptr \<Rightarrow> call_pc \<Rightarrow> net \<Rightarrow> net" where
  "move t pc s = s\<lparr>n_pc := (n_pc s)(t := pc)\<rparr>"

definition do_find :: "ptr \<Rightarrow> ptr \<Rightarrow> net \<Rightarrow> net" where
  "do_find t found s =
     (let (e, c) = ensure_engine_port found (n_cl s)
      in move t (if e = NULL then C_Idle else C_Reply e) (s\<lparr>n_cl := c\<rparr>))"

definition do_reply :: "ptr \<Rightarrow> ptr \<Rightarrow> ptr \<Rightarrow> net \<Rightarrow> net" where
  "do_reply t e p s =
     (let (r, c) = ensure_reply_port \<lparr>env_me = t, env_find_port = NULL, env_alloc_port = p\<rparr> (n_cl s)
      in move t (if r = NULL then C_Idle else C_Put e r) (s\<lparr>n_cl := c\<rparr>))"

definition do_put :: "ptr \<Rightarrow> ptr \<Rightarrow> ptr \<Rightarrow> net \<Rightarrow> net" where
  "do_put t e r s =
     (let m = (n_msg s t)\<lparr>mn_ReplyPort := r\<rparr>; s1 = s\<lparr>n_msg := (n_msg s)(t := m)\<rparr> in
      if g_engine_ready (n_eng s) \<and> e = g_request_port (n_eng s)
      then move t (C_Wait r) (s1\<lparr>n_queue := n_queue s @ [t], n_hist := n_hist s @ [Inv t m]\<rparr>)
      else move t C_Stuck s1)"

definition do_get :: "net \<Rightarrow> net" where
  "do_get s =
     (case n_queue s of
        [] \<Rightarrow> s\<lparr>n_epc := E_Wait\<rparr>
      | t # q \<Rightarrow>
          let (e, m) = dispatch_request (n_eng s) (n_msg s t)
          in s\<lparr>n_queue := q, n_eng := e, n_msg := (n_msg s)(t := m), n_epc := E_Reply t,
               n_hist := n_hist s @ [Lin t (n_msg s t) m]\<rparr>)"

definition do_answer :: "ptr \<Rightarrow> net \<Rightarrow> net" where
  "do_answer t s =
     (let r = mn_ReplyPort (n_msg s t)
      in s\<lparr>n_replies := (n_replies s)(r := n_replies s r @ [t]), n_epc := E_Drain\<rparr>)"

text \<open>\<open>WaitPort\<close> lets go when there is a message; which one \<open>GetMsg\<close> pops the code does not look at.\<close>

definition do_return :: "ptr \<Rightarrow> ptr \<Rightarrow> net \<Rightarrow> net" where
  "do_return t r s =
     move t C_Idle (s\<lparr>n_replies := (n_replies s)(r := tl (n_replies s r)), n_hist := n_hist s @ [Res t (n_msg s t)]\<rparr>)"

fun net_do :: "net_act \<Rightarrow> net \<Rightarrow> net option" where
  "net_do (Call t req) s =
     (if t \<noteq> NULL \<and> n_pc s t = C_Idle then Some (move t C_Engine (s\<lparr>n_msg := (n_msg s)(t := req)\<rparr>)) else None)"
| "net_do (Find t found) s = (if n_pc s t = C_Engine then Some (do_find t found s) else None)"
| "net_do (Reply t p) s =
     (case n_pc s t of
        C_Reply e \<Rightarrow> if p \<notin> rs_port ` set (n_slots s) \<or> p = NULL then Some (do_reply t e p s) else None
      | _ \<Rightarrow> None)"
| "net_do (Put t) s = (case n_pc s t of C_Put e r \<Rightarrow> Some (do_put t e r s) | _ \<Rightarrow> None)"
| "net_do (Return t) s =
     (case n_pc s t of C_Wait r \<Rightarrow> if n_replies s r \<noteq> [] then Some (do_return t r s) else None | _ \<Rightarrow> None)"
| "net_do Wake s =
     (if n_epc s = E_Wait \<and> \<not> g_engine_shutdown (n_eng s) then Some (s\<lparr>n_epc := E_Drain\<rparr>) else None)"
| "net_do Get s = (if n_epc s = E_Drain then Some (do_get s) else None)"
| "net_do Answer s = (case n_epc s of E_Reply t \<Rightarrow> Some (do_answer t s) | _ \<Rightarrow> None)"
| "net_do Leave s =
     (if n_epc s = E_Wait then Some (s\<lparr>n_epc := E_Gone, n_eng := fst (engine_teardown (n_eng s))\<rparr>) else None)"

text \<open>An engine in its loop, with nothing under way.\<close>

definition net_boot :: "net \<Rightarrow> bool" where
  "net_boot s \<longleftrightarrow>
     n_cl s = client_zero \<and> fdtable_wf (g_fdtable (n_eng s)) \<and> n_epc s = E_Wait \<and> n_queue s = [] \<and>
     n_replies s = (\<lambda>_. []) \<and> n_pc s = (\<lambda>_. C_Idle) \<and> n_hist s = []"

inductive net_reach :: "net \<Rightarrow> net \<Rightarrow> bool" for s0 where
  net_start: "net_boot s0 \<Longrightarrow> net_reach s0 s0"
| net_next: "net_reach s0 s \<Longrightarrow> net_do a s = Some s' \<Longrightarrow> net_reach s0 s'"

section \<open>Histories\<close>

fun who :: "call_event \<Rightarrow> ptr" where
  "who (Inv t q) = t"
| "who (Lin t q r) = t"
| "who (Res t r) = t"

text \<open>
  The calls of one task: each message is put, then dispatched once, as it was put, and then
  returned as the dispatch left it. \<open>None\<close> is a history that is not of this form.
\<close>

datatype call_phase = Quiet | Called NetstackReq | Served NetstackReq

fun phase_step :: "call_phase \<Rightarrow> call_event \<Rightarrow> call_phase option" where
  "phase_step Quiet (Inv t q) = Some (Called q)"
| "phase_step (Called q) (Lin t q' r) = (if q' = q then Some (Served r) else None)"
| "phase_step (Served r) (Res t r') = (if r' = r then Some Quiet else None)"
| "phase_step _ _ = None"

fun call_phase_after :: "call_phase \<Rightarrow> call_event list \<Rightarrow> call_phase option" where
  "call_phase_after ph [] = Some ph"
| "call_phase_after ph (e # es) = (case phase_step ph e of None \<Rightarrow> None | Some ph' \<Rightarrow> call_phase_after ph' es)"

definition phase :: "net \<Rightarrow> ptr \<Rightarrow> call_phase option" where
  "phase s t = call_phase_after Quiet (filter (\<lambda>e. who e = t) (n_hist s))"

text \<open>The dispatches of a history, in order: requests and replies.\<close>

fun dispatched :: "call_event list \<Rightarrow> NetstackReq list \<times> NetstackReq list" where
  "dispatched [] = ([], [])"
| "dispatched (Lin t q r # es) = (case dispatched es of (qs, rs) \<Rightarrow> (q # qs, r # rs))"
| "dispatched (e # es) = dispatched es"

lemma phase_after_append:
  "call_phase_after ph (es @ es') = (case call_phase_after ph es of None \<Rightarrow> None | Some ph' \<Rightarrow> call_phase_after ph' es')"
  by (induction ph es rule: call_phase_after.induct) (auto split: option.splits)

lemma dispatched_append:
  "dispatched (es @ es') = (fst (dispatched es) @ fst (dispatched es'), snd (dispatched es) @ snd (dispatched es'))"
  by (induction es rule: dispatched.induct) (auto simp: split_beta)

section \<open>The invariant\<close>

text \<open>
  Reply ports belong to one task each. A task in a call has its message in one place: in the
  engine's queue as it was put, with the engine that is about to reply, or alone in the task's
  reply port.
\<close>

definition slots_ok :: "reply_slot list \<Rightarrow> bool" where
  "slots_ok slots \<longleftrightarrow> owners_wf (map rs_owner slots) \<and>
     (\<forall>i < length slots. \<forall>j < length slots. rs_owner (slots ! i) \<noteq> NULL \<longrightarrow> rs_owner (slots ! j) \<noteq> NULL \<longrightarrow>
        rs_port (slots ! i) = rs_port (slots ! j) \<longrightarrow> i = j)"

definition has_slot :: "reply_slot list \<Rightarrow> ptr \<Rightarrow> ptr \<Rightarrow> bool" where
  "has_slot slots t r \<longleftrightarrow> t \<noteq> NULL \<and> (\<exists>i < length slots. rs_owner (slots ! i) = t \<and> rs_port (slots ! i) = r)"

definition idle_ok :: "net \<Rightarrow> ptr \<Rightarrow> bool" where
  "idle_ok s t \<longleftrightarrow> t \<notin> set (n_queue s) \<and> n_epc s \<noteq> E_Reply t \<and> phase s t = Some Quiet"

definition wait_ok :: "net \<Rightarrow> ptr \<Rightarrow> ptr \<Rightarrow> bool" where
  "wait_ok s t r \<longleftrightarrow>
     has_slot (n_slots s) t r \<and> mn_ReplyPort (n_msg s t) = r \<and>
     (if t \<in> set (n_queue s)
      then n_epc s \<noteq> E_Reply t \<and> n_replies s r = [] \<and> phase s t = Some (Called (n_msg s t))
      else n_replies s r = (if n_epc s = E_Reply t then [] else [t]) \<and> phase s t = Some (Served (n_msg s t)))"

definition call_ok :: "net \<Rightarrow> ptr \<Rightarrow> bool" where
  "call_ok s t \<longleftrightarrow>
     (n_pc s t = C_Idle \<or> t \<noteq> NULL) \<and>
     (case n_pc s t of
        C_Wait r \<Rightarrow> wait_ok s t r
      | C_Put e r \<Rightarrow> idle_ok s t \<and> has_slot (n_slots s) t r
      | _ \<Rightarrow> idle_ok s t)"

definition net_inv :: "socks \<times> bool \<Rightarrow> net \<Rightarrow> bool" where
  "net_inv a0 s \<longleftrightarrow>
     slots_ok (n_slots s) \<and> fdtable_wf (g_fdtable (n_eng s)) \<and> distinct (n_queue s) \<and>
     (\<forall>t. call_ok s t) \<and> (\<forall>r. n_replies s r \<noteq> [] \<longrightarrow> (\<exists>t. n_pc s t = C_Wait r)) \<and>
     spec_run a0 (fst (dispatched (n_hist s))) = (abs_engine (n_eng s), snd (dispatched (n_hist s)))"

lemmas call_ok_defs = call_ok_def idle_ok_def wait_ok_def n_slots_def

lemma slot_port_unique:
  "slots_ok slots \<Longrightarrow> has_slot slots t r \<Longrightarrow> has_slot slots u r \<Longrightarrow> t = u"
  unfolding slots_ok_def has_slot_def by metis

lemma has_slot_keeps:
  assumes "slots_ok slots" "me \<noteq> NULL" "reply_slot_for p me slots = (q, slots')" "has_slot slots t r"
  shows "has_slot slots' t r"
proof -
  have wf: "owners_wf (map rs_owner slots)" using assms(1) by (simp add: slots_ok_def)
  obtain i where i: "i < length slots" "rs_owner (slots ! i) = t" "rs_port (slots ! i) = r" "t \<noteq> NULL"
    using assms(4) by (auto simp: has_slot_def)
  with rp.ensure_keeps [OF wf assms(2,3), of i] show ?thesis
    unfolding has_slot_def by (intro conjI exI [of _ i]) simp_all
qed

lemma reply_slot_ok:
  assumes ok: "slots_ok slots" and me: "me \<noteq> NULL" and e: "reply_slot_for p me slots = (q, slots')"
    and fresh: "p \<notin> rs_port ` set slots \<or> p = NULL"
  shows "slots_ok slots'" "q \<noteq> NULL \<Longrightarrow> has_slot slots' me q"
proof -
  have wf: "owners_wf (map rs_owner slots)" using ok by (simp add: slots_ok_def)
  then have len: "TASK_SLOT_MAX = int (length slots)" by (simp add: owners_wf_def)
  note wf' = rp.ensure_wf [OF wf me e]
  have "slots_ok slots' \<and> (q \<noteq> NULL \<longrightarrow> has_slot slots' me q)"
  proof (cases "me \<in> rs_owner ` set slots")
    case True
    then obtain i where i: "i < length slots" "rs_owner (slots ! i) = me" by (auto simp: in_set_conv_nth)
    from rp.hit [OF wf me i] e have "slots' = slots" "q = rs_port (slots ! i)" by auto
    with i ok me show ?thesis by (auto simp: has_slot_def)
  next
    case False
    then have miss: "c_search (\<lambda>i. rs_owner (aget slots i) = me) 0 TASK_SLOT_MAX = -1"
      by (cases rule: c_search_list [OF len, of "\<lambda>s. rs_owner s = me"]) auto
    show ?thesis
    proof (cases rule: c_search_list [OF len, of "\<lambda>s. rs_owner s = NULL", case_names none found])
      case none
      with e miss ok show ?thesis by (simp add: reply_slot_for_def)
    next
      case (found k)
      show ?thesis
      proof (cases "p = NULL")
        case True
        with found e miss ok show ?thesis by (simp add: reply_slot_for_def)
      next
        case False
        with found e miss
        have new: "slots' = slots[k := \<lparr>rs_owner = me, rs_port = p\<rparr>]" "q = p"
          by (auto simp: reply_slot_for_def aset_def)
        have "p \<noteq> rs_port (slots ! i)" if "i < length slots" for i
          using fresh False that by auto
        with ok wf' found(2) me show ?thesis
          unfolding slots_ok_def has_slot_def new
          by (auto simp: nth_list_update intro!: exI [of _ k])
      qed
    qed
  qed
  then show "slots_ok slots'" "q \<noteq> NULL \<Longrightarrow> has_slot slots' me q" by simp_all
qed

lemma phase_snoc:
  "phase (s\<lparr>n_hist := n_hist s @ [e]\<rparr>) t =
     (if who e = t then (case phase s t of None \<Rightarrow> None | Some ph \<Rightarrow> phase_step ph e) else phase s t)"
  by (auto simp: phase_def phase_after_append split: option.splits)

lemma spec_run_snoc:
  "spec_run a (rs @ [r]) =
     (fst (spec_dispatch (fst (spec_run a rs)) r), snd (spec_run a rs) @ [snd (spec_dispatch (fst (spec_run a rs)) r)])"
  by (induction rs arbitrary: a) (simp_all add: split_beta)

section \<open>Every step keeps the invariant\<close>

lemma call_ok_frame:
  assumes "call_ok s t" "n_pc s' t = n_pc s t" "\<And>r. has_slot (n_slots s) t r \<Longrightarrow> has_slot (n_slots s') t r"
    and "t \<in> set (n_queue s') \<longleftrightarrow> t \<in> set (n_queue s)" "n_epc s' = E_Reply t \<longleftrightarrow> n_epc s = E_Reply t"
    and "\<And>r. n_pc s t = C_Wait r \<Longrightarrow> has_slot (n_slots s) t r \<Longrightarrow> n_replies s' r = n_replies s r \<and> n_msg s' t = n_msg s t"
    and "phase s' t = phase s t"
  shows "call_ok s' t"
  using assms(1) assms(3) assms(6)
  by (cases "n_pc s t") (auto simp: call_ok_def idle_ok_def wait_ok_def assms(2,4,5,7) split: if_splits)

lemma net_invD:
  assumes "net_inv a0 s"
  shows "slots_ok (n_slots s)" "fdtable_wf (g_fdtable (n_eng s))" "distinct (n_queue s)" "call_ok s t"
    and "n_replies s r \<noteq> [] \<Longrightarrow> \<exists>t. n_pc s t = C_Wait r"
    and "spec_run a0 (fst (dispatched (n_hist s))) = (abs_engine (n_eng s), snd (dispatched (n_hist s)))"
  using assms by (simp_all add: net_inv_def)

lemma call_ok_wait: "call_ok s t \<Longrightarrow> n_pc s t = C_Wait r \<Longrightarrow> wait_ok s t r"
  by (simp add: call_ok_def)

lemma call_ok_queued:
  assumes "call_ok s t" "t \<in> set (n_queue s) \<or> n_epc s = E_Reply t"
  obtains r where "n_pc s t = C_Wait r" "wait_ok s t r"
  using assms by (cases "n_pc s t") (auto simp: call_ok_def idle_ok_def)

text \<open>Steps before the message is put change nothing but the caller and the client.\<close>

lemma inv_prepare:
  assumes inv: "net_inv a0 s" and pc: "\<And>r. n_pc s t \<noteq> C_Wait r" "\<And>r. pc \<noteq> C_Wait r"
    and t: "pc = C_Idle \<or> t \<noteq> NULL" "\<And>e r. pc = C_Put e r \<Longrightarrow> has_slot (g_reply_slots c) t r"
    and c: "slots_ok (g_reply_slots c)" "\<And>u r. has_slot (n_slots s) u r \<Longrightarrow> has_slot (g_reply_slots c) u r"
    and m: "\<And>u. u \<noteq> t \<Longrightarrow> m u = n_msg s u"
    and s': "s' = s\<lparr>n_cl := c, n_msg := m, n_pc := (n_pc s)(t := pc)\<rparr>"
  shows "net_inv a0 s'"
proof -
  have "call_ok s' u" for u
  proof (cases "u = t")
    case True
    have "idle_ok s t" using net_invD(4) [OF inv, of t] pc(1) by (cases "n_pc s t") (auto simp: call_ok_def)
    then have "idle_ok s' t" by (simp add: s' idle_ok_def phase_def)
    with True t pc(2) show ?thesis
      by (cases pc) (auto simp: call_ok_def s' n_slots_def)
  next
    case False
    then show ?thesis
      by (intro call_ok_frame [OF net_invD(4) [OF inv]]) (use c(2) m in \<open>simp_all add: s' n_slots_def phase_def\<close>)
  qed
  moreover have "\<exists>u. n_pc s' u = C_Wait r" if "n_replies s' r \<noteq> []" for r
    using net_invD(5) [OF inv, of r] that pc(1) by (auto simp: s') metis
  ultimately show ?thesis
    using net_invD [OF inv] c(1) by (simp add: net_inv_def s' n_slots_def)
qed

lemma inv_call: "net_inv a0 s \<Longrightarrow> t \<noteq> NULL \<Longrightarrow> n_pc s t = C_Idle \<Longrightarrow>
    net_inv a0 (move t C_Engine (s\<lparr>n_msg := (n_msg s)(t := req)\<rparr>))"
  by (rule inv_prepare [where t = t and pc = C_Engine and c = "n_cl s" and m = "(n_msg s)(t := req)"])
    (auto simp: move_def n_slots_def dest: net_invD(1))

lemma inv_find:
  assumes "net_inv a0 s" "n_pc s t = C_Engine"
  shows "net_inv a0 (do_find t found s)"
proof -
  obtain e c where e: "ensure_engine_port found (n_cl s) = (e, c)" by fastforce
  then have c: "g_reply_slots c = g_reply_slots (n_cl s)"
    by (auto simp: ensure_engine_port_def Let_def split: if_splits)
  have "t \<noteq> NULL" using net_invD(4) [OF assms(1), of t] assms(2) by (auto simp: call_ok_def)
  then show ?thesis
    by (intro inv_prepare [OF assms(1), where t = t and pc = "if e = NULL then C_Idle else C_Reply e"
          and c = c and m = "n_msg s"])
      (use e c assms(2) net_invD(1) [OF assms(1)] in \<open>auto simp: do_find_def move_def n_slots_def split: if_splits\<close>)
qed

lemma inv_reply:
  assumes inv: "net_inv a0 s" and pc: "n_pc s t = C_Reply e"
    and fresh: "p \<notin> rs_port ` set (n_slots s) \<or> p = NULL"
  shows "net_inv a0 (do_reply t e p s)"
proof -
  obtain r slots where r: "reply_slot_for p t (n_slots s) = (r, slots)" by fastforce
  obtain c where c: "ensure_reply_port \<lparr>env_me = t, env_find_port = NULL, env_alloc_port = p\<rparr> (n_cl s) = (r, c)"
    "g_reply_slots c = slots"
    using r by (cases "g_reply_sem_init (n_cl s)") (auto simp: ensure_reply_port_def n_slots_def Let_def)
  have t: "t \<noteq> NULL" using net_invD(4) [OF inv, of t] pc by (auto simp: call_ok_def)
  note ok = reply_slot_ok [OF net_invD(1) [OF inv] t r fresh]
  show ?thesis
    by (rule inv_prepare [OF inv, where t = t and pc = "if r = NULL then C_Idle else C_Put e r" and c = c and m = "n_msg s"])
      (use c ok t pc has_slot_keeps [OF net_invD(1) [OF inv] t r] in
        \<open>auto simp: do_reply_def move_def split: if_splits\<close>)
qed

lemma other_port:
  assumes "net_inv a0 s" "has_slot (n_slots s) t r" "has_slot (n_slots s) u r'" "u \<noteq> t"
  shows "r' \<noteq> r"
  using slot_port_unique [OF net_invD(1) [OF assms(1)]] assms(2-4) by blast

lemma inv_put:
  assumes inv: "net_inv a0 s" and pc: "n_pc s t = C_Put e r"
  shows "net_inv a0 (do_put t e r s)"
proof (cases "g_engine_ready (n_eng s) \<and> e = g_request_port (n_eng s)")
  case False
  then show ?thesis
    using net_invD(4) [OF inv, of t] pc net_invD(1) [OF inv]
    by (intro inv_prepare [OF inv, where t = t and pc = C_Stuck and c = "n_cl s"
          and m = "(n_msg s)(t := (n_msg s t)\<lparr>mn_ReplyPort := r\<rparr>)"])
      (auto simp: do_put_def move_def n_slots_def call_ok_def Let_def)
next
  case True
  define m where "m = (n_msg s t)\<lparr>mn_ReplyPort := r\<rparr>"
  define s' where "s' = do_put t e r s"
  have s': "s' = s\<lparr>n_msg := (n_msg s)(t := m), n_queue := n_queue s @ [t], n_pc := (n_pc s)(t := C_Wait r),
      n_hist := n_hist s @ [Inv t m]\<rparr>"
    using True by (simp add: s'_def do_put_def move_def m_def Let_def)
  have t: "idle_ok s t" "has_slot (n_slots s) t r" "t \<noteq> NULL" using net_invD(4) [OF inv, of t] pc by (auto simp: call_ok_def)
  have free: "n_replies s r = []"
  proof (rule ccontr)
    assume "n_replies s r \<noteq> []"
    then obtain u where u: "n_pc s u = C_Wait r" using net_invD(5) [OF inv] by blast
    then have "has_slot (n_slots s) u r" using call_ok_wait [OF net_invD(4) [OF inv] u] by (simp add: wait_ok_def)
    with t(2) u pc slot_port_unique [OF net_invD(1) [OF inv]] show False by fastforce
  qed
  have phase: "phase s' u = (if u = t then Some (Called m) else phase s u)" for u
    using t(1) phase_snoc [of s "Inv t m" u] by (auto simp: s' phase_def idle_ok_def)
  have "call_ok s' u" for u
  proof (cases "u = t")
    case True
    have "wait_ok s' t r"
      unfolding wait_ok_def phase using t free by (simp add: s' n_slots_def idle_ok_def m_def)
    with True t(3) show ?thesis by (simp add: call_ok_def s')
  next
    case False
    then show ?thesis
      by (intro call_ok_frame [OF net_invD(4) [OF inv]]) (simp_all add: phase, simp_all add: s' n_slots_def)
  qed
  moreover have "\<exists>u. n_pc s' u = C_Wait r'" if "n_replies s' r' \<noteq> []" for r'
    using net_invD(5) [OF inv, of r'] that pc by (auto simp: s') (metis call_pc.distinct(25))
  ultimately have "net_inv a0 s'"
    using net_invD [OF inv] t(1) by (simp add: net_inv_def s' n_slots_def idle_ok_def dispatched_append)
  then show ?thesis by (simp add: s'_def)
qed

lemma inv_get:
  assumes inv: "net_inv a0 s" and epc: "n_epc s = E_Drain"
  shows "net_inv a0 (do_get s)"
proof (cases "n_queue s")
  case Nil
  have "call_ok (s\<lparr>n_epc := E_Wait\<rparr>) u" for u
    by (rule call_ok_frame [OF net_invD(4) [OF inv]]) (simp_all add: epc n_slots_def phase_def)
  with net_invD [OF inv] Nil show ?thesis by (simp add: net_inv_def do_get_def n_slots_def)
next
  case (Cons t q)
  obtain e m where d: "dispatch_request (n_eng s) (n_msg s t) = (e, m)" by fastforce
  define s' where "s' = do_get s"
  have s': "s' = s\<lparr>n_queue := q, n_eng := e, n_msg := (n_msg s)(t := m), n_epc := E_Reply t,
      n_hist := n_hist s @ [Lin t (n_msg s t) m]\<rparr>"
    using Cons d by (simp add: s'_def do_get_def)
  obtain r where pc: "n_pc s t = C_Wait r" and ok: "wait_ok s t r"
    using call_ok_queued [OF net_invD(4) [OF inv]] Cons by auto
  have t: "phase s t = Some (Called (n_msg s t))" "n_replies s r = []" "mn_ReplyPort (n_msg s t) = r"
    "has_slot (n_slots s) t r" using ok Cons by (simp_all add: wait_ok_def)
  have q: "distinct (t # q)" using net_invD(3) [OF inv] Cons by simp
  have port: "mn_ReplyPort m = r"
    using dispatch_frame [OF net_invD(2) [OF inv], of "n_msg s t"] d t(3) by (simp add: req_frame_def)
  have phase: "phase s' u = (if u = t then Some (Served m) else phase s u)" for u
    using t(1) phase_snoc [of s "Lin t (n_msg s t) m" u] by (auto simp: s' phase_def)
  have "call_ok s' u" for u
  proof (cases "u = t")
    case True
    have "wait_ok s' t r" unfolding wait_ok_def phase using t q port by (simp add: s' n_slots_def)
    with True t(4) pc show ?thesis by (simp add: call_ok_def s' has_slot_def)
  next
    case False
    then show ?thesis
      by (intro call_ok_frame [OF net_invD(4) [OF inv]])
        (simp_all add: phase, simp_all add: s' n_slots_def Cons epc)
  qed
  moreover have "spec_run a0 (fst (dispatched (n_hist s'))) = (abs_engine e, snd (dispatched (n_hist s')))"
    using net_invD(6) [OF inv] dispatch_refines [OF net_invD(2) [OF inv], of "n_msg s t"] d
    by (simp add: s' dispatched_append spec_run_snoc)
  moreover have "fdtable_wf (g_fdtable e)"
    using dispatch_keeps_wf [OF net_invD(2) [OF inv], of "n_msg s t"] d by simp
  ultimately have "net_inv a0 s'"
    using net_invD [OF inv] q by (simp add: net_inv_def) (simp add: s' n_slots_def)
  then show ?thesis by (simp add: s'_def)
qed

lemma inv_answer:
  assumes inv: "net_inv a0 s" and epc: "n_epc s = E_Reply t"
  shows "net_inv a0 (do_answer t s)"
proof -
  obtain r where pc: "n_pc s t = C_Wait r" and ok: "wait_ok s t r"
    using call_ok_queued [OF net_invD(4) [OF inv]] epc by auto
  have t: "t \<notin> set (n_queue s)" "n_replies s r = []" "mn_ReplyPort (n_msg s t) = r" "has_slot (n_slots s) t r"
    "phase s t = Some (Served (n_msg s t))" using ok epc by (auto simp: wait_ok_def split: if_splits)
  define s' where "s' = do_answer t s"
  have s': "s' = s\<lparr>n_replies := (n_replies s)(r := [t]), n_epc := E_Drain\<rparr>"
    using t by (simp add: s'_def do_answer_def)
  have "call_ok s' u" for u
  proof (cases "u = t")
    case True
    with t pc show ?thesis by (simp add: call_ok_def wait_ok_def s' n_slots_def phase_def has_slot_def)
  next
    case False
    then show ?thesis
      by (intro call_ok_frame [OF net_invD(4) [OF inv]])
        (use other_port [OF inv t(4)] in \<open>simp_all add: s' n_slots_def phase_def epc\<close>)
  qed
  with net_invD [OF inv] pc have "net_inv a0 s'" by (auto simp: net_inv_def s' n_slots_def)
  then show ?thesis by (simp add: s'_def)
qed

lemma inv_return:
  assumes inv: "net_inv a0 s" and pc: "n_pc s t = C_Wait r" and replied: "n_replies s r \<noteq> []"
  shows "net_inv a0 (do_return t r s)"
proof -
  note ok = call_ok_wait [OF net_invD(4) [OF inv] pc]
  have t: "t \<notin> set (n_queue s)" "n_epc s \<noteq> E_Reply t" "n_replies s r = [t]" "has_slot (n_slots s) t r"
    "phase s t = Some (Served (n_msg s t))" using ok replied by (auto simp: wait_ok_def split: if_splits)
  define s' where "s' = do_return t r s"
  have s': "s' = s\<lparr>n_replies := (n_replies s)(r := []), n_pc := (n_pc s)(t := C_Idle),
      n_hist := n_hist s @ [Res t (n_msg s t)]\<rparr>"
    using t by (simp add: s'_def do_return_def move_def)
  have phase: "phase s' u = (if u = t then Some Quiet else phase s u)" for u
    using t(5) phase_snoc [of s "Res t (n_msg s t)" u] by (auto simp: s' phase_def)
  have "call_ok s' u" for u
  proof (cases "u = t")
    case True
    have "idle_ok s' t" unfolding idle_ok_def phase using t by (simp add: s')
    with True show ?thesis by (simp add: call_ok_def s')
  next
    case False
    then show ?thesis
      by (intro call_ok_frame [OF net_invD(4) [OF inv]])
        (use other_port [OF inv t(4)] in \<open>simp_all add: phase\<close>, use other_port [OF inv t(4)] in \<open>simp_all add: s' n_slots_def\<close>)
  qed
  moreover have "\<exists>u. n_pc s' u = C_Wait r'" if "n_replies s' r' \<noteq> []" for r'
    using net_invD(5) [OF inv, of r'] that pc by (auto simp: s' split: if_splits) force
  ultimately have "net_inv a0 s'"
    using net_invD [OF inv] by (simp add: net_inv_def s' n_slots_def dispatched_append)
  then show ?thesis by (simp add: s'_def)
qed

lemma inv_engine:
  assumes inv: "net_inv a0 s" and e: "fdtable_wf (g_fdtable e)" "abs_engine e = abs_engine (n_eng s)"
    and epc: "\<And>t. n_epc s \<noteq> E_Reply t" "\<And>t. pc \<noteq> E_Reply t"
  shows "net_inv a0 (s\<lparr>n_epc := pc, n_eng := e\<rparr>)"
proof -
  have "call_ok (s\<lparr>n_epc := pc, n_eng := e\<rparr>) u" for u
    by (rule call_ok_frame [OF net_invD(4) [OF inv]]) (simp_all add: epc n_slots_def phase_def)
  with net_invD [OF inv] e show ?thesis by (simp add: net_inv_def n_slots_def)
qed

lemma net_inv_step:
  assumes inv: "net_inv a0 s" and step: "net_do a s = Some s'"
  shows "net_inv a0 s'"
proof (cases a)
  case Wake
  with step inv_engine [OF inv, of "n_eng s" E_Drain] net_invD(2) [OF inv] show ?thesis
    by (auto split: if_splits)
next
  case Leave
  have "abs_engine (fst (engine_teardown (n_eng s))) = abs_engine (n_eng s)"
    by (simp add: engine_teardown_def abs_engine_def)
  with Leave step inv_engine [OF inv, of "fst (engine_teardown (n_eng s))" E_Gone] net_invD(2) [OF inv] show ?thesis
    by (auto simp: engine_teardown_def split: if_splits)
qed (use step inv_call [OF inv] inv_find [OF inv] inv_reply [OF inv] inv_put [OF inv] inv_return [OF inv]
      inv_get [OF inv] inv_answer [OF inv] in \<open>auto split: if_splits call_pc.splits engine_pc.splits\<close>)

lemma net_inv_reach:
  assumes "net_reach s0 s"
  shows "net_inv (abs_engine (n_eng s0)) s"
  using assms
proof induction
  case net_start
  have "slots_ok (g_reply_slots client_zero)"
    by (simp add: slots_ok_def owners_wf_def client_zero_def reply_slot_zero_def)
  with net_start show ?case
    by (simp add: net_boot_def net_inv_def n_slots_def call_ok_def idle_ok_def phase_def)
qed (rule net_inv_step)

section \<open>Calls take effect one at a time\<close>

text \<open>
  C8: calls are linearizable: however the calls of any number of tasks interleave with each other
  and with the engine, the dispatches, in the order in which they happen, are a run of the
  abstract socket layer, and in every task's history each message is dispatched exactly once,
  as it was put, after it was put and before the call returns, and the call returns the reply of
  that dispatch: no reply is lost, doubled or handed to another task.
\<close>

theorem calls_linearizable:
  assumes "net_reach s0 s"
  shows "(\<forall>t. call_phase_after Quiet (filter (\<lambda>e. who e = t) (n_hist s)) \<noteq> None) \<and>
    spec_run (abs_engine (n_eng s0)) (fst (dispatched (n_hist s))) =
      (abs_engine (n_eng s), snd (dispatched (n_hist s)))"
proof -
  note inv = net_inv_reach [OF assms]
  have "phase s t \<noteq> None" for t
    using net_invD(4) [OF inv, of t]
    by (cases "n_pc s t") (auto simp: call_ok_def idle_ok_def wait_ok_def split: if_splits)
  with net_invD(6) [OF inv] show ?thesis by (simp add: phase_def)
qed

fun net_run :: "net_act list \<Rightarrow> net \<Rightarrow> net option" where
  "net_run [] s = Some s"
| "net_run (a # as) s = (case net_do a s of None \<Rightarrow> None | Some s' \<Rightarrow> net_run as s')"

lemma net_run_append: "net_run (as @ bs) s = Option.bind (net_run as s) (net_run bs)"
  by (induction as s rule: net_run.induct) (simp_all split: option.split)

lemma net_reach_run: "net_reach s0 s \<Longrightarrow> net_run as s = Some s' \<Longrightarrow> net_reach s0 s'"
  by (induction as s rule: net_run.induct) (auto split: option.splits intro: net_next)

definition engine_left :: "net \<Rightarrow> nat" where
  "engine_left s = 2 * length (n_queue s) + (case n_epc s of E_Drain \<Rightarrow> 0 | _ \<Rightarrow> 1)"

text \<open>The engine's next step, while it has not gone and a message is on its way.\<close>

definition engine_next :: "net \<Rightarrow> net_act" where
  "engine_next s = (case n_epc s of E_Drain \<Rightarrow> Get | E_Reply t \<Rightarrow> Answer | _ \<Rightarrow> Wake)"

lemma engine_next_step:
  assumes "n_epc s \<noteq> E_Gone" "n_epc s = E_Wait \<longrightarrow> \<not> g_engine_shutdown (n_eng s)"
    and "n_queue s \<noteq> [] \<or> n_epc s = E_Reply t"
  obtains s' where "net_do (engine_next s) s = Some s'" "n_pc s' = n_pc s"
    "n_epc s' = E_Drain \<or> (\<exists>u. n_epc s' = E_Reply u)" "engine_left s = Suc (engine_left s')"
proof (cases "n_epc s")
  case E_Drain
  then obtain u q where q: "n_queue s = u # q" using assms(3) by (cases "n_queue s") auto
  with E_Drain show ?thesis
    by (intro that [of "do_get s"]) (simp_all add: engine_next_def do_get_def engine_left_def split_beta)
qed (use assms that in \<open>auto simp: engine_next_def do_answer_def engine_left_def Let_def\<close>)

lemma waiting_engine_run:
  assumes "net_inv a0 s" "n_pc s t = C_Wait r"
    and "n_epc s \<noteq> E_Gone" "n_epc s = E_Wait \<longrightarrow> \<not> g_engine_shutdown (n_eng s)"
  shows "\<exists>as s'. set as \<subseteq> {Wake, Get, Answer} \<and> length as \<le> engine_left s \<and> net_run as s = Some s' \<and>
    net_do (Return t) s' \<noteq> None"
  using assms
proof (induction "engine_left s" arbitrary: s rule: less_induct)
  case less
  have ok: "wait_ok s t r" using call_ok_wait [OF net_invD(4) [OF less.prems(1)] less.prems(2)] .
  show ?case
  proof (cases "n_replies s r = []")
    case False
    with less.prems(2) show ?thesis by (intro exI [of _ "[]"]) simp
  next
    case True
    with ok have q: "n_queue s \<noteq> [] \<or> n_epc s = E_Reply t" by (auto simp: wait_ok_def split: if_splits)
    obtain s1 where s1: "net_do (engine_next s) s = Some s1" "n_pc s1 = n_pc s"
      "n_epc s1 = E_Drain \<or> (\<exists>u. n_epc s1 = E_Reply u)" "engine_left s = Suc (engine_left s1)"
      by (rule engine_next_step [OF less.prems(3,4) q])
    have "net_inv a0 s1" using net_inv_step [OF less.prems(1) s1(1)] .
    with less.hyps [of s1] s1 less.prems(2) obtain as s' where as: "set as \<subseteq> {Wake, Get, Answer}"
      "length as \<le> engine_left s1" "net_run as s1 = Some s'" "net_do (Return t) s' \<noteq> None" by auto
    have "engine_next s \<in> {Wake, Get, Answer}" by (simp add: engine_next_def split: engine_pc.split)
    with as s1 show ?thesis by (intro exI [of _ "engine_next s # as"] exI [of _ s']) simp
  qed
qed

text \<open>
  C13: no call waits for ever while the engine is in its loop: a task that waits for its reply can
  return after at most twice as many steps of the engine, and one, as there are messages in its
  queue, whatever the other tasks are doing; a shutdown among these messages does not matter,
  because the batch it is in is served to its end.
\<close>

theorem waiting_call_returns:
  assumes "net_reach s0 s" "n_pc s t = C_Wait r"
    and "n_epc s \<noteq> E_Gone" "n_epc s = E_Wait \<longrightarrow> \<not> g_engine_shutdown (n_eng s)"
  shows "\<exists>as s'. set as \<subseteq> {Wake, Get, Answer} \<and> length as \<le> 2 * length (n_queue s) + 1 \<and>
    net_run as s = Some s' \<and> net_do (Return t) s' \<noteq> None"
proof -
  have "engine_left s \<le> 2 * length (n_queue s) + 1" by (simp add: engine_left_def split: engine_pc.split)
  with waiting_engine_run [OF net_inv_reach [OF assms(1)] assms(2-4)] show ?thesis by (meson order_trans)
qed

section \<open>Two tasks\<close>

definition rq_ping :: "uint32 \<Rightarrow> NetstackReq" where
  "rq_ping n = req_zero\<lparr>op := NETSTACK_OP_PING, u_ping := \<lparr>ping_seq = 1, ping_payload = n\<rparr>\<rparr>"

definition two_tasks :: net where
  "two_tasks = \<lparr>n_cl = client_zero, n_eng = started_engine, n_epc = E_Wait, n_queue = [],
     n_replies = \<lambda>_. [], n_msg = \<lambda>_. req_zero, n_pc = \<lambda>_. C_Idle, n_hist = []\<rparr>"

text \<open>Task 0x180 overtakes task 0x100 between its lookups and its \<open>PutMsg\<close>.\<close>

definition overtaking :: "net_act list" where
  "overtaking = [Call 0x100 (rq_ping 6), Find 0x100 0x300, Reply 0x100 0x400,
     Call 0x180 (rq_ping 8), Find 0x180 0x300, Reply 0x180 0x500, Put 0x180, Put 0x100]"

lemma two_tasks_boot: "net_boot two_tasks"
  using started_fdtable by (simp add: net_boot_def two_tasks_def)

lemma client_zero_fields:
  "g_engine_port client_zero = NULL" "\<not> g_engine_port_sem_init client_zero" "\<not> g_reply_sem_init client_zero"
  by (simp_all add: client_zero_def)

lemma slot_ports_zero: "x \<in> set (g_reply_slots client_zero) \<Longrightarrow> rs_port x = NULL"
  by (simp add: client_zero_def reply_slot_zero_def)

lemma fresh_port:
  "p \<noteq> NULL \<Longrightarrow> p \<notin> rs_port ` set (g_reply_slots client_zero)"
  "p \<noteq> NULL \<Longrightarrow> p \<noteq> q \<Longrightarrow> p \<notin> rs_port ` set ((g_reply_slots client_zero)[0 := \<lparr>rs_owner = t, rs_port = q\<rparr>])"
  using set_update_subset_insert [of "g_reply_slots client_zero" 0 "\<lparr>rs_owner = t, rs_port = q\<rparr>"]
  by (auto simp: slot_ports_zero dest!: subsetD)

lemma reply_slot_second:
  assumes "t \<noteq> NULL" "u \<noteq> NULL" "u \<noteq> t" "p \<noteq> NULL"
  shows "reply_slot_for p u ((g_reply_slots client_zero)[0 := \<lparr>rs_owner = t, rs_port = q\<rparr>]) =
    (p, (g_reply_slots client_zero)[0 := \<lparr>rs_owner = t, rs_port = q\<rparr>, 1 := \<lparr>rs_owner = u, rs_port = p\<rparr>])"
proof -
  let ?s = "(g_reply_slots client_zero)[0 := \<lparr>rs_owner = t, rs_port = q\<rparr>]"
  have owner: "rs_owner (aget ?s i) = (if i = 0 then t else NULL)" if "0 \<le> i" "i < 16" for i
    using that by (auto simp: client_zero_def reply_slot_zero_def aget_def nth_list_update nth_replicate)
  have "c_search (\<lambda>i. rs_owner (aget ?s i) = u) 0 16 = -1"
    by (cases rule: c_search_cases [of "\<lambda>i. rs_owner (aget ?s i) = u" 0 16]) (use owner assms in \<open>auto split: if_splits\<close>)
  moreover have "c_search (\<lambda>i. rs_owner (aget ?s i) = NULL) 0 16 = 1"
    by (rule c_search_least) (use owner assms in auto)
  ultimately show ?thesis using assms by (simp add: reply_slot_for_def aset_def)
qed

lemma overtaking_run:
  obtains s where "net_run overtaking two_tasks = Some s" "n_queue s = [0x180, 0x100]"
    "n_msg s 0x180 = (rq_ping 8)\<lparr>mn_ReplyPort := 0x500\<rparr>" "n_pc s 0x100 = C_Wait 0x400"
    "n_epc s = E_Wait" "n_eng s = started_engine"
    "n_hist s = [Inv 0x180 ((rq_ping 8)\<lparr>mn_ReplyPort := 0x500\<rparr>), Inv 0x100 ((rq_ping 6)\<lparr>mn_ReplyPort := 0x400\<rparr>)]"
  by (simp add: overtaking_def two_tasks_def move_def do_find_def do_reply_def do_put_def
      ensure_engine_port_def ensure_reply_port_def client_zero_fields reply_slot_first
      reply_slot_second fresh_port n_slots_def started_engine_eq Let_def)

theorem calls_linearizable_witness:
  "\<exists>s. net_run (overtaking @ [Wake, Get]) two_tasks = Some s \<and> n_epc s = E_Reply 0x180 \<and>
     spec_run (Map.empty, False) [(rq_ping 8)\<lparr>mn_ReplyPort := 0x500\<rparr>] = (abs_engine (n_eng s), snd (dispatched (n_hist s)))"
proof -
  obtain s where s: "net_run overtaking two_tasks = Some s" "n_queue s = [0x180, 0x100]"
    "n_msg s 0x180 = (rq_ping 8)\<lparr>mn_ReplyPort := 0x500\<rparr>" "n_epc s = E_Wait" "n_eng s = started_engine"
    "n_hist s = [Inv 0x180 ((rq_ping 8)\<lparr>mn_ReplyPort := 0x500\<rparr>), Inv 0x100 ((rq_ping 6)\<lparr>mn_ReplyPort := 0x400\<rparr>)]"
    by (rule overtaking_run)
  obtain s' where s': "net_run [Wake, Get] s = Some s'" "n_epc s' = E_Reply 0x180"
    "fst (dispatched (n_hist s')) = [(rq_ping 8)\<lparr>mn_ReplyPort := 0x500\<rparr>]"
    using s by (simp add: do_get_def started_engine_eq split_beta)
  have r: "net_run (overtaking @ [Wake, Get]) two_tasks = Some s'" using s(1) s'(1) by (simp add: net_run_append del: net_run.simps)
  with calls_linearizable [OF net_reach_run [OF net_start [OF two_tasks_boot] r]] s'(2,3) started_fdtable(2)
  show ?thesis by (auto simp: two_tasks_def)
qed

theorem waiting_call_returns_witness:
  "\<exists>s as s'. net_run overtaking two_tasks = Some s \<and> length as \<le> 5 \<and> net_run as s = Some s' \<and>
     net_do (Return 0x100) s' \<noteq> None"
proof -
  obtain s where s: "net_run overtaking two_tasks = Some s" "n_queue s = [0x180, 0x100]"
    "n_pc s 0x100 = C_Wait 0x400" "n_epc s = E_Wait" "n_eng s = started_engine"
    by (rule overtaking_run)
  from waiting_call_returns [OF net_reach_run [OF net_start [OF two_tasks_boot] s(1)] s(3)] s
  show ?thesis by (auto simp: started_engine_eq)
qed

section \<open>A call that nothing interrupts\<close>

text \<open>The steps of a call up to its \<open>PutMsg\<close>, with the answers of exec in \<open>env\<close>.\<close>

definition call_steps :: "ipc_env \<Rightarrow> NetstackReq \<Rightarrow> net_act list" where
  "call_steps env req =
     [Call (env_me env) req, Find (env_me env) (env_find_port env), Reply (env_me env) (env_alloc_port env), Put (env_me env)]"

abbreviation (input) net_world :: "net \<Rightarrow> world" where
  "net_world s \<equiv> \<lparr>cl = n_cl s, eng = n_eng s\<rparr>"

text \<open>A task that may call now, and the port that exec would allocate for it.\<close>

definition may_call :: "ipc_env \<Rightarrow> net \<Rightarrow> bool" where
  "may_call env s \<longleftrightarrow> env_me env \<noteq> NULL \<and> n_pc s (env_me env) = C_Idle \<and>
     (env_alloc_port env \<notin> rs_port ` set (n_slots s) \<or> env_alloc_port env = NULL)"

lemma reply_port_me: "ensure_reply_port \<lparr>env_me = env_me env, env_find_port = f, env_alloc_port = env_alloc_port env\<rparr> =
    ensure_reply_port env"
  by (simp add: ensure_reply_port_def fun_eq_iff)

lemma engine_port_slots: "g_reply_slots (snd (ensure_engine_port f c)) = g_reply_slots c"
  by (simp add: ensure_engine_port_def Let_def)

lemma call_no_engine:
  assumes "may_call env s" "engine_target env (net_world s) = NULL"
  shows "net_run (take 2 (call_steps env req)) s =
    Some (s\<lparr>n_cl := snd (ensure_engine_port (env_find_port env) (n_cl s)), n_msg := (n_msg s)(env_me env := req),
            n_pc := (n_pc s)(env_me env := C_Idle)\<rparr>)"
  using assms ensure_engine_port_fst [of env "net_world s"]
  by (simp add: call_steps_def may_call_def move_def do_find_def split_beta)

lemma call_prepared:
  assumes "may_call env s" "engine_target env (net_world s) \<noteq> NULL"
  shows "net_run (take 3 (call_steps env req)) s =
    Some (s\<lparr>n_cl := client_after env (n_cl s), n_msg := (n_msg s)(env_me env := req),
            n_pc := (n_pc s)(env_me env := (if reply_target env (net_world s) = NULL then C_Idle
              else C_Put (engine_target env (net_world s)) (reply_target env (net_world s))))\<rparr>)"
  using assms ensure_engine_port_fst [of env "net_world s"] ensure_reply_port_fst [of env "net_world s"]
  by (simp add: call_steps_def may_call_def move_def do_find_def do_reply_def reply_port_me n_slots_def engine_port_slots
      client_after_def split_beta)

lemma put_port_free:
  assumes inv: "net_inv a0 s" and pc: "n_pc s t = C_Put e r"
  shows "n_replies s r = []"
proof (rule ccontr)
  assume "n_replies s r \<noteq> []"
  then obtain u where u: "n_pc s u = C_Wait r" using net_invD(5) [OF inv] by blast
  then have "has_slot (n_slots s) u r" using call_ok_wait [OF net_invD(4) [OF inv] u] by (simp add: wait_ok_def)
  moreover have "has_slot (n_slots s) t r" using net_invD(4) [OF inv, of t] pc by (auto simp: call_ok_def)
  ultimately have "u = t" using slot_port_unique [OF net_invD(1) [OF inv]] by blast
  with u pc show False by simp
qed

text \<open>The engine takes the one message there is, and the caller returns.\<close>

lemma put_served:
  assumes inv: "net_inv a0 s" and pc: "n_pc s t = C_Put e r" and e: "in_loop e (n_eng s)"
    and "n_epc s = E_Wait" "n_queue s = []" and m: "m = (n_msg s t)\<lparr>mn_ReplyPort := r\<rparr>"
    and d: "dispatch_request (n_eng s) m = (e', m')"
  shows "net_run [Put t, Wake, Get, Answer, Get, Return t] s =
    Some (s\<lparr>n_eng := e', n_msg := (n_msg s)(t := m'), n_pc := (n_pc s)(t := C_Idle),
            n_hist := n_hist s @ [Inv t m, Lin t m m', Res t m']\<rparr>)"
proof -
  have "mn_ReplyPort m' = r" using dispatch_frame [OF net_invD(2) [OF inv], of m] d m by (simp add: req_frame_def)
  with assms put_port_free [OF inv pc] show ?thesis
    by (simp add: do_put_def do_get_def do_answer_def do_return_def move_def in_loop_def fun_upd_idem Let_def)
qed

text \<open>A call that no step of anybody can bring back.\<close>

definition lost :: "ptr \<Rightarrow> net \<Rightarrow> bool" where
  "lost t s \<longleftrightarrow> n_pc s t = C_Stuck \<or>
     (\<exists>r. n_pc s t = C_Wait r \<and> n_replies s r = [] \<and> (n_epc s = E_Gone \<or> n_epc s = E_Wait \<and> g_engine_shutdown (n_eng s)))"

lemma lost_step: "lost t s \<Longrightarrow> net_do a s = Some s' \<Longrightarrow> lost t s' \<and> n_pc s' t = n_pc s t"
  by (cases a) (auto simp: lost_def move_def do_find_def do_reply_def do_put_def do_return_def do_get_def do_answer_def
      engine_teardown_def Let_def split: if_splits call_pc.splits engine_pc.splits prod.splits list.splits)

lemma lost_run: "lost t s \<Longrightarrow> net_run as s = Some s' \<Longrightarrow> n_pc s' t = n_pc s t"
  by (induction as s rule: net_run.induct) (auto split: option.splits dest: lost_step)

lemma gone_not_ready: "net_reach s0 s \<Longrightarrow> n_epc s = E_Gone \<Longrightarrow> \<not> g_engine_ready (n_eng s)"
proof (induction rule: net_reach.induct)
  case (net_next s a s')
  then show ?case
    by (cases a) (auto simp: move_def do_find_def do_reply_def do_put_def do_return_def do_get_def do_answer_def
      engine_teardown_def Let_def split: if_splits call_pc.splits engine_pc.splits prod.splits list.splits)
qed (simp add: net_boot_def)

lemma put_lost:
  assumes inv: "net_inv a0 s" and pc: "n_pc s t = C_Put e r" and "\<not> in_loop e (n_eng s)"
    and "n_epc s = E_Wait \<or> n_epc s = E_Gone"
  obtains s' where "net_do (Put t) s = Some s'" "lost t s'"
  using assms put_port_free [OF inv pc] by (auto simp: do_put_def move_def lost_def in_loop_def Let_def)

text \<open>
  C30: a remote call that nothing interrupts is the one step that the client library's model takes it for. In any
  reachable state in which the engine waits with an empty queue or is gone, other tasks may be
  anywhere in their calls, let an idle task call. If \<open>netstack_ipc_call\<close> as one function says
  that the call returns, with whatever code, then the steps of the call and of the engine lead
  back to an idle task, with the client, the engine and the message it says, and one dispatch
  in the history if the code is 0; no other task has moved. If it says that the call does not return,
  then its steps lead to a state from which no run of all tasks and the engine brings it back.
\<close>

theorem lone_call_atomic:
  assumes "net_reach s0 s" "n_epc s = E_Wait \<or> n_epc s = E_Gone" "n_queue s = []" "may_call env s" "t = env_me env"
  shows "case netstack_ipc_call env req \<lparr>cl = n_cl s, eng = n_eng s\<rparr> of
    Some (rc, rep, w) \<Rightarrow> (\<exists>k. net_run (take k (call_steps env req @ [Wake, Get, Answer, Get, Return t])) s =
      Some (s\<lparr>n_cl := cl w, n_eng := eng w, n_msg := (n_msg s)(t := rep), n_pc := (n_pc s)(t := C_Idle),
              n_hist := n_hist s @ (if rc = 0 then let q = req\<lparr>mn_ReplyPort := mn_ReplyPort rep\<rparr>
                                                   in [Inv t q, Lin t q rep, Res t rep] else [])\<rparr>))
  | None \<Rightarrow> (\<exists>s'. net_run (call_steps env req) s = Some s' \<and>
      (\<forall>as s''. net_run as s' = Some s'' \<longrightarrow> n_pc s'' t \<noteq> C_Idle))"
proof -
  let ?w = "net_world s" and ?e = "engine_target env (net_world s)" and ?r = "reply_target env (net_world s)"
  have steps: "call_steps env req = take 3 (call_steps env req) @ [Put t]" "length (call_steps env req) = 4"
    by (simp_all add: call_steps_def assms(5))
  define all_steps where "all_steps = call_steps env req @ [Wake, Get, Answer, Get, Return t]"
  have take: "take 2 all_steps = take 2 (call_steps env req)" "take 3 all_steps = take 3 (call_steps env req)"
    "take 9 all_steps = take 3 (call_steps env req) @ [Put t, Wake, Get, Answer, Get, Return t]"
    by (simp_all add: all_steps_def steps(2)) (subst steps(1), simp)
  show ?thesis
  proof (cases "?e = NULL \<or> ?r = NULL")
    case True
    with call_no_engine [OF assms(4), of req] call_prepared [OF assms(4), of req] show ?thesis
      unfolding take(1,2) [symmetric] all_steps_def by (cases "?e = NULL") (auto simp: ipc_call_eq assms(5))
  next
    case False
    define s1 where "s1 = s\<lparr>n_cl := client_after env (n_cl s), n_msg := (n_msg s)(t := req), n_pc := (n_pc s)(t := C_Put ?e ?r)\<rparr>"
    have run: "net_run (take 3 (call_steps env req)) s = Some s1"
      using call_prepared [OF assms(4), of req] False by (simp add: s1_def assms(5))
    have pc: "n_pc s1 t = C_Put ?e ?r" by (simp add: s1_def)
    note reach = net_reach_run [OF assms(1) run] 
    note inv = net_inv_reach [OF this]
    show ?thesis
    proof (cases "in_loop ?e (n_eng s)")
      case True
      with gone_not_ready [OF assms(1)] assms(2) have wait: "n_epc s = E_Wait" by (auto simp: in_loop_def)
      obtain e' m' where d: "dispatch_request (n_eng s) (req\<lparr>mn_ReplyPort := ?r\<rparr>) = (e', m')" by fastforce
      have "mn_ReplyPort m' = ?r" using dispatch_frame [OF net_invD(2) [OF inv], of "req\<lparr>mn_ReplyPort := ?r\<rparr>"] d
        by (simp add: req_frame_def s1_def)
      moreover have "net_run (take 3 (call_steps env req) @ [Put t, Wake, Get, Answer, Get, Return t]) s =
          net_run [Put t, Wake, Get, Answer, Get, Return t] s1"
        by (simp only: net_run_append run bind.bind_lunit)
      moreover have "\<dots> = Some (s1\<lparr>n_eng := e', n_msg := (n_msg s1)(t := m'), n_pc := (n_pc s1)(t := C_Idle),
            n_hist := n_hist s1 @ [Inv t (req\<lparr>mn_ReplyPort := ?r\<rparr>), Lin t (req\<lparr>mn_ReplyPort := ?r\<rparr>) m', Res t m']\<rparr>)"
        by (rule put_served [OF inv pc]) (use True wait assms(3) d in \<open>simp_all add: s1_def\<close>)
      ultimately show ?thesis using False True d
        unfolding take(3) [symmetric] all_steps_def by (auto simp: ipc_call_eq s1_def Let_def intro!: exI [of _ 9] simp del: net_run.simps)
    next
      case lost: False
      obtain s2 where s2: "net_do (Put t) s1 = Some s2" "lost t s2"
        by (rule put_lost [OF inv pc]) (use lost assms(2) in \<open>simp_all add: s1_def\<close>)
      have "net_run (call_steps env req) s = Some s2"
        by (subst steps(1)) (simp add: net_run_append run s2(1) del: net_do.simps)
      moreover have "n_pc s2 t \<noteq> C_Idle" using s2(2) by (auto simp: lost_def)
      ultimately show ?thesis using False lost lost_run [OF s2(2)] by (simp add: ipc_call_eq)
    qed
  qed
qed

text \<open>A ping from a task that is alone, and one after the engine has left.\<close>

theorem lone_call_atomic_witness:
  "(\<exists>k s. net_run (take k (call_steps task_env (rq_ping 6) @ [Wake, Get, Answer, Get, Return 0x100])) two_tasks = Some s \<and>
     n_pc s 0x100 = C_Idle \<and> length (n_hist s) = 3) \<and>
   (\<exists>s s'. net_do Leave two_tasks = Some s \<and> net_run (call_steps task_env (rq_ping 6)) s = Some s' \<and>
     (\<forall>as s''. net_run as s' = Some s'' \<longrightarrow> n_pc s'' 0x100 \<noteq> C_Idle))"
proof
  have target: "engine_target task_env \<lparr>cl = client_zero, eng = e\<rparr> = 0x300" "reply_target task_env \<lparr>cl = client_zero, eng = e\<rparr> = 0x400" for e
    by (simp_all add: engine_target_def reply_target_def task_env_def client_zero_fields reply_slot_first)
  obtain rep w where call: "netstack_ipc_call task_env (rq_ping 6) \<lparr>cl = n_cl two_tasks, eng = n_eng two_tasks\<rparr> = Some (0, rep, w)"
    by (simp add: ipc_call_eq two_tasks_def target in_loop_def started_engine_eq split_beta)
  have may: "may_call task_env two_tasks" "n_epc two_tasks = E_Wait \<or> n_epc two_tasks = E_Gone" "n_queue two_tasks = []"
    "n_hist two_tasks = []" "0x100 = env_me task_env"
    by (simp_all add: may_call_def two_tasks_def task_env_def n_slots_def fresh_port)
  from lone_call_atomic [OF net_start [OF two_tasks_boot] may(2,3,1,5), of "rq_ping 6"] may(4)
  show "\<exists>k s. net_run (take k (call_steps task_env (rq_ping 6) @ [Wake, Get, Answer, Get, Return 0x100])) two_tasks = Some s \<and>
     n_pc s 0x100 = C_Idle \<and> length (n_hist s) = 3"
    unfolding call by (auto simp: Let_def simp del: net_run.simps take_append) (intro exI conjI, assumption, simp_all)
next
  obtain s where s: "net_do Leave two_tasks = Some s" "n_cl s = client_zero" "\<not> g_engine_ready (n_eng s)" "n_epc s = E_Gone"
    "n_queue s = []" "n_pc s = (\<lambda>_. C_Idle)"
    by (simp add: two_tasks_def engine_teardown_def)
  have "may_call task_env s" using s by (simp add: may_call_def task_env_def n_slots_def fresh_port)
  from lone_call_atomic [OF net_next [OF net_start [OF two_tasks_boot] s(1)] _ s(5) this refl, of "rq_ping 6"] s
  show "\<exists>s s'. net_do Leave two_tasks = Some s \<and> net_run (call_steps task_env (rq_ping 6)) s = Some s' \<and>
     (\<forall>as s''. net_run as s' = Some s'' \<longrightarrow> n_pc s'' 0x100 \<noteq> C_Idle)"
    by (auto simp: ipc_call_eq in_loop_def engine_target_def reply_target_def task_env_def client_zero_fields reply_slot_first
      simp del: net_run.simps net_do.simps)
qed

section \<open>Calls that come too late\<close>

text \<open>
  C39: a message that is put after the engine has taken the last one of its last batch and
  before it has freed its port is never answered. In every run of the tasks and the
  engine, when the engine has found its port empty and is about to leave, after a shutdown or
  for a break, another task may still put a message there; however the run goes on once the
  engine has left, that task never returns from its call.
\<close>

theorem late_call_never_returns:
  assumes "net_reach s0 s" "n_epc s = E_Wait" "n_pc s t = C_Put e r" "g_engine_ready (n_eng s)" "e = g_request_port (n_eng s)"
  shows "\<exists>s1. net_run [Put t, Leave] s = Some s1 \<and> n_epc s1 = E_Gone \<and>
    (\<forall>as s2. net_run as s1 = Some s2 \<longrightarrow> n_pc s2 t = C_Wait r)"
proof -
  note inv = net_inv_reach [OF assms(1)]
  obtain s1 where s1: "net_run [Put t, Leave] s = Some s1" "n_epc s1 = E_Gone" "n_pc s1 t = C_Wait r"
    "n_replies s1 r = n_replies s r"
    using assms(2-5) by (simp add: do_put_def move_def Let_def)
  have "lost t s1" using s1 put_port_free [OF inv assms(3)] by (simp add: lost_def)
  with s1 lost_run show ?thesis by fastforce
qed

text \<open>Task 0x100 shuts the engine down while task 0x180 is on its way to put a message.\<close>

definition closing_time :: "net_act list" where
  "closing_time = [Call 0x100 (req_zero\<lparr>op := NETSTACK_OP_SHUTDOWN\<rparr>), Find 0x100 0x300, Reply 0x100 0x400, Put 0x100,
     Call 0x180 (rq_ping 8), Find 0x180 0x300, Reply 0x180 0x500, Wake, Get, Answer, Get]"

lemma closing_time_run:
  "\<exists>s. net_run closing_time two_tasks = Some s \<and> n_epc s = E_Wait \<and> g_engine_shutdown (n_eng s) \<and>
     n_pc s 0x180 = C_Put 0x300 0x500 \<and> g_engine_ready (n_eng s) \<and> g_request_port (n_eng s) = 0x300"
  by (simp add: closing_time_def two_tasks_def move_def do_find_def do_reply_def do_put_def do_get_def do_answer_def
      ensure_engine_port_def ensure_reply_port_def client_zero_fields reply_slot_first reply_slot_second fresh_port
      n_slots_def started_engine_eq dispatch_request_def dispatch_shutdown_def Let_def)

theorem late_call_never_returns_witness:
  "\<exists>s. net_run (closing_time @ [Put 0x180, Leave]) two_tasks = Some s \<and>
     (\<forall>as s2. net_run as s = Some s2 \<longrightarrow> n_pc s2 0x180 = C_Wait 0x500)"
proof -
  obtain s where s: "net_run closing_time two_tasks = Some s" "n_epc s = E_Wait" "g_engine_shutdown (n_eng s)"
    "n_pc s 0x180 = C_Put 0x300 0x500" "g_engine_ready (n_eng s)" "g_request_port (n_eng s) = 0x300"
    using closing_time_run by blast
  obtain s1 where s1: "net_run [Put 0x180, Leave] s = Some s1" "\<forall>as s2. net_run as s1 = Some s2 \<longrightarrow> n_pc s2 0x180 = C_Wait 0x500"
    using late_call_never_returns [OF net_reach_run [OF net_start [OF two_tasks_boot] s(1)] s(2,4,5)] s(6) by auto
  have "net_run (closing_time @ [Put 0x180, Leave]) two_tasks = Some s1"
    using s(1) s1(1) by (simp add: net_run_append del: net_run.simps)
  with s1(2) show ?thesis by blast
qed

end
