(* ===== verification/Typed.thy ===== *)
theory Typed
  imports Engine
begin

text \<open>
  The signed fields of descriptors and requests are 32-bit integers in C and unbounded integers
  here. This is exact as long as no value leaves the 32-bit range: shown for everything the
  engine stores and replies, whatever it is asked.
\<close>

definition fits :: "int32 \<Rightarrow> bool" where
  "fits x \<longleftrightarrow> -(2 ^ 31) \<le> x \<and> x < 2 ^ 31"

text \<open>The fields that the invariant \<open>entry_wf\<close> does not bound, and all of them.\<close>

definition given_fits :: "fd_entry \<Rightarrow> bool" where
  "given_fits e \<longleftrightarrow>
     fits (domain e) \<and> fits (type e) \<and> fits (proto e) \<and> fits (peer_fd e) \<and> list_all fits (backlog e)"

definition entry_fits :: "fd_entry \<Rightarrow> bool" where
  "entry_fits e \<longleftrightarrow>
     given_fits e \<and> fits (backlog_head e) \<and> fits (backlog_tail e) \<and> fits (backlog_count e) \<and>
     fits (rx_head e) \<and> fits (rx_tail e)"

definition req_fits :: "NetstackReq \<Rightarrow> bool" where
  "req_fits r \<longleftrightarrow>
     fits (err r) \<and>
     fits (socket_domain (u_socket r)) \<and> fits (socket_type (u_socket r)) \<and>
     fits (socket_proto (u_socket r)) \<and> fits (socket_sock (u_socket r)) \<and>
     fits (close_sock (u_close r)) \<and> fits (bind_sock (u_bind r)) \<and>
     fits (listen_sock (u_listen r)) \<and> fits (listen_backlog (u_listen r)) \<and>
     fits (connect_sock (u_connect r)) \<and> fits (accept_sock (u_accept r)) \<and>
     fits (accept_new_sock (u_accept r)) \<and>
     fits (send_sock (u_send r)) \<and> fits (send_len_in (u_send r)) \<and> fits (send_len_out (u_send r)) \<and>
     fits (recv_sock (u_recv r)) \<and> fits (recv_len_in (u_recv r)) \<and> fits (recv_len_out (u_recv r))"

lemma fits_fd: "fd_in_range x \<Longrightarrow> fits x"
  by (simp add: fits_def fd_in_range_def)

lemma entry_fitsI: "entry_wf e \<Longrightarrow> given_fits e \<Longrightarrow> entry_fits e"
  by (auto simp: entry_fits_def entry_wf_def backlog_wf_def rx_wf_def fits_def)

lemma list_all_aset: "list_all P t \<Longrightarrow> P e \<Longrightarrow> list_all P (aset t i e)"
  by (auto simp: aset_def list_all_iff dest!: set_update_subset_insert [THEN subsetD])

definition table_fits :: "fdtable \<Rightarrow> bool" where
  "table_fits t \<longleftrightarrow> fdtable_wf t \<and> list_all given_fits t"

lemma table_fitsD:
  assumes "table_fits t"
  shows "fdtable_wf t" and "fd_in_range i \<Longrightarrow> given_fits (aget t i)" and "list_all entry_fits t"
proof -
  show wf: "fdtable_wf t" using assms by (simp add: table_fits_def)
  show "given_fits (aget t i)" if "fd_in_range i"
    using assms wf that by (auto simp: table_fits_def fdtable_wf_def fd_in_range_def aget_def list_all_length)
  show "list_all entry_fits t"
    using assms wf by (auto simp: table_fits_def fdtable_wf_def list_all_iff entry_fitsI)
qed

lemma given_fits_frame [simp]:
  "given_fits (e\<lparr>kind := k\<rparr>) = given_fits e" "given_fits (e\<lparr>local_port := p\<rparr>) = given_fits e"
  "given_fits (e\<lparr>peer_port := p\<rparr>) = given_fits e" "given_fits (e\<lparr>backlog_head := h\<rparr>) = given_fits e"
  "given_fits (e\<lparr>backlog_tail := h\<rparr>) = given_fits e" "given_fits (e\<lparr>backlog_count := n\<rparr>) = given_fits e"
  "given_fits (rx_compact e) = given_fits e" "given_fits (rx_append bs e) = given_fits e"
  "given_fits (snd (rx_consume n e)) = given_fits e" "given_fits (snd (backlog_pop e)) = given_fits e"
  by (simp_all add: given_fits_def rx_compact_def rx_append_def rx_consume_def backlog_pop_def Let_def)

lemma given_fits_fields:
  "given_fits e \<Longrightarrow> fits d \<Longrightarrow> given_fits (e\<lparr>peer_fd := d\<rparr>)"
  "given_fits e \<Longrightarrow> fits d \<Longrightarrow> given_fits (e\<lparr>domain := d\<rparr>)"
  "given_fits e \<Longrightarrow> fits d \<Longrightarrow> given_fits (e\<lparr>type := d\<rparr>)"
  "given_fits e \<Longrightarrow> fits d \<Longrightarrow> given_fits (e\<lparr>proto := d\<rparr>)"
  "given_fits e \<Longrightarrow> fits d \<Longrightarrow> given_fits (backlog_push d e)"
  "given_fits e \<Longrightarrow> fits d \<Longrightarrow> given_fits (backlog_unpop d e)"
  by (simp_all add: given_fits_def backlog_push_def backlog_unpop_def Let_def list_all_aset)

lemma given_fits_zero: "fits d \<Longrightarrow> given_fits (fd_entry_zero\<lparr>peer_fd := d\<rparr>)" "given_fits fd_entry_zero"
  by (simp_all add: given_fits_def fd_entry_zero_def fits_def list_all_iff)

lemma given_fitsD: "given_fits e \<Longrightarrow> fits (domain e)" "given_fits e \<Longrightarrow> fits (type e)" "given_fits e \<Longrightarrow> fits (proto e)"
  by (simp_all add: given_fits_def)

lemma fits_const [simp]:
  "fits 0" "fits 1" "fits (-1)" "fits (numeral k) \<longleftrightarrow> (numeral k :: int) < 2 ^ 31"
  "fits (- numeral k) \<longleftrightarrow> (numeral k :: int) \<le> 2 ^ 31"
  by (simp_all add: fits_def)

lemma fits_small: "-1024 \<le> x \<Longrightarrow> x \<le> 4096 \<Longrightarrow> fits x"
  by (simp add: fits_def)

section \<open>The contract of a handler\<close>

text \<open>A socket handler that, from values that fit, stores and replies only values that fit.\<close>

locale fitting_handler = socket_handler +
  assumes given: "table_fits t \<Longrightarrow> req_fits r \<Longrightarrow> list_all given_fits (fst (h t r))"
    and reply: "table_fits t \<Longrightarrow> req_fits r \<Longrightarrow> req_fits (snd (h t r))"
begin

lemma engine_fits:
  assumes "table_fits (g_fdtable s)" "req_fits r"
  shows "table_fits (g_fdtable (fst (with_fdtable h s r)))" "req_fits (snd (with_fdtable h s r))"
  using given [OF assms] reply [OF assms] keeps_wf [OF table_fitsD(1) [OF assms(1)]]
  by (simp_all add: engine_state engine_reply table_fits_def)

end

lemma table_fits_list: "table_fits t \<Longrightarrow> list_all given_fits t"
  by (simp add: table_fits_def)

lemmas fit_intros = list_all_aset given_fits_fields given_fits_zero
lemmas fit_facts = table_fits_list table_fitsD(2) given_fitsD

interpretation f_bind: fitting_handler fdtable_dispatch_bind spec_bind
  by unfold_locales (auto simp: fdtable_dispatch_bind_def fd_valid_iff Let_def req_fits_def intro!: fit_intros intro: fit_facts)

interpretation f_listen: fitting_handler fdtable_dispatch_listen spec_listen
  by unfold_locales (auto simp: fdtable_dispatch_listen_def fd_valid_iff Let_def req_fits_def intro!: fit_intros intro: fit_facts)

interpretation f_socket: fitting_handler fdtable_dispatch_socket spec_socket
proof (unfold_locales, goal_cases)
  case (1 t r)
  show ?case
    by (cases rule: alloc_fd_cases [of t])
      (use 1 in \<open>auto simp: fdtable_dispatch_socket_def aget_aset table_fitsD(1) req_fits_def intro!: fit_intros intro: fit_facts\<close>)
next
  case (2 t r)
  show ?case
    by (cases rule: alloc_fd_cases [of t])
      (use 2 in \<open>auto simp: fdtable_dispatch_socket_def req_fits_def intro: fits_fd\<close>)
qed

interpretation f_close: fitting_handler fdtable_dispatch_close spec_close
  by unfold_locales (auto simp: fdtable_dispatch_close_def notify_peer_def fd_valid_iff Let_def req_fits_def intro!: fit_intros intro: fit_facts)

interpretation f_send: fitting_handler fdtable_dispatch_send spec_send
proof (unfold_locales, goal_cases)
  case (1 t r)
  then show ?case by (auto simp: fdtable_dispatch_send_def fd_valid_iff Let_def intro!: fit_intros intro: fit_facts)
next
  case (2 t r)
  then show ?case by (auto simp: fdtable_dispatch_send_def Let_def req_fits_def fits_def)
qed

interpretation f_recv: fitting_handler fdtable_dispatch_recv spec_recv
proof (unfold_locales, goal_cases)
  case (1 t r)
  then show ?case by (auto simp: fdtable_dispatch_recv_def fd_valid_iff Let_def split_beta intro!: fit_intros intro: fit_facts)
next
  case (2 t r)
  then show ?case
    by (auto simp: fdtable_dispatch_recv_def Let_def split_beta req_fits_def recv_count_min intro!: fits_small)
qed

interpretation f_connect: fitting_handler fdtable_dispatch_connect spec_connect
proof (unfold_locales, goal_cases)
  case (1 t r)
  let ?fd = "connect_sock (u_connect r)"
  show ?case
  proof (cases rule: find_listener_cases [of t "connect_port (u_connect r)"])
    case none
    with 1 show ?thesis by (auto simp: fdtable_dispatch_connect_def Let_def intro: fit_facts)
  next
    case (listener lfd)
    have "?fd \<noteq> lfd" if "kind (aget t ?fd) = FD_SOCKET_UNBOUND" using that listener(3) by auto
    with 1 listener show ?thesis
      by (auto simp: fdtable_dispatch_connect_def Let_def fd_valid_iff table_fitsD(2) intro!: fit_intros intro: fit_facts fits_fd)
  qed
next
  case (2 t r)
  then show ?case by (auto simp: fdtable_dispatch_connect_def Let_def req_fits_def)
qed

interpretation f_accept: fitting_handler fdtable_dispatch_accept spec_accept
proof (unfold_locales, goal_cases)
  case (1 t r)
  let ?fd = "accept_sock (u_accept r)"
  note wf = table_fitsD(1) [OF 1(1)]
  obtain c lst where pop: "backlog_pop (aget t ?fd) = (c, lst)" by (cases "backlog_pop (aget t ?fd)")
  show ?case
  proof (cases "fd_valid t ?fd \<and> kind (aget t ?fd) = FD_SOCKET_LISTEN \<and> backlog_count (aget t ?fd) \<noteq> 0")
    case False
    with 1 show ?thesis by (auto simp: fdtable_dispatch_accept_def Let_def intro: fit_facts)
  next
    case True
    then have rng: "fd_in_range ?fd" by (simp add: fd_valid_iff)
    have c: "fd_in_range c" using entry_wf_backlog_pop(2) [OF fdtable_wf_aget [OF wf rng] _ pop] True by simp
    have lst: "given_fits lst" using table_fitsD(2) [OF 1(1) rng] pop given_fits_frame(10) [of "aget t ?fd"] by simp
    have t1: "list_all given_fits (aset t ?fd lst)" using lst 1(1) by (auto intro!: list_all_aset intro: fit_facts)
    have get: "given_fits (aget t i)" if "fd_in_range i" for i using table_fitsD(2) [OF 1(1) that] .
    show ?thesis
    proof (cases rule: alloc_fd_cases [of "aset t ?fd lst"])
      case full
      with True pop wf rng lst t1 c show ?thesis
        by (auto simp: fdtable_dispatch_accept_def Let_def aget_aset intro!: fit_intros intro: fits_fd fit_facts 1(1))
    next
      case (slot n)
      with True pop wf rng lst t1 c get fits_fd [OF c] fits_fd [OF slot(2)] given_fitsD [OF lst] table_fits_list [OF 1(1)] show ?thesis
        by (auto simp: fdtable_dispatch_accept_def Let_def aget_aset intro!: fit_intros intro: given_fitsD)
    qed
  qed
next
  case (2 t r)
  let ?t1 = "aset t (accept_sock (u_accept r)) (snd (backlog_pop (aget t (accept_sock (u_accept r)))))"
  show ?case
    by (cases rule: alloc_fd_cases [of ?t1])
      (use 2 in \<open>auto simp: fdtable_dispatch_accept_def Let_def split_beta req_fits_def intro: fits_fd\<close>)
qed

section \<open>The engine\<close>

lemmas handler_fits = f_socket.engine_fits f_close.engine_fits f_bind.engine_fits f_listen.engine_fits
  f_connect.engine_fits f_accept.engine_fits f_send.engine_fits f_recv.engine_fits

lemma dispatch_fits:
  assumes "table_fits (g_fdtable s)" "req_fits r"
  shows "table_fits (g_fdtable (fst (dispatch_request s r)))" "req_fits (snd (dispatch_request s r))"
proof -
  have req: "req_fits (r\<lparr>err := e\<rparr>)" "req_fits (r\<lparr>u_ping := q, err := e\<rparr>)" if "fits e" for e q
    using assms(2) that by (simp_all add: req_fits_def)
  show "table_fits (g_fdtable (fst (dispatch_request s r)))" "req_fits (snd (dispatch_request s r))"
    by (cases r rule: op_codes_cases;
        simp add: dispatch_ops dispatch_other handler_fits assms req dispatch_shutdown_def dispatch_ping_def)+
qed

text \<open>
  C16: no signed value overflows: as long as clients send requests whose fields are 32-bit
  integers, every field of every descriptor and of every reply is one too, after any requests
  from power-on; so computing in unbounded integers is exact.
\<close>

theorem engine_values_fit:
  assumes "list_all req_fits rs"
  shows "list_all entry_fits (g_fdtable (fst (drain_port engine_init rs))) \<and>
    (\<forall>r. ReplyMsg r \<in> set (snd (drain_port engine_init rs)) \<longrightarrow> req_fits r)"
proof -
  have "table_fits (g_fdtable (fst (drain_port s rs))) \<and>
      (\<forall>r. ReplyMsg r \<in> set (snd (drain_port s rs)) \<longrightarrow> req_fits r)" if "table_fits (g_fdtable s)" for s
    using that assms
  proof (induction rs arbitrary: s)
    case (Cons r rs)
    have r: "req_fits r" "list_all req_fits rs" using Cons.prems(2) by simp_all
    note fit = dispatch_fits [OF Cons.prems(1) r(1)]
    from Cons.IH [OF fit(1) r(2)] fit(2) show ?case unfolding drain_Cons by fastforce
  qed simp
  moreover have "table_fits (g_fdtable engine_init)"
    using fdtable_wf_init by (simp add: table_fits_def engine_init_def g_fdtable_init_def given_fits_zero list_all_iff)
  ultimately show ?thesis using table_fitsD(3) by blast
qed

text \<open>A request with the smallest and largest values there are.\<close>

theorem engine_values_fit_witness:
  "list_all entry_fits (g_fdtable (fst (drain_port engine_init
     [req_zero\<lparr>op := NETSTACK_OP_SOCKET, u_socket := \<lparr>socket_domain = 2147483647, socket_type = -2147483648,
        socket_proto = 0, socket_sock = 0\<rparr>\<rparr>])))"
  using engine_values_fit [of "[req_zero\<lparr>op := NETSTACK_OP_SOCKET, u_socket := \<lparr>socket_domain = 2147483647,
      socket_type = -2147483648, socket_proto = 0, socket_sock = 0\<rparr>\<rparr>]"]
  by (simp add: req_fits_def req_zero_def)

end
