(* ===== verification/Vectors.thy ===== *)
theory Vectors
  imports Bsdsocket
begin

text \<open>
  The vector tables of the library (\<open>bsdsocket_library.c\<close>) and the layouts by which programs call
  through them: \<open>struct NetstackIFace\<close> of \<open>include/netstack/netstack.h\<close>, published for
  \<open>netstack.library\<close>, interface \<open>main\<close>, version 1, and \<open>struct BsdsocketIFace\<close> of
  \<open>tests/phase3/test_bsdlib.c\<close>. A call through an interface is an index into a table: it reaches
  the function that stands there, whatever the layout calls it. The layout of the test is that of the table
  \<open>main_vectors\<close>, that of \<open>netstack.h\<close> is not; as the code stands no program gets as far, because the
  interface is not published.
\<close>

section \<open>The tables\<close>

datatype lib_fun =
    F_default_Obtain | F_default_Release | F_mgr_Open | F_mgr_Close | F_mgr_Expunge
  | F_bs_socket | F_bs_bind | F_bs_connect | F_bs_listen | F_bs_accept | F_bs_send | F_bs_recv
  | F_bs_CloseSocket

text \<open>\<open>None\<close> is a \<open>NULL\<close> entry; the table ends before its \<open>-1\<close>.\<close>

definition mgr_vectors :: "lib_fun option list" where
  "mgr_vectors =
     [Some F_default_Obtain, Some F_default_Release, None, None,
      Some F_mgr_Open, Some F_mgr_Close, Some F_mgr_Expunge, None]"

definition main_vectors :: "lib_fun option list" where
  "main_vectors =
     [Some F_default_Obtain, Some F_default_Release, None, None,
      Some F_bs_socket, Some F_bs_bind, Some F_bs_connect, Some F_bs_listen, Some F_bs_accept,
      Some F_bs_send, Some F_bs_recv, Some F_bs_CloseSocket]"

record lib_interface =
  MIT_Name :: string
  MIT_Version :: uint32
  MIT_VectorTable :: "lib_fun option list"

definition mgr_tags :: lib_interface where
  "mgr_tags = \<lparr>MIT_Name = ''__library'', MIT_Version = 1, MIT_VectorTable = mgr_vectors\<rparr>"

definition main_tags :: lib_interface where
  "main_tags = \<lparr>MIT_Name = ''main'', MIT_Version = 1, MIT_VectorTable = main_vectors\<rparr>"

text \<open>What the library publishes: the entry of \<open>main_tags\<close> is commented out.\<close>

definition bsd_interfaces :: "lib_interface list" where
  "bsd_interfaces = [mgr_tags]"

text \<open>
  How exec makes the library: the tags of its creation and the resident module they hang on. The data of the
  library is a \<open>struct BsdsocketBase\<close>, whose size \<open>sz\<close> is an argument.
\<close>

datatype init_fun = F_bsd_Init

record init_tags =
  CLT_DataSize :: uint32
  CLT_Interfaces :: "lib_interface list"
  CLT_InitFunc :: init_fun

definition bsd_init_tags :: "uint32 \<Rightarrow> init_tags" where
  "bsd_init_tags sz = \<lparr>CLT_DataSize = sz, CLT_Interfaces = bsd_interfaces, CLT_InitFunc = F_bsd_Init\<rparr>"

datatype resident_flag = RTF_NATIVE | RTF_AUTOINIT

record resident =
  rt_Flags :: "resident_flag list"
  rt_Version :: uint8
  rt_Type :: node_type
  rt_Pri :: int
  rt_Name :: string
  rt_IdString :: string
  rt_Init :: init_tags

definition bsd_res :: "uint32 \<Rightarrow> resident" where
  "bsd_res sz =
     \<lparr>rt_Flags = [RTF_NATIVE, RTF_AUTOINIT], rt_Version = ucast BSDLIBVER, rt_Type = NT_LIBRARY, rt_Pri = 0,
      rt_Name = BSDLIBNAME, rt_IdString = BSDLIBVERSTR,
      rt_Init = bsd_init_tags sz\<rparr>"

text \<open>
  The file run as a program: \<open>_start\<close> prints and fails. The text has a dash, three bytes in UTF-8.
\<close>

definition lib_start :: "string \<Rightarrow> int32 \<times> string" where
  "lib_start con =
     (20, con @ ''netstack.library is a library '' @ map char_of [0xE2, 0x80, 0x94 :: nat] @
          '' install to LIBS: and OpenLibrary()'' @ [CHR 0x0A])"

section \<open>The layouts\<close>

datatype iface_slot =
    Slot_Obtain | Slot_Release | Slot_reserved0 | Slot_reserved1 | Slot_Socket | Slot_CloseSocket
  | Slot_Bind | Slot_Listen | Slot_Accept | Slot_Connect | Slot_SendBuf | Slot_RecvBuf | Slot_FreeBuf
  | Slot_GetSignal | Slot_ReleaseSignal | Slot_Sysctl | Slot_Send | Slot_Recv

definition NetstackIFace :: "iface_slot list" where
  "NetstackIFace =
     [Slot_Obtain, Slot_Release, Slot_reserved0, Slot_reserved1,
      Slot_Socket, Slot_CloseSocket, Slot_Bind, Slot_Listen, Slot_Accept, Slot_Connect,
      Slot_SendBuf, Slot_RecvBuf, Slot_FreeBuf, Slot_GetSignal, Slot_ReleaseSignal, Slot_Sysctl]"

definition BsdsocketIFace :: "iface_slot list" where
  "BsdsocketIFace =
     [Slot_Obtain, Slot_Release, Slot_reserved0, Slot_reserved1,
      Slot_Socket, Slot_Bind, Slot_Connect, Slot_Listen, Slot_Accept, Slot_Send, Slot_Recv,
      Slot_CloseSocket]"

text \<open>The function of the library that does what a slot is named for, if there is one.\<close>

fun meant :: "iface_slot \<Rightarrow> lib_fun option" where
  "meant Slot_Obtain = Some F_default_Obtain"
| "meant Slot_Release = Some F_default_Release"
| "meant Slot_Socket = Some F_bs_socket"
| "meant Slot_CloseSocket = Some F_bs_CloseSocket"
| "meant Slot_Bind = Some F_bs_bind"
| "meant Slot_Listen = Some F_bs_listen"
| "meant Slot_Accept = Some F_bs_accept"
| "meant Slot_Connect = Some F_bs_connect"
| "meant Slot_Send = Some F_bs_send"
| "meant Slot_Recv = Some F_bs_recv"
| "meant _ = None"

lemma layout_of_test_agrees: "map meant BsdsocketIFace = main_vectors"
  by (simp add: BsdsocketIFace_def main_vectors_def)

text \<open>A program that opens the library finds no interface \<open>main\<close>.\<close>

lemma main_not_published: "''main'' \<notin> MIT_Name ` set (CLT_Interfaces (rt_Init (bsd_res sz)))"
  by (simp add: bsd_res_def bsd_init_tags_def bsd_interfaces_def mgr_tags_def)

end
