(* ===== verification/Diag.thy ===== *)
theory Diag
  imports Hypercalls
begin

text \<open>
  Output (\<open>src/phase1_osal/osal_diag.c\<close>): the trace file, the debug console and the panic, and the
  hypercalls that do nothing else, with the abort of lock debugging (\<open>rump_kern_globals.c\<close>). The file and the console are the characters written to them.
  What \<open>vsnprintf\<close> makes of a format and its arguments is an argument: the whole text, or \<open>None\<close>
  when it fails; what the C standard says it does with the buffer is written out.
\<close>

abbreviation (input) TRACE_BUF :: nat where "TRACE_BUF \<equiv> 256"

text \<open>
  \<open>vsnprintf(buf, size, ...)\<close>: it returns the length of the whole text and stores as much of it as
  fits before a NUL; the rest of the buffer keeps what it held.
\<close>

definition vsnprintf :: "nat \<Rightarrow> string \<Rightarrow> string option \<Rightarrow> int32 \<times> string" where
  "vsnprintf sz buf res =
     (case res of
        None \<Rightarrow> (-1, buf)
      | Some msg_text \<Rightarrow> (int (length msg_text), blit buf 0 (take (sz - 1) msg_text @ [NUL])))"

text \<open>\<open>opened\<close>: whether \<open>IDOS->Open\<close> gives a file. \<open>buf\<close> is the stack memory of the buffer.\<close>

definition osal_trace :: "bool \<Rightarrow> string \<Rightarrow> string option \<Rightarrow> string \<Rightarrow> string" where
  "osal_trace opened buf res log =
     (let (n, buf') = vsnprintf TRACE_BUF buf res in
      if n \<le> 0 then log
      else
        let n' = (if n > int TRACE_BUF then int TRACE_BUF else n)
        in if opened then log @ take (nat n') buf' else log)"

definition osal_log :: "string \<Rightarrow> string \<Rightarrow> string" where
  "osal_log fmt con = con @ ''[netstack] '' @ fmt @ [CHR 0x0A]"

text \<open>
  A panic prints and then waits for no signal: it never returns, and the second component is
  what it would return.
\<close>

definition osal_panic :: "string \<Rightarrow> string \<Rightarrow> string \<times> unit option" where
  "osal_panic msg con = (con @ ''netstack PANIC: '' @ msg @ [CHR 0x0A], None)"

definition rumpuser_dprintf :: "string \<Rightarrow> string \<Rightarrow> string" where
  "rumpuser_dprintf fmt con = con @ ''[rump] (dprintf: fmt suppressed)'' @ [CHR 0x0A]"

definition rumpuser_exit :: "int32 \<Rightarrow> string \<Rightarrow> string \<times> unit option" where
  "rumpuser_exit rv con = osal_panic ''rumpuser_exit(%d)'' con"

definition lockdebug_abort :: "string \<Rightarrow> string \<times> unit option" where
  "lockdebug_abort con = osal_panic ''lockdebug_abort: unreachable (LOCKDEBUG disabled)'' con"

text \<open>The character is printed as the string it starts, so a NUL prints nothing.\<close>

definition rumpuser_putchar :: "int32 \<Rightarrow> string \<Rightarrow> int32 \<times> string" where
  "rumpuser_putchar c con = (0, if c mod 256 = 0 then con else con @ [char_of (nat (c mod 256))])"

definition rumpuser_init :: "bool \<Rightarrow> string \<Rightarrow> string option \<Rightarrow> string \<Rightarrow> int32 \<times> string" where
  "rumpuser_init opened buf res log = (0, osal_trace opened buf res log)"

definition rumpuser_dl_bootstrap :: "bool \<Rightarrow> string \<Rightarrow> string \<Rightarrow> int32 \<times> string" where
  "rumpuser_dl_bootstrap opened buf log =
     (0, osal_trace opened buf (Some (''[rumpuser_dl_bootstrap]'' @ [CHR 0x0A])) log)"

section \<open>Hypercalls without effect\<close>

definition rumpuser_open :: "string \<Rightarrow> int32 \<Rightarrow> int32" where "rumpuser_open n m = -1"
definition rumpuser_close :: "int32 \<Rightarrow> int32" where "rumpuser_close fd = -1"
definition rumpuser_read :: "int32 \<Rightarrow> string \<Rightarrow> int32 \<times> string" where "rumpuser_read fd buf = (-1, buf)"
definition rumpuser_write :: "int32 \<Rightarrow> string \<Rightarrow> int32" where "rumpuser_write fd buf = -1"
definition rumpuser_daemonize_begin :: int32 where "rumpuser_daemonize_begin = 0"
definition rumpuser_daemonize_done :: "int32 \<Rightarrow> int32" where "rumpuser_daemonize_done e = 0"
definition rumpuser_kill :: "int \<Rightarrow> int32 \<Rightarrow> int32" where "rumpuser_kill pid sig = 0"
definition rumpuser_mutex_spin_p :: "ptr \<Rightarrow> int32" where "rumpuser_mutex_spin_p mtx = 0"

section \<open>The trace file\<close>

lemma osal_trace_eq:
  assumes "length buf = TRACE_BUF"
  shows "osal_trace opened buf (Some msg_text) log =
    (if opened then log @ (if length msg_text < TRACE_BUF then msg_text else take 255 msg_text @ [NUL]) else log)"
proof -
  have short: "take (length msg_text) (blit buf 0 (take 255 msg_text @ [NUL])) = msg_text" if "length msg_text < 256"
    using that by (simp add: blit_def)
  have long: "take 256 (blit buf 0 (take 255 msg_text @ [NUL])) = take 255 msg_text @ [NUL]" if "\<not> length msg_text < 256"
    using that by (simp add: blit_def)
  show ?thesis
    using short long by (cases "length msg_text < 256") (auto simp: osal_trace_def vsnprintf_def Let_def)
qed

text \<open>
  Any number of traces, each with its own text and stack: what was written before stays, every
  text of up to 255 characters is there in full and in order, and a longer one is cut to 255
  characters with a NUL behind them.
\<close>

fun trace_all :: "(bool \<times> string \<times> string) list \<Rightarrow> string \<Rightarrow> string" where
  "trace_all [] log = log"
| "trace_all ((opened, buf, msg_text) # ts) log = trace_all ts (osal_trace opened buf (Some msg_text) log)"

definition trace_line :: "string \<Rightarrow> string" where
  "trace_line msg_text = (if length msg_text < TRACE_BUF then msg_text else take 255 msg_text @ [NUL])"

text \<open>
  The trace file is append-only and complete: for any sequence of traces it holds what it
  held, followed by one line per trace for which the file opened, in order; a text of up to 255
  characters in full, a longer one cut to 255 with a NUL. Nothing of the uninitialised rest of
  the buffer is ever written.
\<close>

theorem trace_file_complete:
  assumes "list_all (\<lambda>(opened, buf, msg_text). length buf = TRACE_BUF) ts"
  shows "trace_all ts log = log @ concat (map (\<lambda>(opened, buf, msg_text). if opened then trace_line msg_text else []) ts)"
  using assms
proof (induction ts arbitrary: log)
  case (Cons t ts)
  obtain opened buf msg_text where t: "t = (opened, buf, msg_text)" by (cases t)
  with Cons show ?case by (simp add: osal_trace_eq trace_line_def)
qed simp

theorem trace_file_complete_witness:
  "trace_all [(True, replicate 256 (CHR ''x''), ''abc''), (True, replicate 256 (CHR ''y''), replicate 300 (CHR ''z''))] ''>'' =
     ''>abc'' @ replicate 255 (CHR ''z'') @ [NUL]"
  using trace_file_complete [of "[(True, replicate 256 (CHR ''x''), ''abc''),
      (True, replicate 256 (CHR ''y''), replicate 300 (CHR ''z''))]" "''>''"]
  by (simp add: trace_line_def take_replicate)

text \<open>The exit code never reaches the console: the panic prints its format as it stands.\<close>

lemma exit_code_lost: "rumpuser_exit rv con = rumpuser_exit rv' con"
  by (simp add: rumpuser_exit_def)

end
