(* ===== verification/Skeletons.thy ===== *)
theory Skeletons
  imports Registry NetDev
begin

text \<open>
  The parts of the program that are still skeletons, as they stand: the vectors of the reference
  driver (\<open>src/phase4_netdev/reference_driver.c\<close>) with the interface they fill
  (\<open>include/netstack/netdev.h\<close>), the SANA-II bridge (\<open>src/phase5_testing/sana2_bridge.c\<close>), the mbuf
  pool (\<open>src/phase1_osal/mbuf_pool.c\<close>), the engine's subsystem initialisation
  (\<open>src/phase2_engine/engine_init.c\<close>) and the callback timers (\<open>src/phase1_osal/osal_timer.c\<close>). What a
  stack that uses them can rely on is that they refuse.
\<close>

section \<open>The reference driver\<close>

record NetDevStats =
  stat_rx_packets :: uint64
  stat_rx_bytes :: uint64
  stat_rx_errors :: uint64
  stat_rx_dropped :: uint64
  stat_tx_packets :: uint64
  stat_tx_bytes :: uint64
  stat_tx_errors :: uint64
  stat_tx_dropped :: uint64
  stat_rx_multicast :: uint64
  stat_tx_multicast :: uint64
  stat_rx_broadcast :: uint64
  stat_tx_broadcast :: uint64
  stat_collisions :: uint64

record NetDevRings =
  rings_tx :: "NetDevRing list"
  n_tx :: uint32
  rings_rx :: "NetDevRing list"
  n_rx :: uint32

definition e_Open :: "uint32 \<Rightarrow> uint32 \<Rightarrow> int32" where
  "e_Open unit flags = -1"

text \<open>A vector that returns nothing and changes nothing.\<close>

definition e_Close :: "unit \<Rightarrow> unit" where
  "e_Close self = ()"

definition e_AttachRings :: "NetDevRings \<Rightarrow> int32 \<times> NetDevRings" where
  "e_AttachRings r = (-1, r)"

definition e_DetachRings :: "unit \<Rightarrow> unit" where
  "e_DetachRings self = ()"

definition e_AllocBuf :: "uint32 \<Rightarrow> ptr" where
  "e_AllocBuf sz = NULL"

definition e_FreeBuf :: "ptr \<Rightarrow> unit" where
  "e_FreeBuf b = ()"

definition e_Kick :: "uint32 \<Rightarrow> int32" where
  "e_Kick queue = -1"

text \<open>The number of buffers received and the caller's array of them.\<close>

definition e_Poll :: "uint32 \<Rightarrow> ptr list \<Rightarrow> uint32 \<Rightarrow> uint32 \<times> ptr list" where
  "e_Poll queue out mx = (0, out)"

definition e_RegisterKick :: "ptr \<Rightarrow> ptr \<Rightarrow> int32" where
  "e_RegisterKick cb ctx = -1"

definition e_SetMac :: "uint8 list \<Rightarrow> int32" where
  "e_SetMac m = -1"

definition e_SetLinkState :: "bool \<Rightarrow> int32" where
  "e_SetLinkState up = -1"

definition e_SetMulticast :: "uint8 list \<Rightarrow> bool \<Rightarrow> int32" where
  "e_SetMulticast m add = -1"

definition e_SetPromisc :: "bool \<Rightarrow> int32" where
  "e_SetPromisc on = -1"

definition stats_zero :: NetDevStats where
  "stats_zero =
     \<lparr>stat_rx_packets = 0, stat_rx_bytes = 0, stat_rx_errors = 0, stat_rx_dropped = 0, stat_tx_packets = 0, stat_tx_bytes = 0,
      stat_tx_errors = 0, stat_tx_dropped = 0, stat_rx_multicast = 0, stat_tx_multicast = 0, stat_rx_broadcast = 0,
      stat_tx_broadcast = 0, stat_collisions = 0\<rparr>"

text \<open>Every byte of the caller's structure is cleared; a \<open>NULL\<close> pointer is left alone.\<close>

definition e_GetStats :: "NetDevStats option \<Rightarrow> NetDevStats option" where
  "e_GetStats s = map_option (\<lambda>_. stats_zero) s"

text \<open>The vector table.\<close>

record NetDevIF =
  nd_Open :: "uint32 \<Rightarrow> uint32 \<Rightarrow> int32"
  nd_Close :: "unit \<Rightarrow> unit"
  nd_GetCapabilities :: "NetDevCapabilities option \<Rightarrow> NetDevCapabilities option"
  nd_AttachRings :: "NetDevRings \<Rightarrow> int32 \<times> NetDevRings"
  nd_DetachRings :: "unit \<Rightarrow> unit"
  nd_AllocBuf :: "uint32 \<Rightarrow> ptr"
  nd_FreeBuf :: "ptr \<Rightarrow> unit"
  nd_Kick :: "uint32 \<Rightarrow> int32"
  nd_Poll :: "uint32 \<Rightarrow> ptr list \<Rightarrow> uint32 \<Rightarrow> uint32 \<times> ptr list"
  nd_RegisterKick :: "ptr \<Rightarrow> ptr \<Rightarrow> int32"
  nd_SetMac :: "uint8 list \<Rightarrow> int32"
  nd_SetLinkState :: "bool \<Rightarrow> int32"
  nd_SetMulticast :: "uint8 list \<Rightarrow> bool \<Rightarrow> int32"
  nd_SetPromisc :: "bool \<Rightarrow> int32"
  nd_GetStats :: "NetDevStats option \<Rightarrow> NetDevStats option"

definition g_e1000e_iface :: NetDevIF where
  "g_e1000e_iface =
     \<lparr>nd_Open = e_Open, nd_Close = e_Close, nd_GetCapabilities = e_GetCapabilities, nd_AttachRings = e_AttachRings,
      nd_DetachRings = e_DetachRings, nd_AllocBuf = e_AllocBuf, nd_FreeBuf = e_FreeBuf, nd_Kick = e_Kick, nd_Poll = e_Poll, nd_RegisterKick = e_RegisterKick,
      nd_SetMac = e_SetMac, nd_SetLinkState = e_SetLinkState, nd_SetMulticast = e_SetMulticast,
      nd_SetPromisc = e_SetPromisc, nd_GetStats = e_GetStats\<rparr>"

section \<open>The other skeletons\<close>

definition b_Open :: "uint32 \<Rightarrow> uint32 \<Rightarrow> int32" where
  "b_Open unit flags = -1"

definition sana2_bridge_create :: "string \<Rightarrow> uint32 \<Rightarrow> string \<Rightarrow> ptr" where
  "sana2_bridge_create device_name unit bridge_name = NULL"

definition netstack_mbuf_pool_init :: "uint32 \<Rightarrow> uint32 \<Rightarrow> uint32 \<Rightarrow> uint32 \<Rightarrow> int32" where
  "netstack_mbuf_pool_init cluster_size initial_clusters max_clusters dma_alignment = 0"

definition netstack_mbuf_from_netdevbuf :: "ptr \<Rightarrow> ptr" where
  "netstack_mbuf_from_netdevbuf b = NULL"

definition netstack_mbuf_to_netdevbuf :: "ptr \<Rightarrow> ptr" where
  "netstack_mbuf_to_netdevbuf m = NULL"

definition netstack_init_ifaces :: int32 where
  "netstack_init_ifaces = 0"

definition netstack_init_sysctl :: int32 where
  "netstack_init_sysctl = 0"

definition osal_timer_new :: "ptr \<Rightarrow> ptr \<Rightarrow> ptr" where
  "osal_timer_new fn arg = NULL"

section \<open>A driver that refuses\<close>

text \<open>
  The stack brings an interface up by looking its driver up and opening it. The reference driver
  can be found once it is registered, describes itself, and refuses to be opened; whoever polls
  it all the same gets no buffer and keeps the array as it was.
\<close>

lemma reference_driver_refuses:
  assumes "registry_wf g" "e1000e_reference_register iface g = (0, g')"
  shows "NetDev_Lookup ''e1000e'' g' = iface \<and> nd_Open g_e1000e_iface unit flags = -1 \<and>
    nd_Poll g_e1000e_iface q out mx = (0, out)"
proof -
  have "registry_wf g'" "registered g' = (registered g)(''e1000e'' \<mapsto> iface)"
    using nd.reg_map [OF assms(1) assms(2) [unfolded e1000e_reference_register_def]]
    by (auto simp: spec_register_def split: if_splits)
  with lookup_registered [of g' "''e1000e''"] show ?thesis
    by (simp add: g_e1000e_iface_def e_Open_def e_Poll_def)
qed

end
