(* ===== verification/LinkStubs.thy ===== *)
theory LinkStubs
  imports Hypercalls
begin

text \<open>
  What the rump kernel finds where it calls subsystems that are not ported
  (\<open>src/phase1_osal/rump_link_stubs.c\<close>, \<open>rump_kern_globals.c\<close>): the functions that return a value
  or write through a pointer, and the constants the kernel calculates with. A function takes the
  arguments whose targets it may write and returns the targets as it leaves them; functions that
  neither return nor write anything are left out.
\<close>

section \<open>Clock and page constants\<close>

definition hz :: int32 where "hz = 100"
definition tick :: int32 where "tick = 10000"
definition uvmexp_pagemask :: int32 where "uvmexp_pagemask = 4095"
definition uvmexp_pageshift :: int32 where "uvmexp_pageshift = 12"
definition uvmexp_pagesize :: int32 where "uvmexp_pagesize = 4096"
definition uvm_availmem :: int32 where "uvm_availmem = 65536"

text \<open>
  The constants agree: a tick is \<open>1 / hz\<close> of a second, and size, shift and mask describe the same
  page, so that masking an address is its remainder and shifting it its quotient.
\<close>

lemma clock_constants: "hz * tick = 10 ^ 6"
  by (simp add: hz_def tick_def)

lemma page_constants:
  "uvmexp_pagesize = 2 ^ nat uvmexp_pageshift"
  "and (a :: int) uvmexp_pagemask = a mod uvmexp_pagesize"
  "drop_bit (nat uvmexp_pageshift) a = a div uvmexp_pagesize"
proof -
  show "uvmexp_pagesize = 2 ^ nat uvmexp_pageshift"
    by (simp add: uvmexp_pagesize_def uvmexp_pageshift_def)
  have "uvmexp_pagemask = mask 12" by (simp add: uvmexp_pagemask_def mask_eq_exp_minus_1)
  then show "and a uvmexp_pagemask = a mod uvmexp_pagesize"
    using take_bit_eq_mask [of 12 a] by (simp add: take_bit_eq_mod uvmexp_pagesize_def)
  show "drop_bit (nat uvmexp_pageshift) a = a div uvmexp_pagesize"
    by (simp add: drop_bit_eq_div uvmexp_pagesize_def uvmexp_pageshift_def)
qed

section \<open>Functions that write through a pointer\<close>

definition prop_dictionary_get_bool :: "int32 option \<Rightarrow> int32 \<times> int32 option" where
  "prop_dictionary_get_bool v = (0, map_option (\<lambda>_. 0) v)"

definition syncobj_noowner :: "ptr option \<Rightarrow> ptr option" where
  "syncobj_noowner lp = map_option (\<lambda>_. NULL) lp"

definition VOP_PATHCONF :: "int option \<Rightarrow> int32 \<times> int option" where
  "VOP_PATHCONF retval = (0, map_option (\<lambda>_. 0) retval)"

text \<open>The digests and the entropy pool leave the caller's bytes as they are, and report success.\<close>

definition SHA1Final :: "uint8 list \<Rightarrow> uint8 list" where "SHA1Final digest = digest"
definition SHA256_Final :: "uint8 list \<Rightarrow> uint8 list" where "SHA256_Final digest = digest"
definition entpool_enter :: "uint8 list \<Rightarrow> int32" where "entpool_enter b = 0"
definition entpool_enter_nostir :: "uint8 list \<Rightarrow> int32" where "entpool_enter_nostir b = 0"
definition entpool_extract :: "uint8 list \<Rightarrow> int32 \<times> uint8 list" where "entpool_extract b = (0, b)"
definition entpool_selftest :: int32 where "entpool_selftest = 0"

text \<open>The sort leaves the array as it is.\<close>

definition kheapsort :: "'a list \<Rightarrow> ('a \<Rightarrow> 'a \<Rightarrow> int32) \<Rightarrow> 'a list" where
  "kheapsort base compar = base"

section \<open>Functions that return a constant\<close>

definition sys_nosys :: int32 where "sys_nosys = 38"
definition sleepq_block :: "int \<Rightarrow> int32" where "sleepq_block timo = 0"
definition splraise :: "int32 \<Rightarrow> int32" where "splraise newipl = 0"
definition kern_assert :: int32 where "kern_assert = 0"
definition prop_dictionary_set :: int32 where "prop_dictionary_set = 1"
definition prop_dictionary_get_keysym :: ptr where "prop_dictionary_get_keysym = NULL"
definition prop_dictionary_iterator :: ptr where "prop_dictionary_iterator = NULL"
definition prop_dictionary_keysym_value :: ptr where "prop_dictionary_keysym_value = NULL"
definition prop_object_iterator_next :: ptr where "prop_object_iterator_next = NULL"
definition uvm_default_mapaddr :: ptr where "uvm_default_mapaddr = NULL"
definition uvm_km_alloc :: int32 where "uvm_km_alloc = 0"
definition uvm_km_kmem_alloc :: ptr where "uvm_km_kmem_alloc = NULL"
definition uvm_km_protect :: int32 where "uvm_km_protect = 0"
definition uvm_wait :: int32 where "uvm_wait = 0"
definition uvm_map_protect :: int32 where "uvm_map_protect = 0"
definition uvm_loanbreak :: int32 where "uvm_loanbreak = 0"
definition uvm_pagealloc_strat :: ptr where "uvm_pagealloc_strat = NULL"
definition uvm_pagelookup :: ptr where "uvm_pagelookup = NULL"
definition ubc_uiomove :: int32 where "ubc_uiomove = 0"
definition pmap_clear_modify :: int32 where "pmap_clear_modify = 0"
definition pmap_resident_count :: int where "pmap_resident_count = 0"
definition device_lookup :: ptr where "device_lookup = NULL"
definition device_lookup_acquire :: ptr where "device_lookup_acquire = NULL"
definition sysctl_basenode_init :: int32 where "sysctl_basenode_init = 0"
definition kobj_machdep :: int32 where "kobj_machdep = 0"
definition kobj_reloc :: int32 where "kobj_reloc = 0"
definition rump_nativeabi_p :: int32 where "rump_nativeabi_p = 0"
definition VOP_ADVLOCK :: int32 where "VOP_ADVLOCK = 0"
definition VOP_GETATTR :: int32 where "VOP_GETATTR = 0"
definition VOP_PUTPAGES :: int32 where "VOP_PUTPAGES = 0"
definition VOP_UNLOCK :: int32 where "VOP_UNLOCK = 0"

end
