(* ===== verification/TrapEmul.thy ===== *)
theory TrapEmul
  imports Prelude
begin

unbundle bit_operations_syntax

text \<open>
  The trap handler with which the rump kernel is brought up in user mode
  (\<open>tests/phase2/test_rump_init.c\<close>, in short form \<open>test_trap_emul.c\<close>). The kernel reads and writes the
  registers SPRG0 to SPRG7 of the processor, which only the supervisor may; the handler
  decodes the instruction that trapped, does what it would have done on a copy of the
  registers, and steps over it. Any other trap is sent to a routine that reports it, on a stack
  of its own. Memory is a parameter (\<open>fetch\<close>), as are the addresses of the program's own objects.
\<close>

section \<open>The handler\<close>

record ExceptionContext =
  ctx_Flags :: uint32
  ctx_Traptype :: uint32
  msr :: uint32
  ip :: uint32
  gpr :: "uint32 list"
  cr :: uint32
  xer :: uint32
  ctr :: uint32
  lr :: uint32
  dsisr :: uint32
  dar :: uint32

record trap_env =
  fetch :: "ptr \<Rightarrow> uint32"
  fake_cpu_addr :: ptr
  crash_dump_addr :: ptr
  recovery_top :: ptr

record trap_state =
  g_sprg :: "uint32 list"
  g_priv_emulated_count :: uint32
  g_priv_last_spr :: uint32
  g_priv_last_kind :: uint32
  g_trap_num_hit :: uint32
  g_last_bad_insn :: uint32
  g_crash_ctx :: ExceptionContext

definition emulate_priv_insn ::
  "trap_env \<Rightarrow> ExceptionContext \<Rightarrow> trap_state \<Rightarrow> int32 \<times> ExceptionContext \<times> trap_state"
where
  "emulate_priv_insn env ctx st =
     (let insn = fetch env (ip ctx);
          opcode = drop_bit 26 insn AND 0x3F
      in
      if opcode \<noteq> 31 then (0, ctx, st)
      else
        let xo = drop_bit 1 insn AND 0x3FF;
            rt = drop_bit 21 insn AND 0x1F;
            spr_lo = drop_bit 16 insn AND 0x1F;
            spr_hi = drop_bit 11 insn AND 0x1F;
            spr = push_bit 5 spr_hi OR spr_lo
        in
        if xo = 339 \<and> 272 \<le> spr \<and> spr \<le> 279
        then
          let idx = unat (spr - 272);
              sprg = (if idx = 0 \<and> g_sprg st ! 0 = 0 then (g_sprg st)[0 := fake_cpu_addr env] else g_sprg st)
          in (1, ctx\<lparr>gpr := (gpr ctx)[unat rt := sprg ! idx], ip := ip ctx + 4\<rparr>,
              st\<lparr>g_sprg := sprg, g_priv_emulated_count := g_priv_emulated_count st + 1,
                 g_priv_last_spr := spr, g_priv_last_kind := 1\<rparr>)
        else if xo = 467 \<and> 272 \<le> spr \<and> spr \<le> 279
        then
          (1, ctx\<lparr>ip := ip ctx + 4\<rparr>,
           st\<lparr>g_sprg := (g_sprg st)[unat (spr - 272) := gpr ctx ! unat rt],
              g_priv_emulated_count := g_priv_emulated_count st + 1,
              g_priv_last_spr := spr, g_priv_last_kind := 2\<rparr>)
        else (0, ctx, st))"

text \<open>\<open>priv\<close> is the number of the privilege-violation trap.\<close>

definition trap_handler ::
  "uint32 \<Rightarrow> trap_env \<Rightarrow> uint32 \<Rightarrow> ExceptionContext \<Rightarrow> trap_state \<Rightarrow> uint32 \<times> ExceptionContext \<times> trap_state"
where
  "trap_handler priv env num ctx st =
     (let (done, ctx1, st1) = (if num = priv then emulate_priv_insn env ctx st else (0, ctx, st)) in
      if done \<noteq> 0 then (1, ctx1, st1)
      else
        (1, ctx1\<lparr>ip := crash_dump_addr env, gpr := (gpr ctx1)[1 := recovery_top env AND NOT 15]\<rparr>,
         st1\<lparr>g_trap_num_hit := num, g_last_bad_insn := fetch env (ip ctx1), g_crash_ctx := ctx1\<rparr>))"

section \<open>The instructions\<close>

text \<open>
  The two instructions as the processor defines them: their encoding (opcode 31; register; the
  number of the special register, 272 for SPRG0, with its halves swapped; extended opcode; a bit
  that is ignored) and their effect on general and special registers.
\<close>

datatype priv_insn = Mfsprg nat nat | Mtsprg nat nat

fun encode :: "priv_insn \<Rightarrow> nat" where
  "encode (Mfsprg rt n) = 31 * 2 ^ 26 + rt * 2 ^ 21 + (272 + n) mod 32 * 2 ^ 16 + (272 + n) div 32 * 2 ^ 11 + 339 * 2"
| "encode (Mtsprg n rs) = 31 * 2 ^ 26 + rs * 2 ^ 21 + (272 + n) mod 32 * 2 ^ 16 + (272 + n) div 32 * 2 ^ 11 + 467 * 2"

fun valid_insn :: "priv_insn \<Rightarrow> bool" where
  "valid_insn (Mfsprg rt n) \<longleftrightarrow> rt < 32 \<and> n < 8"
| "valid_insn (Mtsprg n rs) \<longleftrightarrow> rs < 32 \<and> n < 8"

fun insn_effect :: "priv_insn \<Rightarrow> uint32 list \<times> uint32 list \<Rightarrow> uint32 list \<times> uint32 list" where
  "insn_effect (Mfsprg rt n) (g, sp) = (g[rt := sp ! n], sp)"
| "insn_effect (Mtsprg n rs) (g, sp) = (g, sp[n := g ! rs])"

text \<open>The one case in which the handler does not do what the processor does: SPRG0 is read while its copy is 0.\<close>

fun reads_unset_cpu :: "priv_insn \<Rightarrow> uint32 list \<Rightarrow> bool" where
  "reads_unset_cpu (Mfsprg rt n) sp \<longleftrightarrow> n = 0 \<and> sp ! 0 = 0"
| "reads_unset_cpu (Mtsprg n rs) sp \<longleftrightarrow> False"

fun insn_spr :: "priv_insn \<Rightarrow> nat" where
  "insn_spr (Mfsprg rt n) = 272 + n"
| "insn_spr (Mtsprg n rs) = 272 + n"

fun insn_kind :: "priv_insn \<Rightarrow> uint32" where
  "insn_kind (Mfsprg rt n) = 1"
| "insn_kind (Mtsprg n rs) = 2"

text \<open>What the handler notes down about the instruction.\<close>

definition count_insn :: "priv_insn \<Rightarrow> trap_state \<Rightarrow> trap_state" where
  "count_insn i st = st\<lparr>g_priv_emulated_count := g_priv_emulated_count st + 1,
     g_priv_last_spr := of_nat (insn_spr i), g_priv_last_kind := insn_kind i\<rparr>"

section \<open>Fields of an instruction word\<close>

lemma field_nat:
  assumes "k + m \<le> 32"
  shows "unat (drop_bit k (w :: uint32) AND mask m) = unat w div 2 ^ k mod 2 ^ m"
proof -
  have "unat (take_bit m (drop_bit k w)) = take_bit m (drop_bit k (unat w))"
    by (simp only: unsigned_take_bit_eq unsigned_drop_bit_eq) (use assms in \<open>simp add: take_bit_drop_bit min_def unsigned_take_bit_eq\<close>)
  then show ?thesis by (simp only: take_bit_eq_mask take_bit_eq_mod drop_bit_eq_div flip: take_bit_eq_mask)
qed

lemma masks:
  "(0x3F :: uint32) = mask 6" "(0x1F :: uint32) = mask 5" "(0x3FF :: uint32) = mask 10"
  by (simp_all add: mask_eq_exp_minus_1)

lemma spr_nat:
  assumes "unat hi < 32" "unat lo < 32"
  shows "unat (push_bit 5 hi OR lo :: uint32) = unat hi * 32 + unat lo"
proof -
  have "take_bit 5 (unat lo) = unat lo" using assms(2) by (simp add: take_bit_nat_eq_self)
  then have "take_bit 5 lo = lo" by (metis unsigned_take_bit_eq word_unat_eq_iff)
  then have low: "n < 5" if "bit lo n" for n using that by (metis bit_take_bit_iff)
  have "push_bit 5 hi OR lo = push_bit 5 hi + lo"
    by (rule disjunctive_add [symmetric]) (auto simp: bit_push_bit_iff dest: low)
  also have "unat \<dots> = unat hi * 32 + unat lo"
    using assms by (simp add: push_bit_eq_mult unat_word_ariths)
  finally show ?thesis .
qed

definition fields :: "nat \<Rightarrow> nat \<Rightarrow> nat \<Rightarrow> nat \<Rightarrow> nat \<Rightarrow> nat" where
  "fields rt lo hi xo b = 31 * 2 ^ 26 + rt * 2 ^ 21 + lo * 2 ^ 16 + hi * 2 ^ 11 + xo * 2 + b"

lemma fields_split:
  assumes "v < 2 ^ 32" "v div 2 ^ 26 mod 2 ^ 6 = 31"
  shows "v = fields (v div 2 ^ 21 mod 2 ^ 5) (v div 2 ^ 16 mod 2 ^ 5) (v div 2 ^ 11 mod 2 ^ 5) (v div 2 ^ 1 mod 2 ^ 10) (v mod 2)"
proof -
  have step: "v div a = (v div (a * c)) * c + v div a mod c" for a c
    by (simp add: div_mult2_eq)
  have top: "v div 2 ^ 26 = 31" using assms by simp
  have "v div 2 = v div 2048 * 1024 + v div 2 mod 1024" "v div 2048 = v div 65536 * 32 + v div 2048 mod 32"
    "v div 65536 = v div 2097152 * 32 + v div 65536 mod 32" "v div 2097152 = 31 * 32 + v div 2097152 mod 32"
    using step [of 2 1024] step [of 2048 32] step [of 65536 32] step [of 2097152 32] top by simp_all
  moreover have "v = v div 2 * 2 + v mod 2" by (rule div_mult_mod_eq [symmetric])
  ultimately have "v = 31 * 67108864 + v div 2097152 mod 32 * 2097152 + v div 65536 mod 32 * 65536 +
      v div 2048 mod 32 * 2048 + v div 2 mod 1024 * 2 + v mod 2" by linarith
  then show ?thesis by (simp add: fields_def)
qed

lemma fields_sel:
  assumes "rt < 32" "lo < 32" "hi < 32" "xo < 1024" "b < 2"
  shows "fields rt lo hi xo b div 2 ^ 26 mod 2 ^ 6 = 31" "fields rt lo hi xo b div 2 ^ 21 mod 2 ^ 5 = rt"
    "fields rt lo hi xo b div 2 ^ 16 mod 2 ^ 5 = lo" "fields rt lo hi xo b div 2 ^ 11 mod 2 ^ 5 = hi"
    "fields rt lo hi xo b div 2 ^ 1 mod 2 ^ 10 = xo"
proof -
  define t l h where "t = rt + 32 * 31" and "l = lo + 32 * t" and "h = hi + 32 * l"
  have d1: "fields rt lo hi xo b div 2 = xo + 1024 * h"
    using assms(5) by (simp add: fields_def t_def l_def h_def)
  have peel: "(x + m * y) div m = y" "(x + m * y) mod m = x" if "x < m" for x y m :: nat using that by auto
  have d2: "fields rt lo hi xo b div 2048 = h"
    using d1 peel(1) [OF assms(4), of h] div_mult2_eq [of "fields rt lo hi xo b" 2 1024] by simp
  have d3: "fields rt lo hi xo b div 65536 = l"
    using d2 peel(1) [OF assms(3), of l] div_mult2_eq [of "fields rt lo hi xo b" 2048 32] by (simp add: h_def)
  have d4: "fields rt lo hi xo b div 2097152 = t"
    using d3 peel(1) [OF assms(2), of t] div_mult2_eq [of "fields rt lo hi xo b" 65536 32] by (simp add: l_def)
  have d5: "fields rt lo hi xo b div 67108864 = 31"
    using d4 peel(1) [OF assms(1), of 31] div_mult2_eq [of "fields rt lo hi xo b" 2097152 32] by (simp add: t_def)
  show "fields rt lo hi xo b div 2 ^ 1 mod 2 ^ 10 = xo" using peel(2) [OF assms(4), of h] by (simp add: d1)
  show "fields rt lo hi xo b div 2 ^ 11 mod 2 ^ 5 = hi" using peel(2) [OF assms(3), of l] by (simp add: d2 h_def)
  show "fields rt lo hi xo b div 2 ^ 16 mod 2 ^ 5 = lo" using peel(2) [OF assms(2), of t] by (simp add: d3 l_def)
  show "fields rt lo hi xo b div 2 ^ 21 mod 2 ^ 5 = rt" using peel(2) [OF assms(1), of 31] by (simp add: d4 t_def)
  show "fields rt lo hi xo b div 2 ^ 26 mod 2 ^ 6 = 31" by (simp add: d5)
qed

section \<open>The emulation is exact\<close>

text \<open>What the handler does, by the fields of the instruction as numbers.\<close>

lemma emulate_fields:
  assumes "unat (fetch env (ip ctx)) = v" "v div 2 ^ 21 mod 2 ^ 5 = rt" "v div 2 ^ 1 mod 2 ^ 10 = xo"
    and "v div 2 ^ 11 mod 2 ^ 5 * 32 + v div 2 ^ 16 mod 2 ^ 5 = spr"
  shows "emulate_priv_insn env ctx st =
    (if v div 2 ^ 26 mod 2 ^ 6 = 31 \<and> xo = 339 \<and> 272 \<le> spr \<and> spr \<le> 279
     then let sprg = (if reads_unset_cpu (Mfsprg rt (spr - 272)) (g_sprg st) then (g_sprg st)[0 := fake_cpu_addr env] else g_sprg st) in
       (1, ctx\<lparr>gpr := (gpr ctx)[rt := sprg ! (spr - 272)], ip := ip ctx + 4\<rparr>,
        st\<lparr>g_sprg := sprg, g_priv_emulated_count := g_priv_emulated_count st + 1,
           g_priv_last_spr := of_nat spr, g_priv_last_kind := 1\<rparr>)
     else if v div 2 ^ 26 mod 2 ^ 6 = 31 \<and> xo = 467 \<and> 272 \<le> spr \<and> spr \<le> 279
     then (1, ctx\<lparr>ip := ip ctx + 4\<rparr>,
        st\<lparr>g_sprg := (g_sprg st)[spr - 272 := gpr ctx ! rt],
           g_priv_emulated_count := g_priv_emulated_count st + 1,
           g_priv_last_spr := of_nat spr, g_priv_last_kind := 2\<rparr>)
     else (0, ctx, st))"
proof -
  let ?w = "fetch env (ip ctx)"
  let ?hi = "drop_bit 11 ?w AND 0x1F" and ?lo = "drop_bit 16 ?w AND 0x1F"
  note f = field_nat [of _ _ ?w, unfolded assms(1)]
  have n: "unat (drop_bit 26 ?w AND 0x3F) = v div 2 ^ 26 mod 2 ^ 6" "unat (drop_bit 1 ?w AND 0x3FF) = xo"
    "unat (drop_bit 21 ?w AND 0x1F) = rt" "unat ?hi = v div 2 ^ 11 mod 2 ^ 5" "unat ?lo = v div 2 ^ 16 mod 2 ^ 5"
    unfolding masks assms(2,3) [symmetric] by (rule f, simp)+
  have spr: "unat (push_bit 5 ?hi OR ?lo) = spr"
    using spr_nat [of ?hi ?lo] n(4,5) assms(4) by simp
  have eq: "drop_bit 26 ?w AND 0x3F = 31 \<longleftrightarrow> v div 2 ^ 26 mod 2 ^ 6 = 31"
    "drop_bit 1 ?w AND 0x3FF = 339 \<longleftrightarrow> xo = 339" "drop_bit 1 ?w AND 0x3FF = 467 \<longleftrightarrow> xo = 467"
    using n(1,2) by (simp_all add: word_unat_eq_iff)
  have rng: "272 \<le> push_bit 5 ?hi OR ?lo \<longleftrightarrow> 272 \<le> spr" "push_bit 5 ?hi OR ?lo \<le> 279 \<longleftrightarrow> spr \<le> 279"
    using spr by (simp_all add: word_le_nat_alt)
  have idx: "unat ((push_bit 5 ?hi OR ?lo) - 272) = spr - 272" if "272 \<le> spr"
    using unat_sub [of 272 "push_bit 5 ?hi OR ?lo"] that spr rng(1) by simp
  have of_nat: "push_bit 5 ?hi OR ?lo = of_nat spr" unfolding spr [symmetric] by simp
  show ?thesis
    unfolding emulate_priv_insn_def Let_def eq rng n(3) unfolding of_nat
    using idx [unfolded of_nat] by (simp add: eq)
qed

text \<open>The same for a word that is put together from its fields.\<close>

lemma emulate_word:
  assumes "unat (fetch env (ip ctx)) = fields rt (spr mod 32) (spr div 32) xo b"
    and "rt < 32" "spr < 1024" "xo < 1024" "b < 2"
  shows "emulate_priv_insn env ctx st =
    (if xo = 339 \<and> 272 \<le> spr \<and> spr \<le> 279
     then let sprg = (if reads_unset_cpu (Mfsprg rt (spr - 272)) (g_sprg st) then (g_sprg st)[0 := fake_cpu_addr env] else g_sprg st) in
       (1, ctx\<lparr>gpr := (gpr ctx)[rt := sprg ! (spr - 272)], ip := ip ctx + 4\<rparr>,
        st\<lparr>g_sprg := sprg, g_priv_emulated_count := g_priv_emulated_count st + 1,
           g_priv_last_spr := of_nat spr, g_priv_last_kind := 1\<rparr>)
     else if xo = 467 \<and> 272 \<le> spr \<and> spr \<le> 279
     then (1, ctx\<lparr>ip := ip ctx + 4\<rparr>,
        st\<lparr>g_sprg := (g_sprg st)[spr - 272 := gpr ctx ! rt],
           g_priv_emulated_count := g_priv_emulated_count st + 1,
           g_priv_last_spr := of_nat spr, g_priv_last_kind := 2\<rparr>)
     else (0, ctx, st))"
proof -
  have "spr mod 32 < 32" "spr div 32 < 32" using assms(3) by simp_all
  note sel = fields_sel [OF assms(2) this assms(4,5)]
  have spr: "fields rt (spr mod 32) (spr div 32) xo b div 2 ^ 11 mod 2 ^ 5 * 32 +
    fields rt (spr mod 32) (spr div 32) xo b div 2 ^ 16 mod 2 ^ 5 = spr"
    by (simp only: sel(3,4) div_mult_mod_eq)
  show ?thesis
    by (simp only: emulate_fields [OF assms(1) sel(2,5) spr] sel(1) simp_thms)
qed

lemma aligned_16: "16 dvd unat (w AND NOT 15 :: uint32)"
proof -
  have "w AND NOT 15 = w AND NOT (mask 4)" by (simp add: mask_eq_exp_minus_1)
  then have "take_bit 4 (w AND NOT 15) = 0" by (simp add: take_bit_eq_mask ac_simps)
  then have "take_bit 4 (unat (w AND NOT 15)) = 0" by (metis unsigned_0 unsigned_take_bit_eq)
  then show ?thesis by (simp add: take_bit_eq_mod dvd_eq_mod_eq_0)
qed

text \<open>A word that encodes a move to or from one of the special registers.\<close>

definition encodes :: "uint32 \<Rightarrow> priv_insn \<Rightarrow> bool" where
  "encodes w i \<longleftrightarrow> valid_insn i \<and> (unat w = encode i \<or> unat w = encode i + 1)"

lemma encodes_fields:
  assumes "encodes w i"
  obtains b where "b < 2" "unat w = encode i + b"
proof (cases "unat w = encode i")
  case True
  then show thesis by (intro that [of 0]) simp_all
next
  case False
  with assms show thesis by (intro that [of 1]) (simp_all add: encodes_def)
qed

lemma emulate_encoded:
  assumes "encodes (fetch env (ip ctx)) i"
  shows "emulate_priv_insn env ctx st =
    (let (g, sp) = insn_effect i (gpr ctx,
         if reads_unset_cpu i (g_sprg st) then (g_sprg st)[0 := fake_cpu_addr env] else g_sprg st) in
     (1, ctx\<lparr>gpr := g, ip := ip ctx + 4\<rparr>, count_insn i (st\<lparr>g_sprg := sp\<rparr>)))"
proof -
  have v: "valid_insn i" using assms by (simp add: encodes_def)
  obtain b where b: "b < 2" "unat (fetch env (ip ctx)) = encode i + b" using assms by (rule encodes_fields)
  show ?thesis
  proof (cases i)
    case (Mfsprg rt n)
    with b(2) have "unat (fetch env (ip ctx)) = fields rt ((272 + n) mod 32) ((272 + n) div 32) 339 b"
      by (simp add: fields_def)
    from emulate_word [OF this _ _ _ b(1)] v show ?thesis by (simp add: Mfsprg count_insn_def Let_def)
  next
    case (Mtsprg n rs)
    with b(2) have "unat (fetch env (ip ctx)) = fields rs ((272 + n) mod 32) ((272 + n) div 32) 467 b"
      by (simp add: fields_def)
    from emulate_word [OF this _ _ _ b(1)] v show ?thesis by (simp add: Mtsprg count_insn_def)
  qed
qed

lemma emulate_other:
  assumes "\<And>i. \<not> encodes (fetch env (ip ctx)) i"
  shows "emulate_priv_insn env ctx st = (0, ctx, st)"
proof -
  let ?w = "fetch env (ip ctx)" and ?v = "unat (fetch env (ip ctx))"
  define rt xo lo hi where "rt = ?v div 2 ^ 21 mod 2 ^ 5" and "xo = ?v div 2 ^ 1 mod 2 ^ 10"
    and "lo = ?v div 2 ^ 16 mod 2 ^ 5" and "hi = ?v div 2 ^ 11 mod 2 ^ 5"
  let ?spr = "hi * 32 + lo"
  have lt: "rt < 32" "lo < 32" by (simp_all add: rt_def lo_def)
  have no: False if op: "?v div 2 ^ 26 mod 2 ^ 6 = 31" and spr: "272 \<le> ?spr" "?spr \<le> 279" and xo: "xo = 339 \<or> xo = 467"
  proof -
    have split: "(272 + (?spr - 272)) mod 32 = lo" "(272 + (?spr - 272)) div 32 = hi"
      using spr(1) lt(2) by simp_all
    have v: "?v = fields rt lo hi xo (?v mod 2)"
      unfolding rt_def xo_def lo_def hi_def using unsigned_less [of ?w] by (intro fields_split [OF _ op]) simp
    have b: "?v mod 2 = 0 \<or> ?v mod 2 = 1" by (simp add: mod_2_eq_odd)
    have n: "?spr - 272 < 8" using spr by simp
    from xo show False
    proof
      assume "xo = 339"
      with v b lt n have "encodes ?w (Mfsprg rt (?spr - 272))"
        unfolding encodes_def encode.simps split by (auto simp: fields_def)
      with assms show False by blast
    next
      assume "xo = 467"
      with v b lt n have "encodes ?w (Mtsprg (?spr - 272) rt)"
        unfolding encodes_def encode.simps split by (auto simp: fields_def)
      with assms show False by blast
    qed
  qed
  have "?v div 2 ^ 11 mod 2 ^ 5 * 32 + ?v div 2 ^ 16 mod 2 ^ 5 = ?spr" by (simp only: lo_def hi_def)
  from emulate_fields [OF refl rt_def [symmetric] xo_def [symmetric] this] no show ?thesis
    by (auto simp del: power_numeral)
qed

text \<open>
  C29: a privilege violation by a move to or from SPRG0 to SPRG7 has exactly the effect on the general
  registers and on the copy of the special registers that the processor defines for the instruction,
  and execution resumes after it, with one exception: a read of SPRG0 while its copy is 0 first
  puts the address of the per-processor data there, and reads that. Every other trap
  changes no register but the program counter, which goes to the report routine, and the stack
  pointer, which is aligned to 16, and the report finds the instruction and the registers of the trap.
\<close>

theorem sprg_emulation_exact:
  "(num = priv \<and> encodes (fetch env (ip ctx)) i \<and> \<not> reads_unset_cpu i (g_sprg st) \<longrightarrow>
     (let (g, sp) = insn_effect i (gpr ctx, g_sprg st) in
      trap_handler priv env num ctx st =
       (1, ctx\<lparr>gpr := g, ip := ip ctx + 4\<rparr>, count_insn i (st\<lparr>g_sprg := sp\<rparr>)))) \<and>
   (num = priv \<and> encodes (fetch env (ip ctx)) i \<and> reads_unset_cpu i (g_sprg st) \<longrightarrow>
     (let (g, sp) = insn_effect i (gpr ctx, (g_sprg st)[0 := fake_cpu_addr env]) in
      trap_handler priv env num ctx st =
       (1, ctx\<lparr>gpr := g, ip := ip ctx + 4\<rparr>, count_insn i (st\<lparr>g_sprg := sp\<rparr>)))) \<and>
   (num \<noteq> priv \<or> (\<forall>i. \<not> encodes (fetch env (ip ctx)) i) \<longrightarrow>
     (\<exists>top. 16 dvd unat top \<and> trap_handler priv env num ctx st =
       (1, ctx\<lparr>ip := crash_dump_addr env, gpr := (gpr ctx)[1 := top]\<rparr>,
        st\<lparr>g_trap_num_hit := num, g_last_bad_insn := fetch env (ip ctx), g_crash_ctx := ctx\<rparr>)))"
proof (intro conjI impI)
  assume "num = priv \<and> encodes (fetch env (ip ctx)) i \<and> \<not> reads_unset_cpu i (g_sprg st)"
  then show "let (g, sp) = insn_effect i (gpr ctx, g_sprg st) in
      trap_handler priv env num ctx st =
       (1, ctx\<lparr>gpr := g, ip := ip ctx + 4\<rparr>, count_insn i (st\<lparr>g_sprg := sp\<rparr>))"
    by (auto simp: trap_handler_def emulate_encoded Let_def split: prod.splits)
next
  assume "num = priv \<and> encodes (fetch env (ip ctx)) i \<and> reads_unset_cpu i (g_sprg st)"
  then show "let (g, sp) = insn_effect i (gpr ctx, (g_sprg st)[0 := fake_cpu_addr env]) in
      trap_handler priv env num ctx st =
       (1, ctx\<lparr>gpr := g, ip := ip ctx + 4\<rparr>, count_insn i (st\<lparr>g_sprg := sp\<rparr>))"
    by (auto simp: trap_handler_def emulate_encoded Let_def split: prod.splits)
next
  assume "num \<noteq> priv \<or> (\<forall>i. \<not> encodes (fetch env (ip ctx)) i)"
  then have "(if num = priv then emulate_priv_insn env ctx st else (0, ctx, st)) = (0, ctx, st)"
    using emulate_other by auto
  then show "\<exists>top. 16 dvd unat top \<and> trap_handler priv env num ctx st =
       (1, ctx\<lparr>ip := crash_dump_addr env, gpr := (gpr ctx)[1 := top]\<rparr>,
        st\<lparr>g_trap_num_hit := num, g_last_bad_insn := fetch env (ip ctx), g_crash_ctx := ctx\<rparr>)"
    unfolding trap_handler_def Let_def
    by (intro exI [of _ "recovery_top env AND NOT 15"]) (simp add: aligned_16 [simplified])
qed

text \<open>\<open>mfsprg r4, 0\<close> at address 0, on fresh special registers.\<close>

definition mfsprg_env :: trap_env where
  "mfsprg_env = \<lparr>fetch = (\<lambda>_. 0x7C9042A6), fake_cpu_addr = 0x1000, crash_dump_addr = 0x2000, recovery_top = 0x3000\<rparr>"

definition zero_ctx :: ExceptionContext where
  "zero_ctx = \<lparr>ctx_Flags = 0, ctx_Traptype = 0, msr = 0, ip = 0, gpr = replicate 32 0, cr = 0, xer = 0,
     ctr = 0, lr = 0, dsisr = 0, dar = 0\<rparr>"

definition fresh_trap_state :: trap_state where
  "fresh_trap_state = \<lparr>g_sprg = replicate 8 0, g_priv_emulated_count = 0, g_priv_last_spr = 0, g_priv_last_kind = 0,
     g_trap_num_hit = 0, g_last_bad_insn = 0, g_crash_ctx = zero_ctx\<rparr>"

theorem sprg_emulation_exact_witness:
  "encodes (fetch mfsprg_env (ip zero_ctx)) (Mfsprg 4 0) \<and>
   (\<exists>ctx st. trap_handler 8 mfsprg_env 8 zero_ctx fresh_trap_state = (1, ctx, st) \<and>
     gpr ctx ! 4 = 0x1000 \<and> ip ctx = 4 \<and> g_sprg st ! 0 = 0x1000 \<and> g_priv_last_spr st = 272) \<and>
   (\<exists>ctx st. trap_handler 8 mfsprg_env 8 zero_ctx (fresh_trap_state\<lparr>g_sprg := replicate 8 7\<rparr>) = (1, ctx, st) \<and>
     gpr ctx ! 4 = 7 \<and> ip ctx = 4 \<and> g_sprg st = replicate 8 7 \<and> g_priv_last_spr st = 272)"
proof -
  have e: "encodes (fetch mfsprg_env (ip zero_ctx)) (Mfsprg 4 0)"
    by (simp add: encodes_def mfsprg_env_def)
  with sprg_emulation_exact [of 8 8 mfsprg_env zero_ctx "Mfsprg 4 0" fresh_trap_state]
    sprg_emulation_exact [of 8 8 mfsprg_env zero_ctx "Mfsprg 4 0" "fresh_trap_state\<lparr>g_sprg := replicate 8 7\<rparr>"]
  show ?thesis by (simp add: mfsprg_env_def zero_ctx_def fresh_trap_state_def count_insn_def)
qed

end
