(* ===== verification/BufferSpec.thy ===== *)
theory BufferSpec
  imports CondVar
begin

text \<open>
  A bounded buffer with producers and consumers, abstractly: the protocol of
  \<open>tests/phase1/test_cv.c\<close> over a lock and two condition variables of which nothing is left but
  who is inside and who waits. Theory \<open>Monitor\<close> runs the same program on the mutex and the waiter rings of
  \<open>osal_lock.c\<close> and shows that its steps are steps of this one. Here: no run gets stuck before
  everybody has finished, and every run is finite.
\<close>

section \<open>The program\<close>

text \<open>The two condition variables: \<open>g_notempty\<close> and \<open>g_notfull\<close>.\<close>

datatype cv_name = NotEmpty | NotFull

abbreviation (input) Q_SIZE :: nat where "Q_SIZE \<equiv> 4"

record buffer_prog =
  prods :: "ptr list"
  conss :: "ptr list"
  main_task :: ptr
  prod_arg :: "ptr \<Rightarrow> int32"
  n_items :: nat

definition tasks :: "buffer_prog \<Rightarrow> ptr list" where
  "tasks pr = main_task pr # prods pr @ conss pr"

definition target :: "buffer_prog \<Rightarrow> nat" where
  "target pr = length (prods pr) * n_items pr"

text \<open>There is a consumer, tasks are different, and no ring of waiters can overflow.\<close>

definition prog_ok :: "buffer_prog \<Rightarrow> bool" where
  "prog_ok pr \<longleftrightarrow> distinct (tasks pr) \<and> conss pr \<noteq> [] \<and> length (prods pr) \<le> 32 \<and> length (conss pr) \<le> 32"

fun group :: "buffer_prog \<Rightarrow> cv_name \<Rightarrow> ptr list" where
  "group pr NotEmpty = conss pr"
| "group pr NotFull = prods pr"

text \<open>
  Where a task is: about to lock, inside and about to test its condition, in the parts of
  \<open>osal_cv_wait\<close> (queued, asleep, woken and about to lock again), about to signal, with \<open>Signal\<close>
  calls still to make, about to unlock and go on, about to unlock and leave, or finished.
\<close>

datatype mon_pc =
    M_Lock | M_Test | M_Queued | M_Asleep | M_Woken | M_Notify | M_Sending "exec_call list"
  | M_Unlock | M_Leave | M_Done

fun holds :: "mon_pc \<Rightarrow> bool" where
  "holds M_Test = True"
| "holds M_Queued = True"
| "holds M_Notify = True"
| "holds (M_Sending cs) = True"
| "holds M_Unlock = True"
| "holds M_Leave = True"
| "holds _ = False"

definition waits :: "mon_pc \<Rightarrow> bool" where
  "waits p \<longleftrightarrow> p = M_Queued \<or> p = M_Asleep"

lemma waits_simps [simp]:
  "waits M_Queued" "waits M_Asleep" "\<not> waits M_Lock" "\<not> waits M_Test" "\<not> waits M_Woken" "\<not> waits M_Notify"
  "\<not> waits (M_Sending cs)" "\<not> waits M_Unlock" "\<not> waits M_Leave" "\<not> waits M_Done"
  by (simp_all add: waits_def)

definition sigc :: "ptr \<Rightarrow> exec_call" where
  "sigc t = Signal t SIGF_SINGLE"

lemma sigc_inj [simp]: "sigc t = sigc u \<longleftrightarrow> t = u"
  by (simp add: sigc_def)

record amon =
  a_at :: "ptr \<Rightarrow> mon_pc"
  a_wl :: "cv_name \<Rightarrow> ptr list"
  a_sg :: "ptr \<Rightarrow> bool"
  a_q :: "int32 list"
  a_num :: "ptr \<Rightarrow> nat"
  a_in :: "int32 list"
  a_out :: "int32 list"

definition to :: "ptr \<Rightarrow> mon_pc \<Rightarrow> amon \<Rightarrow> amon" where
  "to t p a = a\<lparr>a_at := (a_at a)(t := p)\<rparr>"

lemma to_simps [simp]:
  "a_at (to t p a) = (a_at a)(t := p)" "a_wl (to t p a) = a_wl a" "a_sg (to t p a) = a_sg a"
  "a_q (to t p a) = a_q a" "a_num (to t p a) = a_num a" "a_in (to t p a) = a_in a" "a_out (to t p a) = a_out a"
  by (simp_all add: to_def)

definition free :: "amon \<Rightarrow> bool" where
  "free a \<longleftrightarrow> (\<forall>u. \<not> holds (a_at a u))"

definition must_wait :: "buffer_prog \<Rightarrow> cv_name \<Rightarrow> amon \<Rightarrow> bool" where
  "must_wait pr c a \<longleftrightarrow>
     (case c of NotFull \<Rightarrow> length (a_q a) = Q_SIZE | NotEmpty \<Rightarrow> a_q a = [] \<and> length (a_out a) < target pr)"

text \<open>The condition variable a task signals.\<close>

definition signals :: "buffer_prog \<Rightarrow> ptr \<Rightarrow> cv_name" where
  "signals pr t = (if t \<in> set (prods pr) then NotEmpty else NotFull)"

inductive a_step :: "buffer_prog \<Rightarrow> ptr \<Rightarrow> amon \<Rightarrow> amon \<Rightarrow> bool" for pr where
  a_over: "t \<in> set (prods pr) \<Longrightarrow> a_at a t = M_Lock \<Longrightarrow> n_items pr \<le> a_num a t \<Longrightarrow> a_step pr t a (to t M_Done a)"
| a_lock: "t \<in> set (prods pr) \<and> a_num a t < n_items pr \<or> t \<in> set (conss pr) \<Longrightarrow> a_at a t = M_Lock \<Longrightarrow> free a \<Longrightarrow>
    a_step pr t a (to t M_Test a)"
| a_join: "t = main_task pr \<Longrightarrow> a_at a t = M_Lock \<Longrightarrow> free a \<Longrightarrow> (\<forall>u\<in>set (prods pr). a_at a u = M_Done) \<Longrightarrow>
    a_step pr t a (to t M_Notify a)"
| a_wait: "t \<in> set (group pr c) \<Longrightarrow> a_at a t = M_Test \<Longrightarrow> must_wait pr c a \<Longrightarrow>
    a_step pr t a (to t M_Queued (a\<lparr>a_wl := (a_wl a)(c := a_wl a c @ [t]), a_sg := (a_sg a)(t := False)\<rparr>))"
| a_sleep: "t \<in> set (tasks pr) \<Longrightarrow> a_at a t = M_Queued \<Longrightarrow> a_step pr t a (to t M_Asleep a)"
| a_wake: "t \<in> set (tasks pr) \<Longrightarrow> a_at a t = M_Asleep \<Longrightarrow> a_sg a t \<Longrightarrow>
    a_step pr t a (to t M_Woken (a\<lparr>a_sg := (a_sg a)(t := False)\<rparr>))"
| a_relock: "t \<in> set (tasks pr) \<Longrightarrow> a_at a t = M_Woken \<Longrightarrow> free a \<Longrightarrow> a_step pr t a (to t M_Test a)"
| a_push: "t \<in> set (prods pr) \<Longrightarrow> a_at a t = M_Test \<Longrightarrow> length (a_q a) < Q_SIZE \<Longrightarrow>
    a_step pr t a (to t M_Notify
      (a\<lparr>a_q := a_q a @ [x], a_in := a_in a @ [x], a_num := (a_num a)(t := Suc (a_num a t))\<rparr>))"
| a_pop: "t \<in> set (conss pr) \<Longrightarrow> a_at a t = M_Test \<Longrightarrow> a_q a = x # q \<Longrightarrow>
    a_step pr t a (to t M_Notify (a\<lparr>a_q := q, a_out := a_out a @ [x]\<rparr>))"
| a_leave: "t \<in> set (conss pr) \<Longrightarrow> a_at a t = M_Test \<Longrightarrow> a_q a = [] \<Longrightarrow> target pr \<le> length (a_out a) \<Longrightarrow>
    a_step pr t a (to t M_Leave a)"
| a_signal0: "t \<in> set (prods pr @ conss pr) \<Longrightarrow> a_at a t = M_Notify \<Longrightarrow> a_wl a (signals pr t) = [] \<Longrightarrow>
    a_step pr t a (to t (M_Sending []) a)"
| a_signal: "t \<in> set (prods pr @ conss pr) \<Longrightarrow> a_at a t = M_Notify \<Longrightarrow> a_wl a (signals pr t) = u # us \<Longrightarrow>
    a_step pr t a (to t (M_Sending [sigc u]) (a\<lparr>a_wl := (a_wl a)(signals pr t := us)\<rparr>))"
| a_broadcast: "t = main_task pr \<Longrightarrow> a_at a t = M_Notify \<Longrightarrow>
    a_step pr t a (to t (M_Sending (map sigc (a_wl a NotEmpty))) (a\<lparr>a_wl := (a_wl a)(NotEmpty := [])\<rparr>))"
| a_sent: "t \<in> set (tasks pr) \<Longrightarrow> a_at a t = M_Sending [] \<Longrightarrow> a_step pr t a (to t M_Unlock a)"
| a_send: "t \<in> set (tasks pr) \<Longrightarrow> a_at a t = M_Sending (sigc u # cs) \<Longrightarrow>
    a_step pr t a (to t (M_Sending cs) (a\<lparr>a_sg := (a_sg a)(u := True)\<rparr>))"
| a_unlock: "t \<in> set (tasks pr) \<Longrightarrow> a_at a t = M_Unlock \<Longrightarrow>
    a_step pr t a (to t (if t = main_task pr then M_Done else M_Lock) a)"
| a_exit: "t \<in> set (conss pr) \<Longrightarrow> a_at a t = M_Leave \<Longrightarrow> a_step pr t a (to t M_Done a)"

section \<open>The invariant\<close>

definition excl :: "amon \<Rightarrow> bool" where
  "excl a \<longleftrightarrow> (\<forall>t u. holds (a_at a t) \<longrightarrow> holds (a_at a u) \<longrightarrow> t = u)"

definition roles :: "buffer_prog \<Rightarrow> amon \<Rightarrow> bool" where
  "roles pr a \<longleftrightarrow> (\<forall>t. (t \<notin> set (tasks pr) \<longrightarrow> a_at a t = M_Done) \<and>
     (waits (a_at a t) \<or> a_at a t = M_Woken \<or> a_at a t = M_Test \<longrightarrow> t \<in> set (prods pr @ conss pr)) \<and>
     (a_at a t = M_Leave \<longrightarrow> t \<in> set (conss pr)))"

text \<open>
  Each wait has one way to be ended: its entry in the ring, a \<open>Signal\<close> somebody is about to make,
  or the signal itself; and none of these is ever for a task that does not wait.
\<close>

definition queued_ok :: "buffer_prog \<Rightarrow> amon \<Rightarrow> bool" where
  "queued_ok pr a \<longleftrightarrow> (\<forall>c. distinct (a_wl a c) \<and>
     (\<forall>t\<in>set (a_wl a c). t \<in> set (group pr c) \<and> waits (a_at a t) \<and> \<not> a_sg a t))"

definition owed_ok :: "amon \<Rightarrow> bool" where
  "owed_ok a \<longleftrightarrow> (\<forall>u cs. a_at a u = M_Sending cs \<longrightarrow> (\<exists>ts. cs = map sigc ts \<and> distinct ts \<and>
     (\<forall>t\<in>set ts. waits (a_at a t) \<and> \<not> a_sg a t \<and> (\<forall>c. t \<notin> set (a_wl a c)))))"

definition ends :: "amon \<Rightarrow> ptr \<Rightarrow> bool" where
  "ends a t \<longleftrightarrow> (\<exists>c. t \<in> set (a_wl a c)) \<or> a_sg a t \<or> (\<exists>u cs. a_at a u = M_Sending cs \<and> sigc t \<in> set cs)"

definition waits_ok :: "amon \<Rightarrow> bool" where
  "waits_ok a \<longleftrightarrow> (\<forall>t. waits (a_at a t) \<longrightarrow> ends a t)"

definition data_ok :: "buffer_prog \<Rightarrow> amon \<Rightarrow> bool" where
  "data_ok pr a \<longleftrightarrow> a_in a = a_out a @ a_q a \<and> length (a_q a) \<le> Q_SIZE \<and>
     (\<Sum>t\<in>set (prods pr). a_num a t) = length (a_in a) \<and>
     (\<forall>t\<in>set (prods pr). a_num a t \<le> n_items pr \<and>
        (waits (a_at a t) \<or> a_at a t = M_Woken \<or> a_at a t = M_Test \<longrightarrow> a_num a t < n_items pr) \<and>
        (a_at a t = M_Done \<longrightarrow> a_num a t = n_items pr))"

text \<open>
  Wakeups are not lost: as long as somebody waits for items there are no more items than consumers
  that have been woken (or have just locked) and producers that are about to signal; and the
  same with free places.
\<close>

definition helps :: "buffer_prog \<Rightarrow> amon \<Rightarrow> cv_name \<Rightarrow> ptr \<Rightarrow> nat" where
  "helps pr a c t =
     (if t \<in> set (group pr c)
      then if waits (a_at a t) \<and> t \<notin> set (a_wl a c) \<or> a_at a t = M_Woken \<or> a_at a t = M_Test then 1 else 0
      else if t \<in> set (prods pr @ conss pr) \<and> a_at a t = M_Notify then 1 else 0)"

definition room :: "cv_name \<Rightarrow> amon \<Rightarrow> nat" where
  "room c a = (case c of NotEmpty \<Rightarrow> length (a_q a) | NotFull \<Rightarrow> Q_SIZE - length (a_q a))"

lemma room_simps [simp]:
  "room NotEmpty a = length (a_q a)" "room NotFull a = Q_SIZE - length (a_q a)" "room c (to t p a) = room c a"
  "room c (a\<lparr>a_wl := w\<rparr>) = room c a" "room c (a\<lparr>a_sg := g\<rparr>) = room c a"
  by (cases c; simp add: room_def)+

lemma room_cong: "a_q b = a_q a \<Longrightarrow> room c b = room c a"
  by (cases c; simp)

definition wake_ok :: "buffer_prog \<Rightarrow> amon \<Rightarrow> bool" where
  "wake_ok pr a \<longleftrightarrow> (\<forall>c. a_wl a c \<noteq> [] \<longrightarrow> room c a \<le> (\<Sum>t\<in>set (tasks pr). helps pr a c t))"

definition last_ok :: "buffer_prog \<Rightarrow> amon \<Rightarrow> bool" where
  "last_ok pr a \<longleftrightarrow>
     (a_at a (main_task pr) \<notin> {M_Lock, M_Notify} \<longrightarrow> a_wl a NotEmpty = []) \<and>
     (a_at a (main_task pr) \<noteq> M_Lock \<longrightarrow> (\<forall>t\<in>set (prods pr). a_at a t = M_Done)) \<and>
     (\<forall>t\<in>set (conss pr). a_at a t = M_Leave \<or> a_at a t = M_Done \<longrightarrow> length (a_out a) = target pr)"

definition a_inv :: "buffer_prog \<Rightarrow> amon \<Rightarrow> bool" where
  "a_inv pr a \<longleftrightarrow> excl a \<and> roles pr a \<and> queued_ok pr a \<and> owed_ok a \<and> waits_ok a \<and> data_ok pr a \<and>
     wake_ok pr a \<and> last_ok pr a"

section \<open>Every step keeps it\<close>

lemma group_tasks: "set (group pr c) \<subseteq> set (prods pr @ conss pr)" "set (group pr c) \<subseteq> set (tasks pr)"
  by (cases c; simp add: tasks_def; blast)+

lemma group_signals: "prog_ok pr \<Longrightarrow> t \<in> set (group pr c) \<Longrightarrow> signals pr t \<noteq> c"
  by (cases c) (auto simp: signals_def prog_ok_def tasks_def)

lemma prog_okD:
  assumes "prog_ok pr"
  shows "t \<in> set (prods pr) \<Longrightarrow> t \<notin> set (conss pr)" "t \<in> set (conss pr) \<Longrightarrow> t \<notin> set (prods pr)"
    "main_task pr \<notin> set (prods pr)" "main_task pr \<notin> set (conss pr)"
  using assms by (auto simp: prog_ok_def tasks_def)

text \<open>A task that is not inside comes inside, or the task that is inside does something.\<close>

lemma excl_to: "excl a \<Longrightarrow> free a \<or> holds (a_at a t) \<or> \<not> holds p \<Longrightarrow> excl (to t p a)"
  unfolding excl_def free_def by (metis fun_upd_apply to_simps(1))

lemma excl_cong: "excl a \<Longrightarrow> a_at a' = a_at a \<Longrightarrow> excl a'"
  by (simp add: excl_def)

lemma excl_step: "a_step pr t a a' \<Longrightarrow> excl a \<Longrightarrow> excl a'"
  by (erule a_step.cases) (simp_all add: excl_to excl_cong [of a])

definition role_allows :: "buffer_prog \<Rightarrow> ptr \<Rightarrow> mon_pc \<Rightarrow> bool" where
  "role_allows pr t p \<longleftrightarrow> (t \<notin> set (tasks pr) \<longrightarrow> p = M_Done) \<and>
     (waits p \<or> p = M_Woken \<or> p = M_Test \<longrightarrow> t \<in> set (prods pr @ conss pr)) \<and> (p = M_Leave \<longrightarrow> t \<in> set (conss pr))"

lemma roles_alt: "roles pr a \<longleftrightarrow> (\<forall>t. role_allows pr t (a_at a t))"
  by (simp add: roles_def role_allows_def)

lemma in_tasks: "t \<in> set (prods pr) \<Longrightarrow> t \<in> set (tasks pr)" "t \<in> set (conss pr) \<Longrightarrow> t \<in> set (tasks pr)"
  "main_task pr \<in> set (tasks pr)"
  by (simp_all add: tasks_def)

lemma roles_to: "roles pr a \<Longrightarrow> role_allows pr t p \<Longrightarrow> roles pr (to t p a)"
  by (simp add: roles_alt)

lemma roles_cong: "roles pr a \<Longrightarrow> a_at a' = a_at a \<Longrightarrow> roles pr a'"
  by (simp add: roles_alt)

lemma rolesD: "roles pr a \<Longrightarrow> a_at a t = p \<Longrightarrow> waits p \<or> p = M_Woken \<or> p = M_Test \<Longrightarrow> t \<in> set (prods pr) \<union> set (conss pr)"
  by (auto simp: roles_def)

lemma roles_step: "a_step pr t a a' \<Longrightarrow> roles pr a \<Longrightarrow> roles pr a'"
  by (erule a_step.cases; hypsubst; rule roles_to, erule roles_cong)
    (use group_tasks [of pr] in \<open>auto simp: role_allows_def in_tasks dest: rolesD\<close>)

definition num_ok :: "buffer_prog \<Rightarrow> amon \<Rightarrow> ptr \<Rightarrow> bool" where
  "num_ok pr a t \<longleftrightarrow> a_num a t \<le> n_items pr \<and>
     (waits (a_at a t) \<or> a_at a t = M_Woken \<or> a_at a t = M_Test \<longrightarrow> a_num a t < n_items pr) \<and>
     (a_at a t = M_Done \<longrightarrow> a_num a t = n_items pr)"

lemma data_alt: "data_ok pr a \<longleftrightarrow> a_in a = a_out a @ a_q a \<and> length (a_q a) \<le> Q_SIZE \<and>
    (\<Sum>t\<in>set (prods pr). a_num a t) = length (a_in a) \<and> (\<forall>t\<in>set (prods pr). num_ok pr a t)"
  by (simp add: data_ok_def num_ok_def)

lemma data_to:
  assumes "data_ok pr a" "a_in b = a_in a" "a_out b = a_out a" "a_q b = a_q a" "a_num b = a_num a" "a_at b = a_at a"
    and "t \<in> set (prods pr) \<Longrightarrow> num_ok pr (to t p b) t"
  shows "data_ok pr (to t p b)"
proof -
  have "num_ok pr (to t p b) u" if "u \<in> set (prods pr)" for u
    using that assms by (cases "u = t") (simp_all add: data_alt num_ok_def)
  with assms(1-5) show ?thesis by (simp add: data_alt)
qed

lemma data_step:
  assumes "a_step pr t a a'" "data_ok pr a" "prog_ok pr"
  shows "data_ok pr a'"
proof -
  have num: "num_ok pr a u" if "u \<in> set (prods pr)" for u using assms(2) that by (simp add: data_alt)
  from assms(1) show ?thesis
  proof (cases rule: a_step.cases)
    case (a_push x)
    have "(\<Sum>u\<in>set (prods pr). ((a_num a)(t := Suc (a_num a t))) u) = Suc (\<Sum>u\<in>set (prods pr). a_num a u)"
      using a_push(2) by (simp add: sum.remove [of _ t])
    moreover have "num_ok pr a' u" if "u \<in> set (prods pr)" for u
      using num [OF that] a_push(1,3) by (auto simp: num_ok_def)
    ultimately show ?thesis using a_push assms(2) by (simp add: data_alt)
  next
    case (a_pop x q)
    have "num_ok pr a' u" if "u \<in> set (prods pr)" for u
      using num [OF that] a_pop(1,2) prog_okD(1) [OF assms(3) that] by (auto simp: num_ok_def)
    with a_pop assms(2) show ?thesis by (simp add: data_alt)
  next
    case (a_unlock)
    then show ?thesis
      by (auto intro!: data_to [OF assms(2)] dest: num simp: num_ok_def prog_okD(3) [OF assms(3)])
  next
    case a_exit
    then show ?thesis using prog_okD(2) [OF assms(3)] by (auto intro!: data_to [OF assms(2)])
  next
    case a_over
    then show ?thesis using num [of t] by (auto intro!: data_to [OF assms(2)] simp: num_ok_def)
  next
    case a_lock
    then show ?thesis
      using num [of t] prog_okD(2) [OF assms(3)] by (auto intro!: data_to [OF assms(2)] simp: num_ok_def)
  qed (use num [of t] in \<open>simp_all add: data_to [OF assms(2)] num_ok_def\<close>)
qed

text \<open>The three parts about waiting together; most steps do not touch what they speak of.\<close>

definition wait_inv :: "buffer_prog \<Rightarrow> amon \<Rightarrow> bool" where
  "wait_inv pr a \<longleftrightarrow> queued_ok pr a \<and> owed_ok a \<and> waits_ok a"

definition quiet :: "mon_pc \<Rightarrow> bool" where
  "quiet p \<longleftrightarrow> \<not> waits p \<and> (\<forall>c cs. p \<noteq> M_Sending (c # cs))"

lemma quiet_simps [simp]:
  "quiet M_Lock" "quiet M_Test" "quiet M_Woken" "quiet M_Notify" "quiet M_Unlock" "quiet M_Leave" "quiet M_Done"
  "quiet (M_Sending [])"
  by (simp_all add: quiet_def)

lemma wait_inv_frame:
  assumes "wait_inv pr a" "quiet (a_at a t)" "quiet p"
    and "a_at a' = (a_at a)(t := p)" "a_wl a' = a_wl a" "a_sg a' = a_sg a"
  shows "wait_inv pr a'"
  unfolding wait_inv_def
proof (intro conjI)
  have w: "waits (a_at a' u) \<longleftrightarrow> waits (a_at a u)" for u using assms(2-4) by (simp add: quiet_def)
  have o: "a_at a u = M_Sending cs \<Longrightarrow> c \<in> set cs \<Longrightarrow> a_at a' u = M_Sending cs" for u c cs
    using assms(2,4) by (cases cs) (auto simp: quiet_def)
  have o': "a_at a' u = M_Sending cs \<Longrightarrow> cs = [] \<or> a_at a u = M_Sending cs" for u cs
    using assms(3,4) by (cases cs) (auto simp: quiet_def split: if_splits)
  show "queued_ok pr a'" using assms(1) by (simp add: wait_inv_def queued_ok_def w assms(5,6))
  show "owed_ok a'" using assms(1) o' by (fastforce simp: wait_inv_def owed_ok_def w assms(5,6))
  show "waits_ok a'" using assms(1) o by (simp add: wait_inv_def waits_ok_def ends_def w assms(5,6)) blast
qed

lemma wait_inv_quiet:
  assumes "wait_inv pr a" "quiet (a_at a t)" "quiet p" "a_at b = a_at a" "a_wl b = a_wl a" "a_sg b = a_sg a"
  shows "wait_inv pr (to t p b)"
  by (rule wait_inv_frame [OF assms(1-3)]) (simp_all add: assms(4-6))

lemma queued_waits: "queued_ok pr a \<Longrightarrow> t \<in> set (a_wl a c) \<Longrightarrow> waits (a_at a t)"
  by (simp add: queued_ok_def)

text \<open>While a task is inside, no other task has a \<open>Signal\<close> to make.\<close>

lemma no_other_sender: "excl a \<Longrightarrow> holds (a_at a t) \<Longrightarrow> a_at a u = M_Sending cs \<Longrightarrow> u = t"
  unfolding excl_def by (metis holds.simps(4))

lemma wait_inv_wait:
  assumes "wait_inv pr a" "excl a" "t \<in> set (group pr c)" "a_at a t = M_Test"
  shows "wait_inv pr (to t M_Queued (a\<lparr>a_wl := (a_wl a)(c := a_wl a c @ [t]), a_sg := (a_sg a)(t := False)\<rparr>))"
    (is "wait_inv pr ?a")
proof -
  have q: "queued_ok pr a" and o: "waits_ok a" using assms(1) by (simp_all add: wait_inv_def)
  have t: "t \<notin> set (a_wl a c')" for c' using queued_waits [OF q, of t c'] assms(4) by auto
  have no: "a_at a u \<noteq> M_Sending cs" for u cs
    using no_other_sender [OF assms(2), of t u cs] assms(4) by auto
  have "queued_ok pr ?a" using q t assms(3) by (auto simp: queued_ok_def)
  moreover have "owed_ok ?a" using no by (simp add: owed_ok_def)
  moreover have "ends ?a u" if "waits (a_at ?a u)" for u
  proof (cases "u = t")
    case True
    then show ?thesis by (auto simp: ends_def)
  next
    case False
    with that o no consider c' where "u \<in> set (a_wl a c')" | "a_sg a u" by (auto simp: waits_ok_def ends_def)
    then show ?thesis
    proof cases
      case 1
      then have "u \<in> set (a_wl ?a c')" by auto
      then show ?thesis unfolding ends_def by blast
    qed (use False in \<open>simp add: ends_def\<close>)
  qed
  then have "waits_ok ?a" by (simp add: waits_ok_def)
  ultimately show ?thesis by (simp add: wait_inv_def)
qed

lemma ends_other:
  assumes "ends a u" "a_wl a' = a_wl a" "a_sg a' u = a_sg a u" "a_at a' = (a_at a)(t := p)" "\<And>cs. a_at a t \<noteq> M_Sending cs"
  shows "ends a' u"
proof -
  have "v \<noteq> t" if "a_at a v = M_Sending cs" for v cs using that assms(5) by blast
  with assms(1-4) show ?thesis unfolding ends_def by (metis fun_upd_apply)
qed

lemma wait_inv_sleep:
  assumes "wait_inv pr a" "a_at a t = M_Queued"
  shows "wait_inv pr (to t M_Asleep a)" (is "wait_inv pr ?a")
  unfolding wait_inv_def
proof (intro conjI)
  have w: "waits (a_at ?a u) \<longleftrightarrow> waits (a_at a u)" for u using assms(2) by simp
  show "queued_ok pr ?a" using assms w by (simp add: wait_inv_def queued_ok_def)
  show "owed_ok ?a" using assms w by (auto simp: wait_inv_def owed_ok_def)
  show "waits_ok ?a" using assms w ends_other [of a _ ?a t] by (simp add: wait_inv_def waits_ok_def)
qed

lemma wait_inv_wake:
  assumes "wait_inv pr a" "a_at a t = M_Asleep" "a_sg a t"
  shows "wait_inv pr (to t M_Woken (a\<lparr>a_sg := (a_sg a)(t := False)\<rparr>))" (is "wait_inv pr ?a")
  unfolding wait_inv_def
proof (intro conjI)
  show "queued_ok pr ?a" using assms by (auto simp: wait_inv_def queued_ok_def)
  show "owed_ok ?a" using assms by (fastforce simp: wait_inv_def owed_ok_def)
  show "waits_ok ?a" using assms ends_other [of a _ ?a t] by (auto simp: wait_inv_def waits_ok_def)
qed

lemma queued_ok_sub:
  assumes "\<And>c. set (a_wl a' c) \<subseteq> set (a_wl a c)" "\<And>c. distinct (a_wl a' c)" "queued_ok pr a" "\<And>c. t \<notin> set (a_wl a c)"
    and "a_at a' = (a_at a)(t := p)" "a_sg a' = a_sg a"
  shows "queued_ok pr a'"
proof -
  have "u \<in> set (group pr c) \<and> waits (a_at a' u) \<and> \<not> a_sg a' u" if "u \<in> set (a_wl a' c)" for u c
  proof -
    have u: "u \<in> set (a_wl a c)" using that assms(1) by blast
    then have "u \<noteq> t" using assms(4) by blast
    with u assms(3,5,6) show ?thesis by (simp add: queued_ok_def)
  qed
  with assms(2) show ?thesis by (simp add: queued_ok_def)
qed

text \<open>Taking tasks \<open>ts\<close> off a list of waiters to signal them.\<close>

lemma wait_inv_notify:
  assumes "wait_inv pr a" "excl a" "prog_ok pr" "a_at a t = M_Notify" "a_wl a c = ts @ us"
  shows "wait_inv pr (to t (M_Sending (map sigc ts)) (a\<lparr>a_wl := (a_wl a)(c := us)\<rparr>))" (is "wait_inv pr ?a")
  unfolding wait_inv_def
proof (intro conjI)
  have q: "queued_ok pr a" and o: "waits_ok a" using assms(1) by (simp_all add: wait_inv_def)
  have no: "a_at a u \<noteq> M_Sending cs" for u cs
    using no_other_sender [OF assms(2), of t u cs] assms(4) by auto
  have ts: "distinct (ts @ us)" "\<And>u. u \<in> set ts \<Longrightarrow> u \<in> set (group pr c) \<and> waits (a_at a u) \<and> \<not> a_sg a u"
    using q assms(5) unfolding queued_ok_def by (metis, metis Un_iff set_append)
  have other: "u \<notin> set (a_wl a c')" if "u \<in> set ts" "c' \<noteq> c" for u c'
  proof
    assume "u \<in> set (a_wl a c')"
    then have "u \<in> set (group pr c')" using q by (simp add: queued_ok_def)
    with ts(2) [OF that(1)] that(2) prog_okD(1,2) [OF assms(3)] show False
      by (cases c; cases c') auto
  qed
  have t: "t \<notin> set (a_wl a c')" for c' using queued_waits [OF q, of t c'] assms(4) by auto
  have sub: "set (a_wl ?a c') \<subseteq> set (a_wl a c')" "distinct (a_wl ?a c')" for c'
    using q ts(1) assms(5) by (auto simp: queued_ok_def)
  from queued_ok_sub [OF sub q t] show "queued_ok pr ?a" by simp
  have "u \<noteq> t" if "u \<in> set ts" for u using ts(2) [OF that] assms(4) by auto
  with ts other show "owed_ok ?a" by (auto simp: owed_ok_def no intro!: exI [of _ ts])
  have "ends ?a u" if "waits (a_at ?a u)" for u
  proof -
    have "u \<noteq> t" "waits (a_at a u)" using that by (auto split: if_splits)
    then consider c' where "u \<in> set (a_wl a c')" | "a_sg a u" using o no by (auto simp: waits_ok_def ends_def)
    then show ?thesis
    proof cases
      case 1
      show ?thesis
      proof (cases "c' = c \<and> u \<in> set ts")
        case True
        then show ?thesis unfolding ends_def by (intro disjI2 exI [of _ t]) simp
      next
        case False
        with 1 assms(5) have "u \<in> set (a_wl ?a c')" by auto
        then show ?thesis unfolding ends_def by blast
      qed
    qed (simp add: ends_def)
  qed
  then show "waits_ok ?a" by (simp add: waits_ok_def)
qed

lemma wait_inv_send:
  assumes "wait_inv pr a" "excl a" "a_at a t = M_Sending (sigc u # cs)"
  shows "wait_inv pr (to t (M_Sending cs) (a\<lparr>a_sg := (a_sg a)(u := True)\<rparr>))" (is "wait_inv pr ?a")
  unfolding wait_inv_def
proof (intro conjI)
  have only: "v = t" if "a_at a v = M_Sending ds" for v ds
    using no_other_sender [OF assms(2) _ that, of t] assms(3) by simp
  obtain ts where ts: "cs = map sigc ts" "u \<notin> set ts" "distinct ts"
    "\<And>v. v = u \<or> v \<in> set ts \<Longrightarrow> waits (a_at a v) \<and> \<not> a_sg a v \<and> (\<forall>c. v \<notin> set (a_wl a c))"
  proof -
    have "\<exists>ts. sigc u # cs = map sigc ts \<and> distinct ts \<and>
        (\<forall>t\<in>set ts. waits (a_at a t) \<and> \<not> a_sg a t \<and> (\<forall>c. t \<notin> set (a_wl a c)))"
      using assms(1,3) by (simp add: wait_inv_def owed_ok_def)
    then obtain ts where "sigc u # cs = map sigc ts \<and> distinct ts \<and>
      (\<forall>t\<in>set ts. waits (a_at a t) \<and> \<not> a_sg a t \<and> (\<forall>c. t \<notin> set (a_wl a c)))" ..
    then show thesis using that by (cases ts) auto
  qed
  have q: "queued_ok pr a" using assms(1) by (simp add: wait_inv_def)
  have "t \<notin> set (a_wl a c')" for c' using queued_waits [OF q, of t c'] assms(3) by auto
  with q ts(4) [of u] show "queued_ok pr ?a" by (auto simp: queued_ok_def)
  have "v \<noteq> t" if "v \<in> set ts" for v using ts(4) [of v] that assms(3) by auto
  with ts have "\<forall>v\<in>set ts. waits (a_at ?a v) \<and> \<not> a_sg ?a v \<and> (\<forall>c. v \<notin> set (a_wl ?a c))" by auto
  moreover have "ds = cs" if "a_at ?a v = M_Sending ds" for v ds using that only by (auto split: if_splits)
  ultimately show "owed_ok ?a" unfolding owed_ok_def using ts(1,3) by blast
  have "ends ?a v" if "waits (a_at ?a v)" for v
  proof -
    have "v \<noteq> t" "waits (a_at a v)" using that by (auto split: if_splits)
    then have "ends a v" using assms(1) by (simp add: wait_inv_def waits_ok_def)
    then consider c where "v \<in> set (a_wl a c)" | "a_sg a v" | "sigc v \<in> set (sigc u # cs)"
      unfolding ends_def using only assms(3) by (metis mon_pc.inject)
    then show ?thesis by cases (auto simp: ends_def)
  qed
  then show "waits_ok ?a" by (simp add: waits_ok_def)
qed

lemma wait_inv_step:
  assumes "a_step pr t a a'" "wait_inv pr a" "excl a" "prog_ok pr"
  shows "wait_inv pr a'"
  using assms(1)
proof (cases rule: a_step.cases)
  case (a_wait c)
  with wait_inv_wait [OF assms(2,3)] show ?thesis by simp
next
  case (a_signal u us)
  with wait_inv_notify [OF assms(2-4), of t _ "[u]" us] show ?thesis by simp
next
  case a_broadcast
  with wait_inv_notify [OF assms(2-4), of t _ _ "[]"] show ?thesis by simp
next
  case (a_send u cs)
  with wait_inv_send [OF assms(2,3)] show ?thesis by simp
qed (auto intro!: wait_inv_quiet [OF assms(2)] simp: wait_inv_sleep [OF assms(2)] wait_inv_wake [OF assms(2)])

lemma sum_one:
  fixes f g :: "'a \<Rightarrow> nat"
  assumes "finite A" "t \<in> A" "\<And>u. u \<in> A \<Longrightarrow> u \<noteq> t \<Longrightarrow> f u = g u"
  shows "sum f A + g t = sum g A + f t"
proof -
  have "sum f (A - {t}) = sum g (A - {t})" using assms(3) by (intro sum.cong) auto
  then show ?thesis using assms(1,2) by (simp add: sum.remove [of A t])
qed

lemma wake_mono:
  assumes "wake_ok pr a" "a_wl a' c \<noteq> [] \<Longrightarrow> a_wl a c \<noteq> []" "room c a' \<le> room c a"
    and "\<And>u. u \<in> set (tasks pr) \<Longrightarrow> helps pr a c u \<le> helps pr a' c u"
  shows "a_wl a' c \<noteq> [] \<longrightarrow> room c a' \<le> (\<Sum>t\<in>set (tasks pr). helps pr a' c t)"
proof
  assume "a_wl a' c \<noteq> []"
  then have "room c a \<le> (\<Sum>t\<in>set (tasks pr). helps pr a c t)" using assms(1,2) by (simp add: wake_ok_def)
  also have "\<dots> \<le> (\<Sum>t\<in>set (tasks pr). helps pr a' c t)" using assms(4) by (rule sum_mono)
  finally show "room c a' \<le> (\<Sum>t\<in>set (tasks pr). helps pr a' c t)" using assms(3) by simp
qed

lemma wake_one:
  assumes "wake_ok pr a" "a_wl a' c = a_wl a c" "t \<in> set (tasks pr)"
    and "\<And>u. u \<in> set (tasks pr) \<Longrightarrow> u \<noteq> t \<Longrightarrow> helps pr a' c u = helps pr a c u"
    and "room c a' + helps pr a c t \<le> room c a + helps pr a' c t"
  shows "a_wl a' c \<noteq> [] \<longrightarrow> room c a' \<le> (\<Sum>t\<in>set (tasks pr). helps pr a' c t)"
  using assms(1,2,5) sum_one [of "set (tasks pr)" t "helps pr a' c" "helps pr a c", OF _ assms(3,4)]
  by (fastforce simp: wake_ok_def)

text \<open>Steps that keep lists and buffer help at least as much as before.\<close>

lemma wake_frame:
  assumes "wake_ok pr a" "a_wl b = a_wl a" "a_q b = a_q a" "a_at b = a_at a"
    and "\<And>c. helps pr a c t \<le> helps pr (to t p b) c t"
  shows "wake_ok pr (to t p b)"
  unfolding wake_ok_def
proof
  fix c
  show "a_wl (to t p b) c \<noteq> [] \<longrightarrow> room c (to t p b) \<le> (\<Sum>u\<in>set (tasks pr). helps pr (to t p b) c u)"
  proof (rule wake_mono [OF assms(1)])
    fix u assume "u \<in> set (tasks pr)"
    show "helps pr a c u \<le> helps pr (to t p b) c u"
      using assms(5) [of c] by (cases "u = t") (simp_all add: helps_def assms(2-4))
  qed (use assms(2) room_cong [OF assms(3)] in simp_all)
qed

lemma wake_wait:
  assumes "wake_ok pr a" "prog_ok pr" "t \<in> set (group pr c)" "a_at a t = M_Test" "must_wait pr c a"
  shows "wake_ok pr (to t M_Queued (a\<lparr>a_wl := (a_wl a)(c := a_wl a c @ [t]), a_sg := sg\<rparr>))" (is "wake_ok pr ?a")
  unfolding wake_ok_def
proof
  fix c'
  show "a_wl ?a c' \<noteq> [] \<longrightarrow> room c' ?a \<le> (\<Sum>u\<in>set (tasks pr). helps pr ?a c' u)"
  proof (cases "c' = c")
    case True
    with assms(5) have "room c' ?a = 0" by (cases c) (simp_all add: must_wait_def)
    then show ?thesis by simp
  next
    case False
    then have "t \<notin> set (group pr c')" using assms(3) prog_okD(1,2) [OF assms(2)] by (cases c; cases c') auto
    with False assms(4) have "helps pr a c' u \<le> helps pr ?a c' u" for u by (simp add: helps_def)
    with False show ?thesis by (intro wake_mono [OF assms(1)]) simp_all
  qed
qed

lemma wake_push:
  assumes "wake_ok pr a" "prog_ok pr" "t \<in> set (prods pr)" "a_at a t = M_Test" "length (a_q a) < Q_SIZE"
  shows "wake_ok pr (to t M_Notify (a\<lparr>a_q := a_q a @ [x], a_in := y, a_num := z\<rparr>))" (is "wake_ok pr ?a")
  unfolding wake_ok_def
proof
  fix c
  have t: "t \<in> set (tasks pr)" "t \<notin> set (conss pr)" using assms(3) prog_okD [OF assms(2)] by (simp_all add: tasks_def)
  show "a_wl ?a c \<noteq> [] \<longrightarrow> room c ?a \<le> (\<Sum>u\<in>set (tasks pr). helps pr ?a c u)"
    by (rule wake_one [OF assms(1) _ t(1)]) (use assms(3-5) t in \<open>cases c; simp add: helps_def\<close>)+
qed

lemma wake_pop:
  assumes "wake_ok pr a" "prog_ok pr" "t \<in> set (conss pr)" "a_at a t = M_Test" "a_q a = x # q" "length (a_q a) \<le> Q_SIZE"
  shows "wake_ok pr (to t M_Notify (a\<lparr>a_q := q, a_out := y\<rparr>))" (is "wake_ok pr ?a")
  unfolding wake_ok_def
proof
  fix c
  have t: "t \<in> set (tasks pr)" "t \<notin> set (prods pr)" using assms(3) prog_okD [OF assms(2)] by (simp_all add: tasks_def)
  show "a_wl ?a c \<noteq> [] \<longrightarrow> room c ?a \<le> (\<Sum>u\<in>set (tasks pr). helps pr ?a c u)"
    by (rule wake_one [OF assms(1) _ t(1)]) (use assms(3-6) t in \<open>cases c; simp add: helps_def\<close>)+
qed

lemma wake_leave:
  assumes "wake_ok pr a" "prog_ok pr" "t \<in> set (conss pr)" "a_at a t = M_Test" "a_q a = []"
  shows "wake_ok pr (to t M_Leave a)" (is "wake_ok pr ?a")
  unfolding wake_ok_def
proof
  fix c
  show "a_wl ?a c \<noteq> [] \<longrightarrow> room c ?a \<le> (\<Sum>u\<in>set (tasks pr). helps pr ?a c u)"
  proof (cases c)
    case NotFull
    then have "helps pr a c u \<le> helps pr ?a c u" for u
      using assms(3,4) prog_okD(2) [OF assms(2)] by (simp add: helps_def)
    then show ?thesis by (intro wake_mono [OF assms(1)]) simp_all
  qed (simp add: assms(5))
qed

lemma wake_signal:
  assumes "wake_ok pr a" "prog_ok pr" "t \<in> set (prods pr @ conss pr)" "a_at a t = M_Notify"
    and "a_wl a (signals pr t) = u # us" "queued_ok pr a"
  shows "wake_ok pr (to t (M_Sending cs) (a\<lparr>a_wl := (a_wl a)(signals pr t := us)\<rparr>))" (is "wake_ok pr ?a")
  unfolding wake_ok_def
proof
  fix c
  let ?T = "set (tasks pr)" and ?c = "signals pr t"
  have u: "u \<in> set (group pr ?c)" "waits (a_at a u)" "u \<notin> set us"
    using assms(5,6) unfolding queued_ok_def by (metis list.set_intros(1), metis list.set_intros(1), metis distinct.simps(2))
  have t: "t \<in> ?T" "t \<notin> set (group pr ?c)" "u \<noteq> t"
    using assms(3,4) prog_okD [OF assms(2)] u(2) by (auto simp: signals_def tasks_def)
  have uT: "u \<in> ?T" using u(1) group_tasks(2) by blast
  show "a_wl ?a c \<noteq> [] \<longrightarrow> room c ?a \<le> (\<Sum>v\<in>?T. helps pr ?a c v)"
  proof (cases "c = ?c")
    case False
    then have "t \<in> set (group pr c)" using assms(3) by (cases c) (auto simp: signals_def split: if_splits)
    with False assms(4) have "helps pr a c v \<le> helps pr ?a c v" for v by (simp add: helps_def)
    with False show ?thesis by (intro wake_mono [OF assms(1)]) simp_all
  next
    case True
    have "(\<Sum>v\<in>?T - {t}. helps pr ?a c v) = Suc (\<Sum>v\<in>?T - {t}. helps pr a c v)"
    proof -
      have "sum (helps pr ?a c) (?T - {t}) + helps pr a c u = sum (helps pr a c) (?T - {t}) + helps pr ?a c u"
        by (rule sum_one) (use uT t True assms(5) in \<open>auto simp: helps_def\<close>)
      moreover have "helps pr a c u = 0" "helps pr ?a c u = 1"
        using u t(3) True assms(5) by (auto simp: helps_def waits_def)
      ultimately show ?thesis by simp
    qed
    moreover have "helps pr a c t = 1" using t True assms(3,4) by (simp add: helps_def)
    ultimately have "(\<Sum>v\<in>?T. helps pr a c v) \<le> (\<Sum>v\<in>?T. helps pr ?a c v)"
      using t(1) by (simp add: sum.remove [of ?T t])
    moreover have "room c a \<le> (\<Sum>v\<in>?T. helps pr a c v)" using assms(1,5) True by (simp add: wake_ok_def)
    moreover have "room c ?a = room c a" by simp
    ultimately show ?thesis by simp
  qed
qed

lemma wake_step:
  assumes "a_step pr t a a'" "wake_ok pr a" "prog_ok pr" "queued_ok pr a" "data_ok pr a"
  shows "wake_ok pr a'"
proof -
  have len: "length (a_q a) \<le> Q_SIZE" using assms(5) by (simp add: data_ok_def)
  from assms(1) show ?thesis
  proof (cases rule: a_step.cases)
    case (a_wait c)
    with wake_wait [OF assms(2,3)] show ?thesis by simp
  next
    case (a_push x)
    with wake_push [OF assms(2,3)] show ?thesis by simp
  next
    case (a_pop x q)
    with wake_pop [OF assms(2,3)] len show ?thesis by simp
  next
    case a_leave
    with wake_leave [OF assms(2,3)] show ?thesis by simp
  next
    case (a_signal u us)
    with wake_signal [OF assms(2,3) _ _ _ assms(4)] show ?thesis by simp
  next
    case a_signal0
    have "a_wl a' c \<noteq> [] \<longrightarrow> room c a' \<le> (\<Sum>t\<in>set (tasks pr). helps pr a' c t)" for c
    proof (cases "c = signals pr t")
      case False
      then have "t \<in> set (group pr c)" using a_signal0(2) by (cases c) (auto simp: signals_def split: if_splits)
      then have "helps pr a c u \<le> helps pr a' c u" for u using a_signal0(1,3) by (simp add: helps_def)
      then show ?thesis using a_signal0(1) by (intro wake_mono [OF assms(2)]) simp_all
    qed (use a_signal0(1,4) in simp)
    then show ?thesis by (simp add: wake_ok_def)
  next
    case a_broadcast
    have "a_wl a' c \<noteq> [] \<longrightarrow> room c a' \<le> (\<Sum>t\<in>set (tasks pr). helps pr a' c t)" for c
    proof (cases c)
      case NotFull
      then have "helps pr a c u \<le> helps pr a' c u" for u
        using a_broadcast prog_okD(3,4) [OF assms(3)] by (simp add: helps_def)
      then show ?thesis using a_broadcast(1) NotFull by (intro wake_mono [OF assms(2)]) simp_all
    qed (use a_broadcast(1) in simp)
    then show ?thesis by (simp add: wake_ok_def)
  next
    case a_wake
    have "t \<notin> set (a_wl a c)" for c using assms(4) a_wake(4) by (auto simp: queued_ok_def)
    with a_wake show ?thesis by (simp add: wake_frame [OF assms(2)] helps_def)
  qed (simp_all add: wake_frame [OF assms(2)] helps_def)
qed

lemma all_pushed:
  assumes "data_ok pr a" "prog_ok pr"
  shows "length (a_in a) \<le> target pr" "\<forall>t\<in>set (prods pr). a_at a t = M_Done \<Longrightarrow> length (a_in a) = target pr"
proof -
  have card: "card (set (prods pr)) = length (prods pr)"
    using assms(2) by (simp add: prog_ok_def tasks_def distinct_card)
  have len: "length (a_in a) = (\<Sum>t\<in>set (prods pr). a_num a t)" using assms(1) by (simp add: data_ok_def)
  also have "\<dots> \<le> (\<Sum>t\<in>set (prods pr). n_items pr)"
    by (rule sum_mono) (use assms(1) in \<open>simp add: data_ok_def\<close>)
  finally show "length (a_in a) \<le> target pr" by (simp add: target_def card)
  assume "\<forall>t\<in>set (prods pr). a_at a t = M_Done"
  then have "(\<Sum>t\<in>set (prods pr). a_num a t) = (\<Sum>t\<in>set (prods pr). n_items pr)"
    using assms(1) by (intro sum.cong) (simp_all add: data_ok_def)
  with len show "length (a_in a) = target pr" by (simp add: target_def card)
qed

lemma last_to:
  assumes "last_ok pr a" "prog_ok pr" "a_wl a NotEmpty = [] \<Longrightarrow> a_wl b NotEmpty = []" "a_out b = a_out a" "a_at b = a_at a"
    and "t = main_task pr \<Longrightarrow> p \<notin> {M_Lock, M_Notify} \<Longrightarrow> a_wl b NotEmpty = []"
    and "t = main_task pr \<Longrightarrow> p \<noteq> M_Lock \<Longrightarrow> \<forall>u\<in>set (prods pr). a_at a u = M_Done"
    and "t \<in> set (prods pr) \<Longrightarrow> p = M_Done \<or> a_at a t \<noteq> M_Done"
    and "t \<in> set (conss pr) \<Longrightarrow> p = M_Leave \<or> p = M_Done \<Longrightarrow> length (a_out a) = target pr"
  shows "last_ok pr (to t p b)"
  unfolding last_ok_def
proof (intro conjI)
  note pr = prog_okD [OF assms(2)]
  show "a_at (to t p b) (main_task pr) \<notin> {M_Lock, M_Notify} \<longrightarrow> a_wl (to t p b) NotEmpty = []"
    using assms(1,3,5,6) by (auto simp: last_ok_def)
  show "a_at (to t p b) (main_task pr) \<noteq> M_Lock \<longrightarrow> (\<forall>t'\<in>set (prods pr). a_at (to t p b) t' = M_Done)"
    using assms(1,5,7,8) pr(3) by (cases "t = main_task pr") (auto simp: last_ok_def)
  show "\<forall>u\<in>set (conss pr). a_at (to t p b) u = M_Leave \<or> a_at (to t p b) u = M_Done \<longrightarrow> length (a_out (to t p b)) = target pr"
    using assms(1,4,5,9) by (auto simp: last_ok_def)
qed

lemma last_pop:
  assumes "last_ok pr a" "prog_ok pr" "data_ok pr a" "t \<in> set (conss pr)" "a_at a t = M_Test" "a_q a = x # q"
  shows "last_ok pr (to t M_Notify (a\<lparr>a_q := q, a_out := a_out a @ [x]\<rparr>))"
proof -
  have "length (a_out a) \<noteq> target pr"
    using all_pushed(1) [OF assms(3,2)] assms(3,6) by (simp add: data_ok_def)
  then have "\<forall>u\<in>set (conss pr). a_at a u \<noteq> M_Leave \<and> a_at a u \<noteq> M_Done" using assms(1) by (auto simp: last_ok_def)
  moreover have "t \<noteq> main_task pr" "t \<notin> set (prods pr)" using assms(4) prog_okD [OF assms(2)] by auto
  ultimately show ?thesis using assms(1) by (auto simp: last_ok_def)
qed

lemma last_step:
  assumes "a_step pr t a a'" "last_ok pr a" "prog_ok pr" "data_ok pr a" "roles pr a"
  shows "last_ok pr a'"
proof -
  note pr = prog_okD [OF assms(3)]
  note to = last_to [OF assms(2,3)]
  have le: "length (a_out a) + length (a_q a) \<le> target pr"
    using all_pushed(1) [OF assms(4,3)] assms(4) by (simp add: data_ok_def)
  have main: "\<forall>u\<in>set (prods pr). a_at a u = M_Done" if "a_at a (main_task pr) \<noteq> M_Lock"
    using that assms(2) by (simp add: last_ok_def)
  have wl: "a_wl a NotEmpty = []" if "a_at a (main_task pr) \<noteq> M_Lock" "a_at a (main_task pr) \<noteq> M_Notify"
    using that assms(2) by (simp add: last_ok_def)
  have not_main: "t \<noteq> main_task pr" if "waits (a_at a t) \<or> a_at a t = M_Woken \<or> a_at a t = M_Test \<or> a_at a t = M_Leave"
    using that pr(3,4) assms(5) by (auto simp: roles_def)
  from assms(1) show ?thesis
  proof (cases rule: a_step.cases)
    case (a_wait c)
    have "a_at a (main_task pr) = M_Lock \<or> a_at a (main_task pr) = M_Notify" if c: "c = NotEmpty"
    proof (rule ccontr)
      assume "\<not> ?thesis"
      then have "length (a_in a) = target pr" using all_pushed(2) [OF assms(4,3)] main by blast
      with a_wait(4) c assms(4) show False by (simp add: must_wait_def data_ok_def)
    qed
    with a_wait(1,3) not_main assms(2) show ?thesis by (cases c) (auto simp: last_ok_def)
  next
    case (a_pop x q)
    with last_pop [OF assms(2-4)] show ?thesis by simp
  next
    case a_leave
    with le not_main pr show ?thesis by (auto intro!: to)
  next
    case a_exit
    moreover have "length (a_out a) = target pr" using a_exit(2,3) assms(2) by (simp add: last_ok_def)
    ultimately show ?thesis using not_main pr by (auto intro!: to)
  next
    case (a_signal u us)
    have "a_wl a NotEmpty = [] \<Longrightarrow> ((a_wl a)(signals pr t := us)) NotEmpty = []" using a_signal(4) by auto
    with a_signal pr show ?thesis by (auto intro!: to)
  next
    case a_unlock
    then show ?thesis using pr main wl by (auto intro!: to)
  next
    case a_over
    then show ?thesis using pr by (auto intro!: to)
  next
    case a_sent
    then show ?thesis using pr main wl by (auto intro!: to)
  next
    case (a_send u cs)
    then show ?thesis using pr main wl by (auto intro!: to)
  qed (use pr not_main main in \<open>auto intro!: to\<close>)
qed

lemma a_inv_step: "a_step pr t a a' \<Longrightarrow> prog_ok pr \<Longrightarrow> a_inv pr a \<Longrightarrow> a_inv pr a'"
  using excl_step [of pr t a a'] roles_step [of pr t a a'] wait_inv_step [of pr t a a'] data_step [of pr t a a']
    wake_step [of pr t a a'] last_step [of pr t a a']
  by (simp add: a_inv_def wait_inv_def)

end
