(* ===== verification/BufferRuns.thy ===== *)
theory BufferRuns
  imports BufferSpec
begin

text \<open>
  The bounded buffer of \<open>BufferSpec\<close> neither blocks nor runs for ever: in a state with its
  invariant some task can take a step until all have finished, and a weight decreases with every step,
  whichever task takes it.
\<close>

section \<open>Nobody is stuck\<close>

text \<open>A task that is inside can go on.\<close>

lemma inside_steps:
  assumes "a_inv pr a" "prog_ok pr" "holds (a_at a t)"
  shows "\<exists>a'. a_step pr t a a'"
proof -
  have roles: "roles pr a" using assms(1) by (simp add: a_inv_def)
  then have t: "t \<in> set (tasks pr)" using assms(3) by (auto simp: roles_def)
  then consider "t = main_task pr" | "t \<in> set (prods pr)" | "t \<in> set (conss pr)" by (auto simp: tasks_def)
  note role = this
  show ?thesis
  proof (cases "a_at a t")
    case M_Test
    then have "t \<in> set (prods pr) \<or> t \<in> set (conss pr)" using roles by (auto simp: roles_def)
    then show ?thesis
    proof
      assume p: "t \<in> set (prods pr)"
      have "length (a_q a) \<le> Q_SIZE" using assms(1) by (simp add: a_inv_def data_ok_def)
      then consider "length (a_q a) < Q_SIZE" | "must_wait pr NotFull a" by (fastforce simp: must_wait_def)
      then show ?thesis using a_push [OF p M_Test] a_wait [of t pr NotFull a] p M_Test by cases auto
    next
      assume c: "t \<in> set (conss pr)"
      show ?thesis
      proof (cases "a_q a")
        case Nil
        then consider "target pr \<le> length (a_out a)" | "must_wait pr NotEmpty a" by (fastforce simp: must_wait_def)
        then show ?thesis
          using a_leave [OF c M_Test Nil] a_wait [of t pr NotEmpty a] c M_Test by cases auto
      qed (use a_pop [OF c M_Test] in blast)
    qed
  next
    case M_Notify
    show ?thesis
    proof (cases "t = main_task pr")
      case False
      then have "t \<in> set (prods pr @ conss pr)" using t by (simp add: tasks_def)
      then show ?thesis
        using a_signal0 [of t pr a] a_signal [of t pr a] M_Notify by (cases "a_wl a (signals pr t)") blast+
    qed (use a_broadcast M_Notify in blast)
  next
    case (M_Sending cs)
    then obtain ts where "cs = map sigc ts" using assms(1) unfolding a_inv_def owed_ok_def by metis
    then show ?thesis using a_sent [OF t, of a] a_send [OF t, of a] M_Sending by (cases ts) (simp, blast)+
  next
    case M_Leave
    then have "t \<in> set (conss pr)" using roles by (auto simp: roles_def)
    with M_Leave show ?thesis using a_exit by blast
  qed (use assms(3) a_sleep [OF t] a_unlock [OF t] in auto)
qed

text \<open>Where nobody can take a step, everybody outside has finished or waits in a ring.\<close>

lemma stuck_pcs:
  assumes "a_inv pr a" "prog_ok pr" "\<And>t a'. \<not> a_step pr t a a'"
  shows "free a" "t \<in> set (prods pr @ conss pr) \<Longrightarrow> a_at a t = M_Done \<or> (a_at a t = M_Asleep \<and> (\<exists>c. t \<in> set (a_wl a c)))"
proof -
  show free: "free a" using inside_steps [OF assms(1,2)] assms(3) by (auto simp: free_def)
  assume t: "t \<in> set (prods pr @ conss pr)"
  then have T: "t \<in> set (tasks pr)" by (auto simp: tasks_def)
  have out: "\<not> holds (a_at a t)" using free by (simp add: free_def)
  have no: "a_at a u \<noteq> M_Sending cs" for u cs using free by (metis free_def holds.simps(4))
  show "a_at a t = M_Done \<or> (a_at a t = M_Asleep \<and> (\<exists>c. t \<in> set (a_wl a c)))"
  proof (cases "a_at a t")
    case M_Lock
    consider "t \<in> set (prods pr)" "n_items pr \<le> a_num a t" | "t \<in> set (prods pr) \<and> a_num a t < n_items pr \<or> t \<in> set (conss pr)"
      using t by fastforce
    then show ?thesis using a_over [of t pr a] a_lock [of t pr a] M_Lock free assms(3) by cases blast+
  next
    case M_Woken
    with a_relock [OF T] free assms(3) show ?thesis by blast
  next
    case M_Asleep
    with a_wake [OF T] assms(3) have "\<not> a_sg a t" by blast
    moreover have "ends a t" using assms(1) M_Asleep by (simp add: a_inv_def waits_ok_def)
    ultimately show ?thesis using M_Asleep no by (simp add: ends_def)
  qed (use out in simp_all)
qed

lemma nobody_stuck:
  assumes "a_inv pr a" "prog_ok pr" "t \<in> set (tasks pr)" "a_at a t \<noteq> M_Done"
  shows "\<exists>u a'. a_step pr u a a'"
proof (rule ccontr)
  assume "\<not> ?thesis"
  then have no: "\<And>u a'. \<not> a_step pr u a a'" by blast
  note stuck = stuck_pcs [OF assms(1,2) no]
  have inv: "queued_ok pr a" "data_ok pr a" "wake_ok pr a" "last_ok pr a" "roles pr a" using assms(1) by (simp_all add: a_inv_def)
  have own: "u \<in> set (a_wl a c) \<Longrightarrow> u \<in> set (group pr c)" for u c using inv(1) by (simp add: queued_ok_def)
  have "helps pr a c u = 0" for c u
  proof -
    have "u \<in> set (a_wl a c)" if "u \<in> set (group pr c)" "a_at a u = M_Asleep"
    proof -
      have "u \<in> set (prods pr @ conss pr)" using that(1) group_tasks(1) by blast
      with stuck(2) [of u] that(2) obtain c' where "u \<in> set (a_wl a c')" by auto
      moreover from own [OF this] that(1) prog_okD(1,2) [OF assms(2)] have "c' = c" by (cases c; cases c') auto
      ultimately show ?thesis by simp
    qed
    moreover have "a_at a u = M_Done \<or> a_at a u = M_Asleep" if "u \<in> set (prods pr @ conss pr)" using stuck(2) [OF that] by blast
    moreover have "a_at a u \<noteq> M_Queued" using stuck(1) by (metis free_def holds.simps(2))
    ultimately show ?thesis using group_tasks(1) [of pr c] by (auto simp: helps_def waits_def)
  qed
  then have room: "a_wl a c \<noteq> [] \<Longrightarrow> room c a = 0" for c using inv(3) by (simp add: wake_ok_def)
  have finished: "a_at a u = M_Done" if "a_wl a c = []" "u \<in> set (group pr c)" for c u
  proof -
    have "u \<in> set (prods pr @ conss pr)" using that(2) group_tasks(1) by blast
    moreover have "u \<notin> set (a_wl a c')" for c'
      using own [of u c'] that prog_okD(1,2) [OF assms(2)] by (cases c; cases c') auto
    ultimately show ?thesis using stuck(2) by blast
  qed
  show False
  proof (cases "a_wl a NotFull = []")
    case False
    then have q: "Q_SIZE \<le> length (a_q a)" using room [OF False] by simp
    then have "a_wl a NotEmpty = []" using room [of NotEmpty] by (cases "a_wl a NotEmpty = []") auto
    then have "\<forall>u\<in>set (conss pr). a_at a u = M_Done" using finished by simp
    moreover obtain u where "u \<in> set (conss pr)" using assms(2) by (cases "conss pr") (auto simp: prog_ok_def)
    ultimately have "length (a_out a) = target pr" using inv(4) by (auto simp: last_ok_def)
    with q all_pushed(1) [OF inv(2) assms(2)] inv(2) show False by (simp add: data_ok_def)
  next
    case True
    then have prods: "\<forall>u\<in>set (prods pr). a_at a u = M_Done" using finished by simp
    have "a_at a (main_task pr) \<noteq> M_Lock" using a_join [OF refl _ stuck(1) prods] no by blast
    moreover have "a_at a (main_task pr) = M_Lock \<or> a_at a (main_task pr) = M_Done"
      using stuck(1) inv(5) prog_okD(3,4) [OF assms(2)]
      by (cases "a_at a (main_task pr)") (auto simp: free_def roles_def dest!: spec [of _ "main_task pr"])
    ultimately have main: "a_at a (main_task pr) = M_Done" by blast
    then have "a_wl a NotEmpty = []" using inv(4) by (simp add: last_ok_def)
    then have "\<forall>u\<in>set (conss pr). a_at a u = M_Done" using finished by simp
    with prods main assms(3,4) show False by (auto simp: tasks_def)
  qed
qed

section \<open>Every run is finite\<close>

text \<open>
  What a task may still do before it waits again or has to push or pop. A task that has been taken
  off a list of waiters has four steps more, which are paid for by the signal; pushes and pops
  are ten each.
\<close>

fun base :: "mon_pc \<Rightarrow> nat" where
  "base M_Lock = 3"
| "base M_Test = 2"
| "base M_Queued = 1"
| "base M_Asleep = 0"
| "base M_Woken = 3"
| "base M_Notify = 11"
| "base (M_Sending cs) = 5 + length cs"
| "base M_Unlock = 4"
| "base M_Leave = 1"
| "base M_Done = 0"

fun extra :: "mon_pc \<Rightarrow> nat" where
  "extra M_Lock = 200"
| "extra M_Notify = 180"
| "extra _ = 0"

definition weight :: "buffer_prog \<Rightarrow> amon \<Rightarrow> ptr \<Rightarrow> nat" where
  "weight pr a t = base (a_at a t) + (if waits (a_at a t) \<and> (\<forall>c. t \<notin> set (a_wl a c)) then 4 else 0) +
     of_bool (t = main_task pr) * extra (a_at a t)"

definition total :: "buffer_prog \<Rightarrow> amon \<Rightarrow> nat" where
  "total pr a = 10 * (target pr - length (a_in a)) + 10 * (target pr - length (a_out a)) +
     (\<Sum>t\<in>set (tasks pr). weight pr a t)"

lemma total_one:
  assumes "t \<in> set (tasks pr)" "\<And>u. u \<noteq> t \<Longrightarrow> weight pr a' u = weight pr a u"
    and "10 * (target pr - length (a_in a')) + 10 * (target pr - length (a_out a')) + weight pr a' t
      < 10 * (target pr - length (a_in a)) + 10 * (target pr - length (a_out a)) + weight pr a t"
  shows "total pr a' < total pr a"
  using assms(3) sum_one [of "set (tasks pr)" t "weight pr a'" "weight pr a"] assms(1,2) by (simp add: total_def)

lemma weight_same:
  "a_at a' u = a_at a u \<Longrightarrow> (\<And>c. u \<in> set (a_wl a' c) \<longleftrightarrow> u \<in> set (a_wl a c)) \<Longrightarrow> weight pr a' u = weight pr a u"
  by (simp add: weight_def)

lemma weight_le4: "a_at a' u = a_at a u \<Longrightarrow> weight pr a' u \<le> weight pr a u + 4"
  by (simp add: weight_def)

text \<open>Taking \<open>ts\<close> off a list of waiters.\<close>

lemma total_notify:
  assumes "t \<in> set (tasks pr)" "a_at a t = M_Notify" "a_wl a c = ts @ us" "5 + 5 * length ts < 11 + of_bool (t = main_task pr) * 180"
  shows "total pr (to t (M_Sending (map sigc ts)) (a\<lparr>a_wl := (a_wl a)(c := us)\<rparr>)) < total pr a" (is "total pr ?a < _")
proof -
  let ?T = "set (tasks pr)" and ?s = "\<lambda>u. if u \<in> set ts then 4 else 0 :: nat"
  have "weight pr ?a u \<le> weight pr a u + ?s u" if "u \<noteq> t" for u
  proof (cases "u \<in> set ts")
    case True
    with that show ?thesis using weight_le4 [of ?a u a pr] by simp
  next
    case False
    then have "u \<in> set (a_wl ?a c') \<longleftrightarrow> u \<in> set (a_wl a c')" for c' using assms(3) by auto
    with that show ?thesis using weight_same [of ?a u a pr] by simp
  qed
  then have "(\<Sum>u\<in>?T - {t}. weight pr ?a u) \<le> (\<Sum>u\<in>?T - {t}. weight pr a u + ?s u)" by (intro sum_mono) simp
  also have "\<dots> = (\<Sum>u\<in>?T - {t}. weight pr a u) + (\<Sum>u\<in>?T - {t}. ?s u)" by (rule sum.distrib)
  also have "(\<Sum>u\<in>?T - {t}. ?s u) \<le> 4 * length ts"
  proof -
    have "(\<Sum>u\<in>?T - {t}. ?s u) = (\<Sum>u\<in>(?T - {t}) \<inter> set ts. 4)" by (subst sum.inter_restrict) simp_all
    also have "\<dots> \<le> 4 * card (set ts)" by (simp add: card_mono)
    finally show ?thesis using card_length [of ts] by linarith
  qed
  finally have "(\<Sum>u\<in>?T - {t}. weight pr ?a u) \<le> (\<Sum>u\<in>?T - {t}. weight pr a u) + 4 * length ts" by simp
  moreover have "weight pr ?a t + 4 * length ts < weight pr a t" using assms(2,4) by (simp add: weight_def)
  ultimately have "(\<Sum>u\<in>?T. weight pr ?a u) < (\<Sum>u\<in>?T. weight pr a u)"
    using assms(1) by (simp add: sum.remove [of ?T t])
  then show ?thesis by (simp add: total_def)
qed

text \<open>A step that changes neither lists nor buffer.\<close>

lemma total_to:
  assumes "t \<in> set (tasks pr)" "a_wl b = a_wl a" "a_in b = a_in a" "a_out b = a_out a" "a_at b = a_at a"
    and "weight pr (to t p b) t < weight pr a t"
  shows "total pr (to t p b) < total pr a"
proof (rule total_one [OF assms(1)])
  show "weight pr (to t p b) u = weight pr a u" if "u \<noteq> t" for u
    by (rule weight_same) (use that assms(2,5) in simp_all)
qed (use assms(3,4,6) in simp)

lemma total_step:
  assumes "a_step pr t a a'" "a_inv pr a" "prog_ok pr"
  shows "total pr a' < total pr a"
proof -
  note pr = prog_okD [OF assms(3)]
  have inv: "data_ok pr a" "queued_ok pr a" "roles pr a" using assms(2) by (simp_all add: a_inv_def)
  have le: "length (a_out a) + length (a_q a) \<le> target pr" "length (a_in a) \<le> target pr"
    using all_pushed(1) [OF inv(1) assms(3)] inv(1) by (simp_all add: data_ok_def)
  have not_main: "t \<noteq> main_task pr" if "waits (a_at a t) \<or> a_at a t = M_Woken \<or> a_at a t = M_Test \<or> a_at a t = M_Leave"
    using that pr(3,4) inv(3) by (auto simp: roles_def)
  from assms(1) show ?thesis
  proof (cases rule: a_step.cases)
    case (a_wait c)
    have "weight pr a' u = weight pr a u" if "u \<noteq> t" for u using that a_wait(1) by (intro weight_same) auto
    moreover have "t \<in> set (a_wl a' c)" using a_wait(1) by simp
    ultimately show ?thesis
      using a_wait(1,3) group_tasks(2) [of pr c] a_wait(2) not_main
      by (intro total_one [of t]) (auto simp: weight_def)
  next
    case (a_push x)
    have "length (a_in a) < target pr"
      using all_pushed(1) [OF data_step [OF assms(1) inv(1) assms(3)] assms(3)] a_push(1) by simp
    then show ?thesis
      using a_push not_main in_tasks(1) [of t pr] by (intro total_one [of t]) (auto simp: weight_def)
  next
    case (a_pop x q)
    then show ?thesis
      using le(1) not_main in_tasks(2) [of t pr] by (intro total_one [of t]) (auto simp: weight_def)
  next
    case (a_signal u us)
    then show ?thesis using total_notify [of t pr a "signals pr t" "[u]" us] in_tasks(1,2) [of t pr] by auto
  next
    case a_broadcast
    have "distinct (a_wl a NotEmpty)" "set (a_wl a NotEmpty) \<subseteq> set (conss pr)" using inv(2) by (auto simp: queued_ok_def dest!: spec [of _ NotEmpty])
    then have "length (a_wl a NotEmpty) \<le> length (conss pr)"
      by (metis card_length card_mono distinct_card finite_set le_trans)
    then show ?thesis
      using total_notify [of t pr a NotEmpty "a_wl a NotEmpty" "[]"] a_broadcast in_tasks(3) [of pr] assms(3)
      by (simp add: prog_ok_def)
  next
    case a_wake
    have "t \<notin> set (a_wl a c)" for c using inv(2) a_wake(4) by (auto simp: queued_ok_def)
    with a_wake show ?thesis by (auto intro!: total_to simp: weight_def)
  qed (use in_tasks(1,2) [of t pr] in_tasks(3) [of pr] not_main in \<open>auto intro!: total_to simp: weight_def\<close>)
qed

section \<open>Runs\<close>

definition a_start :: "buffer_prog \<Rightarrow> amon \<Rightarrow> bool" where
  "a_start pr a \<longleftrightarrow> a_at a = (\<lambda>t. if t \<in> set (tasks pr) then M_Lock else M_Done) \<and> a_wl a = (\<lambda>_. []) \<and>
     a_q a = [] \<and> a_num a = (\<lambda>_. 0) \<and> a_in a = [] \<and> a_out a = []"

lemma a_inv_start:
  assumes "a_start pr a" "prog_ok pr"
  shows "a_inv pr a"
proof -
  note d = assms(1) [unfolded a_start_def]
  have "excl a" "roles pr a" "queued_ok pr a" "owed_ok a" "waits_ok a" "wake_ok pr a" "last_ok pr a"
    using d in_tasks(1,2) [of _ pr] in_tasks(3) [of pr]
    by (auto simp: excl_def roles_def queued_ok_def owed_ok_def waits_ok_def wake_ok_def last_ok_def)
  moreover have "data_ok pr a" using d in_tasks(1) [of _ pr] by (auto simp: data_ok_def)
  ultimately show ?thesis by (simp add: a_inv_def)
qed

lemma total_start: "a_start pr a \<Longrightarrow> total pr a = 20 * target pr + 3 * card (set (tasks pr)) + 200"
proof -
  assume a: "a_start pr a"
  have "(\<Sum>t\<in>set (tasks pr). weight pr a t) = (\<Sum>t\<in>set (tasks pr). 3 + of_bool (t = main_task pr) * 200)"
    using a by (intro sum.cong) (simp_all add: weight_def a_start_def)
  also have "\<dots> = 3 * card (set (tasks pr)) + 200"
    by (simp add: sum.distrib in_tasks(3) flip: sum_distrib_right)
  finally show ?thesis using a by (simp add: total_def a_start_def)
qed

end
