(* ===== verification/Monitor.thy ===== *)
theory Monitor
  imports BufferRuns Locks
begin

text \<open>
  Mutex and condition variables of \<open>osal_lock.c\<close> at work together: the bounded queue of
  \<open>tests/phase1/test_cv.c\<close>, with its producers, its consumers and its main task, on the mutex
  (over exec's semaphore, a parameter) and on two rings of waiters. A step is what one task does between two
  points at which exec can switch to another: a call of the mutex, a ring operation under its
  guard, a \<open>Signal\<close>, a \<open>Wait\<close>, or its accesses to the queue, which it makes with the mutex held.
\<close>

section \<open>The queue\<close>

record bbuf =
  g_q :: "int32 list"
  g_qhead :: int32
  g_qtail :: int32
  g_qcount :: int32

definition bb_put :: "int32 \<Rightarrow> bbuf \<Rightarrow> bbuf" where
  "bb_put item b = b\<lparr>g_q := aset (g_q b) (g_qhead b) item, g_qhead := (g_qhead b + 1) mod int Q_SIZE,
     g_qcount := g_qcount b + 1\<rparr>"

definition bb_take :: "bbuf \<Rightarrow> int32 \<times> bbuf" where
  "bb_take b = (aget (g_q b) (g_qtail b),
     b\<lparr>g_qtail := (g_qtail b + 1) mod int Q_SIZE, g_qcount := g_qcount b - 1\<rparr>)"

definition bb_wf :: "bbuf \<Rightarrow> bool" where
  "bb_wf b \<longleftrightarrow> length (g_q b) = Q_SIZE \<and> 0 \<le> g_qtail b \<and> g_qtail b < int Q_SIZE \<and> 0 \<le> g_qcount b \<and>
     g_qcount b \<le> int Q_SIZE \<and> g_qhead b = (g_qtail b + g_qcount b) mod int Q_SIZE"

definition bb_push :: "int32 \<Rightarrow> bbuf \<Rightarrow> bbuf option" where
  "bb_push item b = (if g_qcount b = int Q_SIZE then None else Some (bb_put item b))"

definition bb_pop :: "bbuf \<Rightarrow> (int32 \<times> bbuf) option" where
  "bb_pop b = (if g_qcount b = 0 then None else Some (bb_take b))"

definition bb_items :: "bbuf \<Rightarrow> int32 list" where
  "bb_items b = window (g_q b) (nat (g_qtail b)) (nat (g_qcount b))"

interpretation bbq: ring_queue bb_wf g_q "\<lambda>b. nat (g_qtail b)" "\<lambda>b. nat (g_qcount b)" bb_push bb_pop
proof (unfold_locales, goal_cases)
  case (3 q x q')
  then have q': "q' = bb_put x q" and lt: "g_qcount q < 4" by (auto simp: bb_push_def bb_wf_def split: if_splits)
  have "bb_wf q'" using 3(1) lt by (auto simp: q' bb_put_def bb_wf_def ring_push_tail)
  moreover have "nat (g_qhead q) = (nat (g_qtail q) + nat (g_qcount q)) mod 4"
    using 3(1) by (simp add: bb_wf_def nat_mod_distrib nat_add_distrib)
  ultimately show ?case using 3(1) by (simp add: q' bb_put_def aset_def bb_wf_def nat_add_distrib)
next
  case (5 q x q')
  then have q': "q' = snd (bb_take q)" and x: "x = fst (bb_take q)" and ne: "0 < g_qcount q"
    by (auto simp: bb_pop_def bb_wf_def split: if_splits)
  have b: "0 \<le> g_qtail q" "g_qtail q < 4" "length (g_q q) = 4" using 5(1) by (auto simp: bb_wf_def)
  then have "nat ((g_qtail q + 1) mod 4) = Suc (nat (g_qtail q)) mod 4"
    by (simp add: nat_mod_distrib Suc_nat_eq_nat_zadd1 add.commute)
  moreover have "bb_wf q'" using 5(1) ne by (auto simp: q' bb_take_def bb_wf_def ring_pop_tail)
  ultimately show ?case using b ne by (auto simp: q' x bb_take_def aget_def)
qed (auto simp: bb_wf_def bb_push_def bb_pop_def)

section \<open>The steps of a task\<close>

record 's mon =
  g_lock :: "'s osal_mutex"
  g_cv :: "cv_name \<Rightarrow> osal_cv"
  g_buf :: bbuf
  g_produced :: int32
  g_consumed :: int32
  g_sum_pushed :: int32
  g_sum_popped :: int32
  mon_at :: "ptr \<Rightarrow> mon_pc"
  mon_sig :: "ptr \<Rightarrow> bool"
  mon_num :: "ptr \<Rightarrow> nat"
  pushed :: "int32 list"
  popped :: "int32 list"

text \<open>
  \<open>mon_at\<close> is where each task is, \<open>mon_sig\<close> whether its \<open>SIGF_SINGLE\<close> is pending, \<open>mon_num\<close> how
  many items a producer has pushed; \<open>pushed\<close> and \<open>popped\<close> record the items in the order in which
  that happened.
\<close>

definition go :: "ptr \<Rightarrow> mon_pc \<Rightarrow> 's mon \<Rightarrow> 's mon" where
  "go t p s = s\<lparr>mon_at := (mon_at s)(t := p)\<rparr>"

definition lock_to :: "'s exec_sem \<Rightarrow> ptr \<Rightarrow> mon_pc \<Rightarrow> 's mon \<Rightarrow> 's mon option" where
  "lock_to X t p s = map_option (\<lambda>m. go t p (s\<lparr>g_lock := m\<rparr>)) (osal_mutex_lock X t (g_lock s))"

definition unlock_to :: "'s exec_sem \<Rightarrow> ptr \<Rightarrow> mon_pc \<Rightarrow> 's mon \<Rightarrow> 's mon" where
  "unlock_to X t p s = go t p (s\<lparr>g_lock := osal_mutex_unlock X t (g_lock s)\<rparr>)"

text \<open>
  \<open>osal_cv_wait\<close> up to the release of the guard: the signal is cleared, then the caller queued, in one
  step; \<open>None\<close> is the panic of a full ring. In this program all signals are sent under the mutex that the
  caller holds, so that nothing can come between the two.
\<close>

definition wait_on :: "cv_name \<Rightarrow> ptr \<Rightarrow> 's mon \<Rightarrow> 's mon option" where
  "wait_on c t s = map_option (\<lambda>cv. go t M_Queued (s\<lparr>g_cv := (g_cv s)(c := cv), mon_sig := (mon_sig s)(t := False)\<rparr>))
     (osal_cv_wait_enter t (g_cv s c))"

text \<open>The rest of \<open>osal_cv_wait\<close>: unlock, \<open>Wait\<close>, lock.\<close>

definition wait_rest :: "'s exec_sem \<Rightarrow> ptr \<Rightarrow> 's mon \<Rightarrow> 's mon option" where
  "wait_rest X t s =
     (case mon_at s t of
        M_Queued \<Rightarrow> Some (unlock_to X t M_Asleep s)
      | M_Asleep \<Rightarrow>
          if mon_sig s t then Some (go t M_Woken (s\<lparr>mon_sig := (mon_sig s)(t := False)\<rparr>)) else None
      | M_Woken \<Rightarrow> lock_to X t M_Test s
      | _ \<Rightarrow> None)"

text \<open>\<open>osal_cv_signal\<close> or \<open>osal_cv_broadcast\<close>: the ring operation, then the \<open>Signal\<close> calls one by one.\<close>

definition notify :: "(osal_cv \<Rightarrow> osal_cv \<times> exec_call list) \<Rightarrow> cv_name \<Rightarrow> ptr \<Rightarrow> 's mon \<Rightarrow> 's mon" where
  "notify f c t s = (case f (g_cv s c) of (cv, calls) \<Rightarrow> go t (M_Sending calls) (s\<lparr>g_cv := (g_cv s)(c := cv)\<rparr>))"

definition send_next :: "ptr \<Rightarrow> exec_call list \<Rightarrow> 's mon \<Rightarrow> 's mon" where
  "send_next t cs s =
     (case cs of [] \<Rightarrow> go t M_Unlock s | c # cs' \<Rightarrow> go t (M_Sending cs') (s\<lparr>mon_sig := deliver [c] (mon_sig s)\<rparr>))"

text \<open>
  Items, counters and sums are mathematical integers. For the constants of the test (3 producers with
  arguments 1 to 3, 50 items each) an item is at most 30049 and a sum at most 150 times that, so that the
  C integers of 32 bits never overflow; for larger programs the sums are those of integers without bound.
\<close>

definition push_item :: "int32 \<Rightarrow> ptr \<Rightarrow> 's mon \<Rightarrow> 's mon" where
  "push_item item t s = go t M_Notify (s\<lparr>g_buf := bb_put item (g_buf s), g_produced := g_produced s + 1,
     g_sum_pushed := g_sum_pushed s + item, mon_num := (mon_num s)(t := Suc (mon_num s t)), pushed := pushed s @ [item]\<rparr>)"

definition pop_item :: "ptr \<Rightarrow> 's mon \<Rightarrow> 's mon" where
  "pop_item t s = (case bb_take (g_buf s) of (item, b) \<Rightarrow> go t M_Notify (s\<lparr>g_buf := b, g_consumed := g_consumed s + 1,
     g_sum_popped := g_sum_popped s + item, popped := popped s @ [item]\<rparr>))"

definition producer :: "'s exec_sem \<Rightarrow> buffer_prog \<Rightarrow> ptr \<Rightarrow> 's mon \<Rightarrow> 's mon option" where
  "producer X pr t s =
     (case mon_at s t of
        M_Lock \<Rightarrow> if mon_num s t < n_items pr then lock_to X t M_Test s else Some (go t M_Done s)
      | M_Test \<Rightarrow>
          if g_qcount (g_buf s) = int Q_SIZE then wait_on NotFull t s
          else Some (push_item (prod_arg pr t * 10000 + int (mon_num s t)) t s)
      | M_Notify \<Rightarrow> Some (notify osal_cv_signal NotEmpty t s)
      | M_Sending cs \<Rightarrow> Some (send_next t cs s)
      | M_Unlock \<Rightarrow> Some (unlock_to X t M_Lock s)
      | _ \<Rightarrow> wait_rest X t s)"

definition consumer :: "'s exec_sem \<Rightarrow> buffer_prog \<Rightarrow> ptr \<Rightarrow> 's mon \<Rightarrow> 's mon option" where
  "consumer X pr t s =
     (case mon_at s t of
        M_Lock \<Rightarrow> lock_to X t M_Test s
      | M_Test \<Rightarrow>
          if g_qcount (g_buf s) = 0 \<and> g_consumed s < int (target pr) then wait_on NotEmpty t s
          else if g_qcount (g_buf s) = 0 \<and> g_consumed s \<ge> int (target pr) then Some (go t M_Leave s)
          else Some (pop_item t s)
      | M_Notify \<Rightarrow> Some (notify osal_cv_signal NotFull t s)
      | M_Sending cs \<Rightarrow> Some (send_next t cs s)
      | M_Unlock \<Rightarrow> Some (unlock_to X t M_Lock s)
      | M_Leave \<Rightarrow> Some (unlock_to X t M_Done s)
      | _ \<Rightarrow> wait_rest X t s)"

text \<open>The main task, from its joins of the producers to its unlock.\<close>

definition main_part :: "'s exec_sem \<Rightarrow> buffer_prog \<Rightarrow> ptr \<Rightarrow> 's mon \<Rightarrow> 's mon option" where
  "main_part X pr t s =
     (case mon_at s t of
        M_Lock \<Rightarrow> if \<forall>u\<in>set (prods pr). mon_at s u = M_Done then lock_to X t M_Notify s else None
      | M_Notify \<Rightarrow> Some (notify osal_cv_broadcast NotEmpty t s)
      | M_Sending cs \<Rightarrow> Some (send_next t cs s)
      | M_Unlock \<Rightarrow> Some (unlock_to X t M_Done s)
      | _ \<Rightarrow> None)"

definition mon_do :: "'s exec_sem \<Rightarrow> buffer_prog \<Rightarrow> ptr \<Rightarrow> 's mon \<Rightarrow> 's mon option" where
  "mon_do X pr t s =
     (if t \<in> set (prods pr) then producer X pr t s
      else if t \<in> set (conss pr) then consumer X pr t s
      else if t = main_task pr then main_part X pr t s
      else None)"

section \<open>The abstract buffer in it\<close>

definition cv_tasks :: "osal_cv \<Rightarrow> ptr list" where
  "cv_tasks cv = map w_task (cv_waiting cv)"

definition mon_abs :: "'s mon \<Rightarrow> amon" where
  "mon_abs s = \<lparr>a_at = mon_at s, a_wl = (\<lambda>c. cv_tasks (g_cv s c)), a_sg = mon_sig s, a_q = bb_items (g_buf s),
     a_num = mon_num s, a_in = pushed s, a_out = popped s\<rparr>"

lemma mon_abs_simps [simp]:
  "a_at (mon_abs s) = mon_at s" "a_wl (mon_abs s) c = cv_tasks (g_cv s c)" "a_sg (mon_abs s) = mon_sig s"
  "a_q (mon_abs s) = bb_items (g_buf s)" "a_num (mon_abs s) = mon_num s" "a_in (mon_abs s) = pushed s"
  "a_out (mon_abs s) = popped s"
  by (simp_all add: mon_abs_def)

definition inside :: "'s mon \<Rightarrow> ptr \<Rightarrow> nat" where
  "inside s t = of_bool (holds (mon_at s t))"

definition ring_ok :: "osal_cv \<Rightarrow> bool" where
  "ring_ok cv \<longleftrightarrow> cv_wf cv \<and> cv_waiting cv = map cv_self (cv_tasks cv)"

definition sums_ok :: "'s mon \<Rightarrow> bool" where
  "sums_ok s \<longleftrightarrow> bb_wf (g_buf s) \<and> g_produced s = int (length (pushed s)) \<and> g_consumed s = int (length (popped s)) \<and>
     g_sum_pushed s = sum_list (pushed s) \<and> g_sum_popped s = sum_list (popped s)"

definition mon_inv :: "('s \<Rightarrow> ptr \<Rightarrow> nat) \<Rightarrow> ('s \<Rightarrow> bool) \<Rightarrow> 's mon \<Rightarrow> bool" where
  "mon_inv depth shared s \<longleftrightarrow>
     sem_inv depth shared (m_sem (g_lock s)) (inside s) (\<lambda>_. True) \<and> (\<forall>c. ring_ok (g_cv s c)) \<and> sums_ok s"

lemma go_simps [simp]:
  "mon_at (go t p s) = (mon_at s)(t := p)" "g_lock (go t p s) = g_lock s" "g_cv (go t p s) = g_cv s"
  "sums_ok (go t p s) = sums_ok s" "mon_abs (go t p s) = to t p (mon_abs s)"
  by (simp_all add: go_def sums_ok_def mon_abs_def to_def)

lemma frame_simps [simp]:
  "sums_ok (s\<lparr>g_lock := m\<rparr>) = sums_ok s" "sums_ok (s\<lparr>g_cv := cv\<rparr>) = sums_ok s" "sums_ok (s\<lparr>mon_sig := sg\<rparr>) = sums_ok s"
  "mon_abs (s\<lparr>g_lock := m\<rparr>) = mon_abs s" "mon_abs (s\<lparr>mon_sig := sg\<rparr>) = (mon_abs s)\<lparr>a_sg := sg\<rparr>"
  by (simp_all add: sums_ok_def mon_abs_def)

lemma mon_abs_cv: "mon_abs (s\<lparr>g_cv := (g_cv s)(c := cv)\<rparr>) = (mon_abs s)\<lparr>a_wl := (a_wl (mon_abs s))(c := cv_tasks cv)\<rparr>"
  by (auto simp: mon_abs_def fun_eq_iff)

lemma inside_go: "inside (go t p s) = (inside s)(t := of_bool (holds p))"
  by (auto simp: inside_def fun_eq_iff)

lemma inside_frame [simp]: "inside (s\<lparr>g_lock := m\<rparr>) = inside s" "inside (s\<lparr>g_cv := cv\<rparr>) = inside s" "inside (s\<lparr>mon_sig := sg\<rparr>) = inside s"
  by (simp_all add: inside_def fun_eq_iff)

text \<open>A step that neither enters nor leaves the mutex.\<close>

lemma mon_inv_go:
  assumes "sem_inv depth shared (m_sem (g_lock s)) (inside s) (\<lambda>_. True)" "\<And>c. ring_ok (g_cv s' c)" "sums_ok s'"
    and "g_lock s' = g_lock s" "mon_at s' = mon_at s" "holds p = holds (mon_at s t)"
  shows "mon_inv depth shared (go t p s')"
proof -
  have "inside (go t p s') = inside s" using assms(5,6) by (auto simp: inside_def fun_eq_iff)
  with assms(1-4) show ?thesis by (simp add: mon_inv_def)
qed

lemma lock_sim:
  assumes "sem_laws X depth shared" "mon_inv depth shared s" "lock_to X t p s = Some s'" "\<not> holds (mon_at s t)" "holds p"
  shows "free (mon_abs s) \<and> mon_abs s' = to t p (mon_abs s) \<and> mon_inv depth shared s'"
proof -
  obtain z where z: "ObtainSemaphore X t (m_sem (g_lock s)) = Some z" and s': "s' = go t p (s\<lparr>g_lock := (g_lock s)\<lparr>m_sem := z\<rparr>\<rparr>)"
    using assms(3) by (auto simp: lock_to_def osal_mutex_lock_def)
  have inv: "sem_inv depth shared (m_sem (g_lock s)) (inside s) (\<lambda>_. True)" using assms(2) by (simp add: mon_inv_def)
  have "inside s u = 0" for u
    using sem_lawsD(2) [OF assms(1) z] inv assms(4) by (cases "u = t") (auto simp: obtains_exclusive_def sem_inv_def inside_def)
  then have "free (mon_abs s)" by (simp add: free_def inside_def)
  moreover have "sem_inv depth shared z ((inside s)(t := Suc 0)) (\<lambda>_. True)"
    using sem_inv_obtain [OF assms(1) inv z, of "\<lambda>_. True"] assms(4) by (simp add: inside_def [of s t])
  ultimately show ?thesis using assms(2,5) by (simp add: s' mon_inv_def inside_go)
qed

lemma unlock_sim:
  assumes "sem_laws X depth shared" "mon_inv depth shared s" "holds (mon_at s t)" "\<not> holds p"
  shows "mon_abs (unlock_to X t p s) = to t p (mon_abs s) \<and> mon_inv depth shared (unlock_to X t p s)"
proof -
  have inv: "sem_inv depth shared (m_sem (g_lock s)) (inside s) (\<lambda>_. True)" using assms(2) by (simp add: mon_inv_def)
  have "inside s t = Suc 0" using assms(3) by (simp add: inside_def)
  with sem_inv_release [OF assms(1) inv, of t]
  have "sem_inv depth shared (ReleaseSemaphore X t (m_sem (g_lock s))) ((inside s)(t := 0)) (\<lambda>_. True)" by simp
  then show ?thesis using assms(2,4) by (simp add: unlock_to_def osal_mutex_unlock_def mon_inv_def inside_go)
qed

lemma wait_sim:
  assumes "mon_inv depth shared s" "wait_on c t s = Some s'" "mon_at s t = M_Test"
  shows "mon_abs s' = to t M_Queued ((mon_abs s)\<lparr>a_wl := (a_wl (mon_abs s))(c := a_wl (mon_abs s) c @ [t]),
    a_sg := (a_sg (mon_abs s))(t := False)\<rparr>) \<and> mon_inv depth shared s'"
proof -
  obtain cv where cv: "osal_cv_wait_enter t (g_cv s c) = Some cv"
    and s': "s' = go t M_Queued (s\<lparr>g_cv := (g_cv s)(c := cv), mon_sig := (mon_sig s)(t := False)\<rparr>)"
    using assms(2) by (auto simp: wait_on_def)
  have r: "ring_ok (g_cv s c)" using assms(1) by (simp add: mon_inv_def)
  have "cv_wf cv \<and> cv_waiting cv = cv_waiting (g_cv s c) @ [cv_self t]"
    using cv_waiting_enqueue [of "g_cv s c" "cv_self t" cv] r cv by (simp add: ring_ok_def osal_cv_wait_enter_def)
  then have new: "cv_tasks cv = cv_tasks (g_cv s c) @ [t]" "ring_ok cv"
    using r by (auto simp: ring_ok_def cv_tasks_def)
  have "mon_inv depth shared s'"
    unfolding s' by (rule mon_inv_go [of _ _ s]) (use assms new in \<open>simp_all add: mon_inv_def\<close>)
  then show ?thesis by (simp add: s' mon_abs_cv new)
qed

lemma tasks_Cons: "ring_ok cv \<Longrightarrow> cv_waiting cv = w # ws \<Longrightarrow> w = cv_self (w_task w) \<and> map cv_self (map w_task ws) = ws"
  by (auto simp: ring_ok_def cv_tasks_def)

lemma signal_ring:
  assumes "ring_ok cv" "osal_cv_signal cv = (cv', calls)"
  shows "ring_ok cv'" "cv_tasks cv = [] \<and> cv' = cv \<and> calls = [] \<or> (\<exists>u. cv_tasks cv = u # cv_tasks cv' \<and> calls = [sigc u])"
proof -
  have wf: "cv_wf cv" using assms(1) by (simp add: ring_ok_def)
  consider "cv_waiting cv = []" "cv' = cv" "calls = []"
    | w where "cv_waiting cv = w # cv_waiting cv'" "calls = [Signal (w_task w) (w_sigmask w)]" "cv_wf cv'"
    using cv_signal_waiting [OF wf assms(2)] by blast
  then have "ring_ok cv' \<and> (cv_tasks cv = [] \<and> cv' = cv \<and> calls = [] \<or> (\<exists>u. cv_tasks cv = u # cv_tasks cv' \<and> calls = [sigc u]))"
  proof cases
    case 1
    then show ?thesis using assms(1) by (simp add: cv_tasks_def)
  next
    case 2
    note w = tasks_Cons [OF assms(1) 2(1)]
    have "w_sigmask w = SIGF_SINGLE" using w cv_self_sel(2) by metis
    with 2 w show ?thesis by (auto simp: ring_ok_def cv_tasks_def sigc_def)
  qed
  then show "ring_ok cv'" "cv_tasks cv = [] \<and> cv' = cv \<and> calls = [] \<or> (\<exists>u. cv_tasks cv = u # cv_tasks cv' \<and> calls = [sigc u])"
    by blast+
qed

lemma broadcast_ring:
  assumes "ring_ok cv" "osal_cv_broadcast cv = (cv', calls)"
  shows "ring_ok cv'" "cv_tasks cv' = []" "calls = map sigc (cv_tasks cv)"
proof -
  have b: "cv_wf cv'" "cv_waiting cv' = []" "calls = map (\<lambda>w. Signal (w_task w) (w_sigmask w)) (cv_waiting cv)"
    using cv_broadcast_waiting [of cv cv' calls] assms by (simp_all add: ring_ok_def)
  then show "ring_ok cv'" "cv_tasks cv' = []" by (simp_all add: ring_ok_def cv_tasks_def)
  have "calls = map (\<lambda>w. Signal (w_task w) (w_sigmask w)) (map cv_self (cv_tasks cv))"
    using assms(1) b(3) by (simp add: ring_ok_def)
  then show "calls = map sigc (cv_tasks cv)" by (simp add: sigc_def)
qed

lemma notify_inv:
  assumes "mon_inv depth shared s" "mon_at s t = M_Notify" "f (g_cv s c) = (cv, calls)" "ring_ok cv"
  shows "mon_inv depth shared (notify f c t s)"
    "mon_abs (notify f c t s) = to t (M_Sending calls) ((mon_abs s)\<lparr>a_wl := (a_wl (mon_abs s))(c := cv_tasks cv)\<rparr>)"
proof -
  show "mon_inv depth shared (notify f c t s)"
    unfolding notify_def assms(3) prod.case
    by (rule mon_inv_go [of _ _ s]) (use assms in \<open>simp_all add: mon_inv_def\<close>)
qed (simp add: notify_def assms(3) mon_abs_cv)

lemma signal_sim:
  assumes "mon_inv depth shared s" "mon_at s t = M_Notify" "t \<in> set (prods pr @ conss pr)" "c = signals pr t"
  shows "a_step pr t (mon_abs s) (mon_abs (notify osal_cv_signal c t s)) \<and> mon_inv depth shared (notify osal_cv_signal c t s)"
proof -
  obtain cv calls where f: "osal_cv_signal (g_cv s c) = (cv, calls)" by fastforce
  note r = signal_ring [OF _ f]
  have ok: "ring_ok (g_cv s c)" using assms(1) by (simp add: mon_inv_def)
  note n = notify_inv [of depth shared s t osal_cv_signal c, OF assms(1,2) f r(1) [OF ok]]
  from r(2) [OF ok] show ?thesis
  proof
    assume e: "cv_tasks (g_cv s c) = [] \<and> cv = g_cv s c \<and> calls = []"
    then have "mon_abs (notify osal_cv_signal c t s) = to t (M_Sending []) (mon_abs s)"
      using n(2) by (simp add: fun_upd_idem)
    with e n(1) a_signal0 [of t pr "mon_abs s"] assms(2-4) show ?thesis by simp
  next
    assume "\<exists>u. cv_tasks (g_cv s c) = u # cv_tasks cv \<and> calls = [sigc u]"
    then obtain u where "cv_tasks (g_cv s c) = u # cv_tasks cv" "calls = [sigc u]" by blast
    with n a_signal [of t pr "mon_abs s" u "cv_tasks cv"] assms(2-4) show ?thesis by simp
  qed
qed

lemma broadcast_sim:
  assumes "mon_inv depth shared s" "mon_at s t = M_Notify" "t = main_task pr"
  shows "a_step pr t (mon_abs s) (mon_abs (notify osal_cv_broadcast NotEmpty t s)) \<and>
    mon_inv depth shared (notify osal_cv_broadcast NotEmpty t s)"
proof -
  obtain cv calls where f: "osal_cv_broadcast (g_cv s NotEmpty) = (cv, calls)" by fastforce
  have ok: "ring_ok (g_cv s NotEmpty)" using assms(1) by (simp add: mon_inv_def)
  note r = broadcast_ring [OF ok f]
  from notify_inv [of depth shared s t osal_cv_broadcast NotEmpty, OF assms(1,2) f r(1)] r a_broadcast [of t pr "mon_abs s"] assms(2,3) show ?thesis by simp
qed

lemma send_sim:
  assumes "mon_inv depth shared s" "mon_at s t = M_Sending cs" "t \<in> set (tasks pr)" "owed_ok (mon_abs s)"
  shows "a_step pr t (mon_abs s) (mon_abs (send_next t cs s)) \<and> mon_inv depth shared (send_next t cs s)"
proof -
  obtain ts where ts: "cs = map sigc ts" using assms(2,4) unfolding owed_ok_def by (metis mon_abs_simps(1))
  show ?thesis
  proof (cases ts)
    case Nil
    with ts have "send_next t cs s = go t M_Unlock s" by (simp add: send_next_def)
    moreover have "mon_inv depth shared (go t M_Unlock s)"
      by (rule mon_inv_go [of _ _ s]) (use assms in \<open>simp_all add: mon_inv_def\<close>)
    ultimately show ?thesis using a_sent [OF assms(3), of "mon_abs s"] assms(2) ts Nil by simp
  next
    case (Cons u us)
    have d: "deliver [sigc u] (mon_sig s) = (mon_sig s)(u := True)" by (simp add: sigc_def)
    then have s': "send_next t cs s = go t (M_Sending (map sigc us)) (s\<lparr>mon_sig := (mon_sig s)(u := True)\<rparr>)"
      using ts Cons by (simp add: send_next_def del: deliver.simps)
    have "mon_inv depth shared (send_next t cs s)"
      unfolding s' by (rule mon_inv_go [of _ _ s]) (use assms in \<open>simp_all add: mon_inv_def\<close>)
    moreover have "mon_abs (send_next t cs s) = to t (M_Sending (map sigc us)) ((mon_abs s)\<lparr>a_sg := (a_sg (mon_abs s))(u := True)\<rparr>)"
      by (simp add: s')
    ultimately show ?thesis using a_send [OF assms(3), of "mon_abs s" u "map sigc us"] assms(2) ts Cons by simp
  qed
qed

lemma length_items: "bb_wf b \<Longrightarrow> length (bb_items b) = nat (g_qcount b)"
  by (simp add: bb_items_def bb_wf_def)

lemma count_items:
  assumes "bb_wf b"
  shows "g_qcount b = int Q_SIZE \<longleftrightarrow> length (bb_items b) = Q_SIZE" "g_qcount b = 0 \<longleftrightarrow> bb_items b = []"
  using length_items [OF assms] assms by (auto simp: bb_wf_def simp flip: length_0_conv)

lemma push_sim:
  assumes "mon_inv depth shared s" "mon_at s t = M_Test" "t \<in> set (prods pr)" "g_qcount (g_buf s) \<noteq> int Q_SIZE"
    and "length (bb_items (g_buf s)) \<le> Q_SIZE"
  shows "a_step pr t (mon_abs s) (mon_abs (push_item item t s)) \<and> mon_inv depth shared (push_item item t s)"
proof -
  let ?s = "s\<lparr>g_buf := bb_put item (g_buf s), g_produced := g_produced s + 1, g_sum_pushed := g_sum_pushed s + item,
    mon_num := (mon_num s)(t := Suc (mon_num s t)), pushed := pushed s @ [item]\<rparr>"
  have wf: "bb_wf (g_buf s)" and sums: "sums_ok s" using assms(1) by (simp_all add: mon_inv_def sums_ok_def)
  have put: "bb_wf (bb_put item (g_buf s))" "bb_items (bb_put item (g_buf s)) = bb_items (g_buf s) @ [item]"
    using bbq.fifo.push_some [OF wf, of item] assms(4) by (simp_all add: bb_push_def bb_items_def)
  have s': "push_item item t s = go t M_Notify ?s" by (simp add: push_item_def)
  have "mon_inv depth shared (push_item item t s)"
    unfolding s' by (rule mon_inv_go [of _ _ s]) (use assms put sums in \<open>simp_all add: mon_inv_def sums_ok_def\<close>)
  moreover have "mon_abs (push_item item t s) = to t M_Notify ((mon_abs s)\<lparr>a_q := bb_items (g_buf s) @ [item],
      a_in := pushed s @ [item], a_num := (mon_num s)(t := Suc (mon_num s t))\<rparr>)"
    by (simp add: s' mon_abs_def put(2) to_def go_def)
  moreover have "length (bb_items (g_buf s)) < Q_SIZE" using count_items(1) [OF wf] assms(4,5) by simp
  ultimately show ?thesis using a_push [OF assms(3), of "mon_abs s" item] assms(2) by simp
qed

lemma pop_sim:
  assumes "mon_inv depth shared s" "mon_at s t = M_Test" "t \<in> set (conss pr)" "g_qcount (g_buf s) \<noteq> 0"
  shows "a_step pr t (mon_abs s) (mon_abs (pop_item t s)) \<and> mon_inv depth shared (pop_item t s)"
proof -
  obtain item b where take: "bb_take (g_buf s) = (item, b)" by fastforce
  let ?s = "s\<lparr>g_buf := b, g_consumed := g_consumed s + 1, g_sum_popped := g_sum_popped s + item, popped := popped s @ [item]\<rparr>"
  have wf: "bb_wf (g_buf s)" and sums: "sums_ok s" using assms(1) by (simp_all add: mon_inv_def sums_ok_def)
  have b: "bb_wf b" "bb_items (g_buf s) = item # bb_items b"
    using bbq.fifo.pop_some [OF wf, of item b] assms(4) take by (simp_all add: bb_pop_def bb_items_def)
  have s': "pop_item t s = go t M_Notify ?s" by (simp add: pop_item_def take)
  have "mon_inv depth shared (pop_item t s)"
    unfolding s' by (rule mon_inv_go [of _ _ s]) (use assms b sums in \<open>simp_all add: mon_inv_def sums_ok_def\<close>)
  moreover have "mon_abs (pop_item t s) = to t M_Notify ((mon_abs s)\<lparr>a_q := bb_items b, a_out := popped s @ [item]\<rparr>)"
    by (simp add: s' mon_abs_def to_def go_def)
  ultimately show ?thesis using a_pop [OF assms(3), of "mon_abs s" item "bb_items b"] assms(2) b(2) by simp
qed

section \<open>Steps of the program are steps of the abstract buffer\<close>

definition sim_ok :: "buffer_prog \<Rightarrow> ('s \<Rightarrow> ptr \<Rightarrow> nat) \<Rightarrow> ('s \<Rightarrow> bool) \<Rightarrow> ptr \<Rightarrow> 's mon \<Rightarrow> 's mon \<Rightarrow> bool" where
  "sim_ok pr depth shared t s s' \<longleftrightarrow> a_step pr t (mon_abs s) (mon_abs s') \<and> mon_inv depth shared s'"

lemma go_sim:
  assumes "mon_inv depth shared s" "holds p = holds (mon_at s t)" "a_step pr t (mon_abs s) (to t p (mon_abs s))"
  shows "sim_ok pr depth shared t s (go t p s)"
proof -
  have "mon_inv depth shared (go t p s)"
    by (rule mon_inv_go [of _ _ s]) (use assms in \<open>simp_all add: mon_inv_def\<close>)
  with assms(3) show ?thesis by (simp add: sim_ok_def)
qed

lemma wait_rest_sim:
  assumes "sem_laws X depth shared" "mon_inv depth shared s" "wait_rest X t s = Some s'" "t \<in> set (tasks pr)"
  shows "sim_ok pr depth shared t s s'"
proof (cases "mon_at s t")
  case M_Queued
  with assms show ?thesis
    using unlock_sim [OF assms(1,2), of t M_Asleep] a_sleep [OF assms(4), of "mon_abs s"]
    by (auto simp: wait_rest_def sim_ok_def)
next
  case M_Asleep
  with assms(3) have sg: "mon_sig s t" and s': "s' = go t M_Woken (s\<lparr>mon_sig := (mon_sig s)(t := False)\<rparr>)"
    by (auto simp: wait_rest_def split: if_splits)
  have "mon_inv depth shared s'"
    unfolding s' by (rule mon_inv_go [of _ _ s]) (use assms(2) M_Asleep in \<open>simp_all add: mon_inv_def\<close>)
  then show ?thesis using a_wake [OF assms(4), of "mon_abs s"] sg M_Asleep by (simp add: sim_ok_def s')
next
  case M_Woken
  with assms show ?thesis
    using lock_sim [OF assms(1,2), of t M_Test s'] a_relock [OF assms(4), of "mon_abs s"]
    by (auto simp: wait_rest_def sim_ok_def)
qed (use assms(3) in \<open>simp_all add: wait_rest_def\<close>)

lemma producer_sim:
  assumes "sem_laws X depth shared" "mon_inv depth shared s" "a_inv pr (mon_abs s)" "prog_ok pr"
    and "t \<in> set (prods pr)" "producer X pr t s = Some s'"
  shows "sim_ok pr depth shared t s s'"
proof -
  note T = in_tasks(1) [OF assms(5)]
  have wf: "bb_wf (g_buf s)" using assms(2) by (simp add: mon_inv_def sums_ok_def)
  have len: "length (bb_items (g_buf s)) \<le> Q_SIZE" and owed: "owed_ok (mon_abs s)"
    using assms(3) by (simp_all add: a_inv_def data_ok_def)
  have sig: "signals pr t = NotEmpty" using assms(5) by (simp add: signals_def)
  show ?thesis
  proof (cases "mon_at s t")
    case M_Lock
    show ?thesis
    proof (cases "mon_num s t < n_items pr")
      case True
      with M_Lock assms(6) show ?thesis
        using lock_sim [OF assms(1,2), of t M_Test s'] a_lock [of t pr "mon_abs s"] assms(5) by (auto simp: producer_def sim_ok_def)
    next
      case False
      with M_Lock assms(6) show ?thesis
        using go_sim [OF assms(2), of M_Done t pr] a_over [OF assms(5), of "mon_abs s"] by (simp add: producer_def)
    qed
  next
    case M_Test
    show ?thesis
    proof (cases "g_qcount (g_buf s) = int Q_SIZE")
      case True
      then have "must_wait pr NotFull (mon_abs s)" using count_items(1) [OF wf] by (simp add: must_wait_def)
      with M_Test True assms(5,6) show ?thesis
        using wait_sim [OF assms(2), of NotFull t s'] a_wait [of t pr NotFull "mon_abs s"] by (simp add: producer_def sim_ok_def)
    next
      case False
      with M_Test assms(6) show ?thesis
        using push_sim [OF assms(2) M_Test assms(5) _ len] by (auto simp: producer_def sim_ok_def)
    qed
  next
    case M_Notify
    with assms(5,6) sig show ?thesis using signal_sim [OF assms(2) M_Notify, of pr] by (auto simp: producer_def sim_ok_def)
  next
    case (M_Sending cs)
    with assms(6) show ?thesis using send_sim [OF assms(2) M_Sending T owed] by (auto simp: producer_def sim_ok_def)
  next
    case M_Unlock
    with assms(6) show ?thesis
      using unlock_sim [OF assms(1,2), of t M_Lock] a_unlock [OF T, of "mon_abs s"] assms(5) prog_okD(3) [OF assms(4)]
      by (auto simp: producer_def sim_ok_def split: if_splits)
  qed (use wait_rest_sim [OF assms(1,2) _ T] assms(6) in \<open>simp_all add: producer_def\<close>)
qed

lemma consumer_sim:
  assumes "sem_laws X depth shared" "mon_inv depth shared s" "a_inv pr (mon_abs s)" "prog_ok pr"
    and "t \<in> set (conss pr)" "consumer X pr t s = Some s'"
  shows "sim_ok pr depth shared t s s'"
proof -
  note T = in_tasks(2) [OF assms(5)]
  have wf: "bb_wf (g_buf s)" and n: "g_consumed s = int (length (popped s))"
    using assms(2) by (simp_all add: mon_inv_def sums_ok_def)
  have owed: "owed_ok (mon_abs s)" using assms(3) by (simp add: a_inv_def)
  have sig: "signals pr t = NotFull" using assms(5) prog_okD(2) [OF assms(4)] by (simp add: signals_def)
  show ?thesis
  proof (cases "mon_at s t")
    case M_Lock
    with assms(6) show ?thesis
      using lock_sim [OF assms(1,2), of t M_Test s'] a_lock [of t pr "mon_abs s"] assms(5) by (auto simp: consumer_def sim_ok_def)
  next
    case M_Test
    consider (wait) "g_qcount (g_buf s) = 0" "g_consumed s < int (target pr)"
      | (leave) "g_qcount (g_buf s) = 0" "\<not> g_consumed s < int (target pr)" | (pop) "g_qcount (g_buf s) \<noteq> 0" by blast
    then show ?thesis
    proof cases
      case wait
      then have "must_wait pr NotEmpty (mon_abs s)" using count_items(2) [OF wf] n by (simp add: must_wait_def)
      with M_Test wait assms(5,6) show ?thesis
        using wait_sim [OF assms(2), of NotEmpty t s'] a_wait [of t pr NotEmpty "mon_abs s"] by (simp add: consumer_def sim_ok_def)
    next
      case leave
      with M_Test assms(6) n show ?thesis
        using go_sim [OF assms(2), of M_Leave t pr] a_leave [OF assms(5), of "mon_abs s"] count_items(2) [OF wf]
        by (simp add: consumer_def)
    next
      case pop
      with M_Test assms(6) show ?thesis using pop_sim [OF assms(2) M_Test assms(5)] by (auto simp: consumer_def sim_ok_def)
    qed
  next
    case M_Notify
    with assms(5,6) sig show ?thesis using signal_sim [OF assms(2) M_Notify, of pr] by (auto simp: consumer_def sim_ok_def)
  next
    case (M_Sending cs)
    with assms(6) show ?thesis using send_sim [OF assms(2) M_Sending T owed] by (auto simp: consumer_def sim_ok_def)
  next
    case M_Unlock
    with assms(6) show ?thesis
      using unlock_sim [OF assms(1,2), of t M_Lock] a_unlock [OF T, of "mon_abs s"] assms(5) prog_okD(4) [OF assms(4)]
      by (auto simp: consumer_def sim_ok_def split: if_splits)
  next
    case M_Leave
    with assms(6) show ?thesis
      using unlock_sim [OF assms(1,2), of t M_Done] a_exit [OF assms(5), of "mon_abs s"] by (auto simp: consumer_def sim_ok_def)
  qed (use wait_rest_sim [OF assms(1,2) _ T] assms(6) in \<open>simp_all add: consumer_def\<close>)
qed

lemma main_sim:
  assumes "sem_laws X depth shared" "mon_inv depth shared s" "a_inv pr (mon_abs s)"
    and "t = main_task pr" "main_part X pr t s = Some s'"
  shows "sim_ok pr depth shared t s s'"
proof -
  have T: "t \<in> set (tasks pr)" using assms(4) by (simp add: tasks_def)
  have owed: "owed_ok (mon_abs s)" using assms(3) by (simp add: a_inv_def)
  show ?thesis
  proof (cases "mon_at s t")
    case M_Lock
    with assms(5) show ?thesis
      using lock_sim [OF assms(1,2), of t M_Notify s'] a_join [OF assms(4), of "mon_abs s"]
      by (auto simp: main_part_def sim_ok_def split: if_splits)
  next
    case M_Notify
    with assms(5) show ?thesis using broadcast_sim [OF assms(2) M_Notify assms(4)] by (auto simp: main_part_def sim_ok_def)
  next
    case (M_Sending cs)
    with assms(5) show ?thesis using send_sim [OF assms(2) M_Sending T owed] by (auto simp: main_part_def sim_ok_def)
  next
    case M_Unlock
    with assms(4,5) show ?thesis
      using unlock_sim [OF assms(1,2), of t M_Done] a_unlock [OF T, of "mon_abs s"] by (auto simp: main_part_def sim_ok_def)
  qed (use assms(5) in \<open>simp_all add: main_part_def\<close>)
qed

lemma mon_sim:
  assumes "sem_laws X depth shared" "mon_inv depth shared s" "a_inv pr (mon_abs s)" "prog_ok pr" "mon_do X pr t s = Some s'"
  shows "a_step pr t (mon_abs s) (mon_abs s')" "mon_inv depth shared s'" "a_inv pr (mon_abs s')"
proof -
  have "sim_ok pr depth shared t s s'"
    using producer_sim [OF assms(1-4)] consumer_sim [OF assms(1-4)] main_sim [OF assms(1-3)] assms(5)
    by (auto simp: mon_do_def split: if_splits)
  then show "a_step pr t (mon_abs s) (mon_abs s')" "mon_inv depth shared s'" by (simp_all add: sim_ok_def)
  then show "a_inv pr (mon_abs s')" using a_inv_step assms(3,4) by blast
qed

section \<open>A step of the abstract buffer can be taken\<close>

lemma lock_free:
  assumes "sem_laws X depth shared" "mon_inv depth shared s" "free (mon_abs s)"
  shows "lock_to X t p s \<noteq> None"
proof -
  have "depth (m_sem (g_lock s)) u = 0" for u using assms(2,3) by (simp add: mon_inv_def sem_inv_def inside_def free_def)
  then obtain z where "ObtainSemaphore X t (m_sem (g_lock s)) = Some z"
    using sem_lawsD(3) [OF assms(1), of t "m_sem (g_lock s)"] by auto
  then show ?thesis by (simp add: lock_to_def osal_mutex_lock_def)
qed

text \<open>No ring overflows: in the ring of a group are only tasks of the group, each once, and not the caller.\<close>

lemma wait_room:
  assumes "mon_inv depth shared s" "a_inv pr (mon_abs s)" "prog_ok pr" "t \<in> set (group pr c)" "mon_at s t = M_Test"
  shows "wait_on c t s \<noteq> None"
proof -
  let ?ws = "cv_tasks (g_cv s c)"
  have q: "queued_ok pr (mon_abs s)" using assms(2) by (simp add: a_inv_def)
  have ws: "distinct ?ws" "set ?ws \<subseteq> set (group pr c)" using q by (auto simp: queued_ok_def)
  have "t \<notin> set ?ws" using queued_waits [OF q, of t c] assms(5) by auto
  with ws(2) assms(4) have "card (set ?ws) < card (set (group pr c))" by (intro psubset_card_mono) auto
  also have "\<dots> \<le> 32" using assms(3) card_length [of "group pr c"] by (cases c) (auto simp: prog_ok_def)
  finally have len: "length ?ws < 32" using ws(1) by (simp add: distinct_card)
  have wf: "cv_wf (g_cv s c)" using assms(1) by (simp add: mon_inv_def ring_ok_def)
  have "cv_count (g_cv s c) < 32" using len length_cv_waiting [OF wf] by (simp add: cv_tasks_def)
  then show ?thesis by (simp add: wait_on_def osal_cv_wait_enter_def cv_enqueue_def)
qed

lemma mon_progress:
  assumes "sem_laws X depth shared" "mon_inv depth shared s" "a_inv pr (mon_abs s)" "prog_ok pr" "a_step pr t (mon_abs s) a'"
  shows "mon_do X pr t s \<noteq> None"
proof -
  note pr = prog_okD [OF assms(4)]
  note lock = lock_free [OF assms(1,2)] and room = wait_room [OF assms(2,3,4)]
  have wf: "bb_wf (g_buf s)" and n: "g_consumed s = int (length (popped s))"
    using assms(2) by (simp_all add: mon_inv_def sums_ok_def)
  have roles: "roles pr (mon_abs s)" using assms(3) by (simp add: a_inv_def)
  have role: "t \<in> set (prods pr) \<or> t \<in> set (conss pr)" if "mon_at s t = M_Queued \<or> mon_at s t = M_Asleep \<or> mon_at s t = M_Woken"
    using that roles by (auto simp: roles_def waits_def)
  note defs = mon_do_def producer_def consumer_def main_part_def wait_rest_def
  from assms(5) show ?thesis
  proof (cases rule: a_step.cases)
    case (a_wait c)
    with room [of t c] pr count_items [OF wf] n show ?thesis by (cases c) (auto simp: defs must_wait_def)
  next
    case a_sleep
    with role show ?thesis by (auto simp: defs)
  next
    case a_wake
    with role show ?thesis by (auto simp: defs)
  next
    case a_relock
    with role lock show ?thesis by (auto simp: defs)
  next
    case a_join
    with lock [of t M_Notify] pr show ?thesis by (auto simp: defs)
  next
    case a_lock
    with lock [of t M_Test] pr show ?thesis by (auto simp: defs)
  next
    case (a_push x)
    with count_items(1) [OF wf] show ?thesis by (simp add: defs)
  next
    case (a_pop x q)
    with count_items(2) [OF wf] pr show ?thesis by (auto simp: defs)
  next
    case a_leave
    with count_items(2) [OF wf] pr n show ?thesis by (auto simp: defs)
  qed (use pr in \<open>auto simp: defs tasks_def\<close>)
qed

section \<open>The test passes\<close>

fun mon_run :: "'s exec_sem \<Rightarrow> buffer_prog \<Rightarrow> ptr list \<Rightarrow> 's mon \<Rightarrow> 's mon option" where
  "mon_run X pr [] s = Some s"
| "mon_run X pr (t # ts) s = (case mon_do X pr t s of None \<Rightarrow> None | Some s' \<Rightarrow> mon_run X pr ts s')"

definition mon_boot :: "'s exec_sem \<Rightarrow> buffer_prog \<Rightarrow> 's mon \<Rightarrow> bool" where
  "mon_boot X pr s \<longleftrightarrow> (\<exists>mem. osal_mutex_new X mem = Some (g_lock s)) \<and> (\<forall>c. \<exists>mem. osal_cv_new mem = Some (g_cv s c)) \<and>
     length (g_q (g_buf s)) = Q_SIZE \<and> g_qhead (g_buf s) = 0 \<and> g_qtail (g_buf s) = 0 \<and> g_qcount (g_buf s) = 0 \<and>
     g_produced s = 0 \<and> g_consumed s = 0 \<and> g_sum_pushed s = 0 \<and> g_sum_popped s = 0 \<and>
     mon_at s = (\<lambda>t. if t \<in> set (tasks pr) then M_Lock else M_Done) \<and> mon_num s = (\<lambda>_. 0) \<and> pushed s = [] \<and> popped s = []"

lemma mon_boot_inv:
  assumes "sem_laws X depth shared" "mon_boot X pr s" "prog_ok pr"
  shows "mon_inv depth shared s" "a_start pr (mon_abs s)"
proof -
  note d = assms(2) [unfolded mon_boot_def]
  obtain mem where "osal_mutex_new X mem = Some (g_lock s)" using d by blast
  then have "g_lock s = \<lparr>m_sem = InitSemaphore X\<rparr>" by (simp add: osal_mutex_new_def split: if_splits)
  then have m: "m_sem (g_lock s) = InitSemaphore X" by simp
  have "inside s = (\<lambda>_. 0)" using d by (auto simp: inside_def)
  then have "sem_inv depth shared (m_sem (g_lock s)) (inside s) (\<lambda>_. True)" using sem_inv_init [OF assms(1)] m by simp
  moreover have cv: "cv_wf (g_cv s c) \<and> cv_waiting (g_cv s c) = []" for c using d osal_cv_new_wf by blast
  moreover have "bb_wf (g_buf s)" using d by (simp add: bb_wf_def)
  ultimately show "mon_inv depth shared s" using d by (simp add: mon_inv_def ring_ok_def cv_tasks_def sums_ok_def)
  show "a_start pr (mon_abs s)" using d cv by (simp add: a_start_def fun_eq_iff cv_tasks_def bb_items_def)
qed

lemma mon_run_inv:
  assumes "sem_laws X depth shared" "prog_ok pr" "mon_inv depth shared s" "a_inv pr (mon_abs s)" "mon_run X pr ts s = Some s'"
  shows "mon_inv depth shared s' \<and> a_inv pr (mon_abs s') \<and> length ts + total pr (mon_abs s') \<le> total pr (mon_abs s)"
  using assms(3-)
proof (induction ts arbitrary: s)
  case (Cons t ts)
  from Cons.prems(3) obtain s1 where s1: "mon_do X pr t s = Some s1" "mon_run X pr ts s1 = Some s'" by (auto split: option.splits)
  note sim = mon_sim [OF assms(1) Cons.prems(1,2) assms(2) s1(1)]
  from Cons.IH [OF sim(2,3) s1(2)] total_step [OF sim(1) Cons.prems(2) assms(2)] show ?case by simp
qed simp

text \<open>
  C10: the bounded queue of \<open>test_cv.c\<close> on this mutex and these condition variables works, for any
  number of producers, up to 32, and of consumers, from 1 to 32, however exec schedules them: at every
  moment the items popped are those pushed, in order, but for the ones in the queue; no run is
  longer than a fixed number of steps; and where no task can go on, all have finished, every item
  has been pushed and popped, and the sums, as unbounded integers, agree. So no task ever waits for a wakeup that was lost.
\<close>

theorem bounded_queue_works:
  assumes "sem_laws X depth shared" "prog_ok pr" "mon_boot X pr s0" "mon_run X pr ts s0 = Some s"
  shows "length ts \<le> 20 * target pr + 3 * length (tasks pr) + 200 \<and> pushed s = popped s @ bb_items (g_buf s) \<and>
    ((\<forall>t. mon_do X pr t s = None) \<longrightarrow> (\<forall>t\<in>set (tasks pr). mon_at s t = M_Done) \<and> popped s = pushed s \<and>
       g_produced s = int (target pr) \<and> g_consumed s = int (target pr) \<and> g_sum_popped s = g_sum_pushed s)"
proof (intro conjI impI)
  note boot = mon_boot_inv [OF assms(1,3,2)]
  have inv: "mon_inv depth shared s" "a_inv pr (mon_abs s)" "length ts + total pr (mon_abs s) \<le> total pr (mon_abs s0)"
    using mon_run_inv [OF assms(1,2) boot(1) a_inv_start [OF boot(2) assms(2)] assms(4)] by simp_all
  have data: "data_ok pr (mon_abs s)" and last: "last_ok pr (mon_abs s)" using inv(2) by (simp_all add: a_inv_def)
  have "card (set (tasks pr)) = length (tasks pr)" using assms(2) by (simp add: prog_ok_def distinct_card)
  with inv(3) total_start [OF boot(2)] show "length ts \<le> 20 * target pr + 3 * length (tasks pr) + 200" by simp
  show pushed: "pushed s = popped s @ bb_items (g_buf s)" using data by (simp add: data_ok_def)
  have sums: "g_produced s = int (length (pushed s))" "g_consumed s = int (length (popped s))"
    "g_sum_pushed s = sum_list (pushed s)" "g_sum_popped s = sum_list (popped s)"
    using inv(1) by (simp_all add: mon_inv_def sums_ok_def)
  assume stop: "\<forall>t. mon_do X pr t s = None"
  show "\<forall>t\<in>set (tasks pr). mon_at s t = M_Done"
  proof (intro ballI, rule ccontr)
    fix t assume "t \<in> set (tasks pr)" "mon_at s t \<noteq> M_Done"
    then obtain u a' where "a_step pr u (mon_abs s) a'" using nobody_stuck [OF inv(2) assms(2)] by (metis mon_abs_simps(1))
    with mon_progress [OF assms(1) inv(1,2) assms(2)] stop show False by blast
  qed
  then have finished: "\<forall>t\<in>set (prods pr). mon_at s t = M_Done" "\<forall>t\<in>set (conss pr). mon_at s t = M_Done"
    by (simp_all add: tasks_def)
  have "conss pr \<noteq> []" using assms(2) by (simp add: prog_ok_def)
  with finished(2) last have out: "length (popped s) = target pr" by (cases "conss pr") (simp_all add: last_ok_def)
  have "length (pushed s) = target pr" using all_pushed(2) [OF data assms(2)] finished(1) by simp
  with out pushed show eq: "popped s = pushed s" by simp
  with sums out show "g_produced s = int (target pr)" "g_consumed s = int (target pr)" "g_sum_popped s = g_sum_pushed s" by simp_all
qed

text \<open>The test itself: three producers of fifty items each, two consumers.\<close>

definition test_cv_prog :: buffer_prog where
  "test_cv_prog = \<lparr>prods = [0x11, 0x12, 0x13], conss = [0x21, 0x22], main_task = 0x31, prod_arg = (\<lambda>t. uint t - 16), n_items = 50\<rparr>"

definition test_cv_boot :: "(ptr list \<times> bool) mon" where
  "test_cv_boot = \<lparr>g_lock = \<lparr>m_sem = ([], False)\<rparr>, g_cv = (\<lambda>_. cv_empty),
     g_buf = \<lparr>g_q = [0, 0, 0, 0], g_qhead = 0, g_qtail = 0, g_qcount = 0\<rparr>, g_produced = 0, g_consumed = 0,
     g_sum_pushed = 0, g_sum_popped = 0, mon_at = (\<lambda>t. if t \<in> set (tasks test_cv_prog) then M_Lock else M_Done),
     mon_sig = (\<lambda>_. False), mon_num = (\<lambda>_. 0), pushed = [], popped = []\<rparr>"

lemma test_cv_ok: "prog_ok test_cv_prog" "mon_boot list_sem test_cv_prog test_cv_boot" "target test_cv_prog = 150"
proof -
  show "prog_ok test_cv_prog" "target test_cv_prog = 150" by (simp_all add: prog_ok_def tasks_def test_cv_prog_def target_def)
  have "\<exists>mem. osal_cv_new mem = Some cv_empty"
    by (rule exI [of _ "0x40 :: ptr"]) (simp add: cv_empty_def osal_cv_new_def)
  moreover have "\<exists>mem. osal_mutex_new list_sem mem = Some \<lparr>m_sem = ([], False)\<rparr>"
    by (rule exI [of _ "0x40 :: ptr"]) (simp add: osal_mutex_new_def list_sem_def)
  ultimately show "mon_boot list_sem test_cv_prog test_cv_boot" by (simp add: mon_boot_def test_cv_boot_def)
qed

lemma mon_run_snoc: "mon_run X pr (ts @ [t]) s = Option.bind (mon_run X pr ts s) (mon_do X pr t)"
  by (induction ts arbitrary: s) (auto split: option.splits)

text \<open>Its longest run ends with every item consumed.\<close>

theorem bounded_queue_works_witness:
  "\<exists>ts s. mon_run list_sem test_cv_prog ts test_cv_boot = Some s \<and> (\<forall>t. mon_do list_sem test_cv_prog t s = None) \<and>
     g_produced s = 150 \<and> g_consumed s = 150 \<and> g_sum_popped s = g_sum_pushed s"
proof -
  let ?run = "\<lambda>ts. mon_run list_sem test_cv_prog ts test_cv_boot"
  note works = bounded_queue_works [OF list_sem_laws test_cv_ok(1,2)]
  have start: "?run [] \<noteq> None" by simp
  have bound: "\<forall>ts. ?run ts \<noteq> None \<longrightarrow> length ts < Suc (20 * target test_cv_prog + 3 * length (tasks test_cv_prog) + 200)"
    using works unfolding less_Suc_eq_le by blast
  obtain ts where ts: "?run ts \<noteq> None \<and> (\<forall>us. ?run us \<noteq> None \<longrightarrow> length us \<le> length ts)"
    using ex_has_greatest_nat [of "\<lambda>ts. ?run ts \<noteq> None" "[]" length, OF start bound] ..
  then obtain s where s: "?run ts = Some s" by blast
  have "mon_do list_sem test_cv_prog t s = None" for t
  proof (rule ccontr)
    assume "mon_do list_sem test_cv_prog t s \<noteq> None"
    then have "?run (ts @ [t]) \<noteq> None" using s by (auto simp: mon_run_snoc)
    with ts have "length (ts @ [t]) \<le> length ts" by blast
    then show False by simp
  qed
  with s works [OF s] show ?thesis by (auto simp: test_cv_ok(3))
qed

end
