(* ===== verification/LazyInit.thy ===== *)
theory LazyInit
  imports Timer Locks Client
begin

text \<open>
  Semaphores that their first user initialises. \<open>ensure_engine_port\<close> and \<open>ensure_reply_port\<close>
  (\<open>socket_ipc.c\<close>) and \<open>timer_slot_for_current_task\<close> (\<open>osal_timer.c\<close>) begin with
  \<open>if (!init) { InitSemaphore; init = 1; }\<close> and go on between \<open>ObtainSemaphore\<close> and
  \<open>ReleaseSemaphore\<close>. \<open>Client\<close> and \<open>Timer\<close> take each of them as one step. Here they are taken
  apart into the steps that exec can interleave, for any number of tasks: the test, the two
  steps of the initialisation, the wait for the semaphore, each call of exec and each store
  inside the section, and the release.
\<close>

section \<open>A section with a lazily initialised semaphore\<close>

text \<open>Where a task is: \<open>L_In p\<close> is place \<open>p\<close> of the section, \<open>L_Out r\<close> is before the release, with result \<open>r\<close>.\<close>

datatype ('p, 'r) lazy_pc = L_Idle | L_Test | L_Init | L_Flag | L_Obtain | L_In 'p | L_Out 'r

text \<open>\<open>lz_done\<close> is who has left the section, in order, with what result.\<close>

record ('s, 'd, 'p, 'r) lazy =
  lz_flag :: bool
  lz_sem :: 's
  lz_data :: 'd
  lz_pc :: "ptr \<Rightarrow> ('p, 'r) lazy_pc"
  lz_done :: "(ptr \<times> 'r) list"

text \<open>
  A section: what exec answers, the task, the place and the data give the next place or the result,
  and the data.
\<close>

type_synonym ('i, 'd, 'p, 'r) section_body = "'i \<Rightarrow> ptr \<Rightarrow> 'p \<Rightarrow> 'd \<Rightarrow> ('p + 'r) \<times> 'd"

definition lz_move :: "ptr \<Rightarrow> ('p, 'r) lazy_pc \<Rightarrow> ('s, 'd, 'p, 'r) lazy \<Rightarrow> ('s, 'd, 'p, 'r) lazy" where
  "lz_move t pc s = s\<lparr>lz_pc := (lz_pc s)(t := pc)\<rparr>"

text \<open>One step of task \<open>t\<close>, where exec answers \<open>i\<close>. \<open>None\<close>: it has to wait for the semaphore.\<close>

definition lazy_step ::
  "'s exec_sem \<Rightarrow> ('i, 'd, 'p, 'r) section_body \<Rightarrow> 'p \<Rightarrow> ptr \<times> 'i \<Rightarrow> ('s, 'd, 'p, 'r) lazy \<Rightarrow>
   ('s, 'd, 'p, 'r) lazy option"
where
  "lazy_step X body start a s =
     (case a of (t, i) \<Rightarrow>
        case lz_pc s t of
          L_Idle \<Rightarrow> if t = NULL then None else Some (lz_move t L_Test s)
        | L_Test \<Rightarrow> Some (lz_move t (if lz_flag s then L_Obtain else L_Init) s)
        | L_Init \<Rightarrow> Some (lz_move t L_Flag (s\<lparr>lz_sem := InitSemaphore X\<rparr>))
        | L_Flag \<Rightarrow> Some (lz_move t L_Obtain (s\<lparr>lz_flag := True\<rparr>))
        | L_Obtain \<Rightarrow> map_option (\<lambda>z. lz_move t (L_In start) (s\<lparr>lz_sem := z\<rparr>)) (ObtainSemaphore X t (lz_sem s))
        | L_In p \<Rightarrow>
            (case body i t p (lz_data s) of
               (Inl p', d) \<Rightarrow> Some (lz_move t (L_In p') (s\<lparr>lz_data := d\<rparr>))
             | (Inr r, d) \<Rightarrow> Some (lz_move t (L_Out r) (s\<lparr>lz_data := d\<rparr>)))
        | L_Out r \<Rightarrow>
            Some (lz_move t L_Idle (s\<lparr>lz_sem := ReleaseSemaphore X t (lz_sem s), lz_done := lz_done s @ [(t, r)]\<rparr>)))"

fun lazy_run ::
  "'s exec_sem \<Rightarrow> ('i, 'd, 'p, 'r) section_body \<Rightarrow> 'p \<Rightarrow> (ptr \<times> 'i) list \<Rightarrow> ('s, 'd, 'p, 'r) lazy \<Rightarrow>
   ('s, 'd, 'p, 'r) lazy option"
where
  "lazy_run X body start [] s = Some s"
| "lazy_run X body start (a # as) s =
     (case lazy_step X body start a s of None \<Rightarrow> None | Some s' \<Rightarrow> lazy_run X body start as s')"

text \<open>Before any call: the flag is clear and the semaphore, whose memory is \<open>z\<close>, is not initialised.\<close>

definition lazy_zero :: "'s \<Rightarrow> 'd \<Rightarrow> ('s, 'd, 'p, 'r) lazy" where
  "lazy_zero z d = \<lparr>lz_flag = False, lz_sem = z, lz_data = d, lz_pc = \<lambda>_. L_Idle, lz_done = []\<rparr>"

definition inside :: "('p, 'r) lazy_pc \<Rightarrow> bool" where
  "inside pc = (case pc of L_In p \<Rightarrow> True | L_Out r \<Rightarrow> True | _ \<Rightarrow> False)"

lemma inside_simps [simp]:
  "inside (L_In p)" "inside (L_Out r)" "\<not> inside L_Idle" "\<not> inside L_Test" "\<not> inside L_Init" "\<not> inside L_Flag"
  "\<not> inside L_Obtain"
  by (simp_all add: inside_def)

section \<open>The section is atomic once the semaphore is there\<close>

text \<open>The sections \<open>log\<close> one after the other, each as \<open>whole\<close> describes it.\<close>

inductive in_turn :: "(ptr \<Rightarrow> 'd \<Rightarrow> 'r \<Rightarrow> 'd \<Rightarrow> bool) \<Rightarrow> 'd \<Rightarrow> (ptr \<times> 'r) list \<Rightarrow> 'd \<Rightarrow> bool"
  for whole d0 where
  turn_none: "in_turn whole d0 [] d0"
| turn_next: "in_turn whole d0 log d \<Longrightarrow> whole t d r d' \<Longrightarrow> in_turn whole d0 (log @ [(t, r)]) d'"

text \<open>
  The contract of a section: \<open>mid t d p d'\<close> says that the data are \<open>d'\<close> at place \<open>p\<close> when task \<open>t\<close> found
  them as \<open>d\<close>, and \<open>whole\<close> what it has done at its end.
\<close>

locale lazy_section =
  fixes body :: "('i, 'd, 'p, 'r) section_body"
    and start :: 'p
    and good :: "'d \<Rightarrow> bool"
    and mid :: "ptr \<Rightarrow> 'd \<Rightarrow> 'p \<Rightarrow> 'd \<Rightarrow> bool"
    and whole :: "ptr \<Rightarrow> 'd \<Rightarrow> 'r \<Rightarrow> 'd \<Rightarrow> bool"
  assumes enter: "good d \<Longrightarrow> t \<noteq> NULL \<Longrightarrow> mid t d start d"
    and onward: "mid t d p d' \<Longrightarrow> body i t p d' = (Inl p', d'') \<Longrightarrow> mid t d p' d''"
    and finish: "mid t d p d' \<Longrightarrow> body i t p d' = (Inr r, d'') \<Longrightarrow> whole t d r d''"
    and keeps_good: "good d \<Longrightarrow> whole t d r d' \<Longrightarrow> t \<noteq> NULL \<Longrightarrow> good d'"
begin

text \<open>
  With the flag set nobody initialises, the semaphore is held once by the task inside and by no
  other, and the data are what the finished sections made of them and, if a task is inside, its
  part of a section on top.
\<close>

definition steady :: "('s \<Rightarrow> ptr \<Rightarrow> nat) \<Rightarrow> 'd \<Rightarrow> ('s, 'd, 'p, 'r) lazy \<Rightarrow> bool" where
  "steady depth d0 s \<longleftrightarrow>
     lz_flag s \<and> (\<forall>t. lz_pc s t \<noteq> L_Init \<and> lz_pc s t \<noteq> L_Flag) \<and> lz_pc s NULL = L_Idle \<and>
     (\<forall>t. depth (lz_sem s) t = (if inside (lz_pc s t) then 1 else 0)) \<and>
     (\<forall>t u. inside (lz_pc s t) \<longrightarrow> inside (lz_pc s u) \<longrightarrow> t = u) \<and>
     (\<exists>d. in_turn whole d0 (lz_done s) d \<and> good d \<and>
        (\<forall>t p. lz_pc s t = L_In p \<longrightarrow> mid t d p (lz_data s)) \<and>
        (\<forall>t r. lz_pc s t = L_Out r \<longrightarrow> whole t d r (lz_data s)) \<and>
        (lz_data s = d \<or> (\<exists>t. inside (lz_pc s t))))"

lemma steadyI:
  assumes "lz_flag s" "\<And>t. lz_pc s t \<noteq> L_Init" "\<And>t. lz_pc s t \<noteq> L_Flag" "lz_pc s NULL = L_Idle"
    and "\<And>t. depth (lz_sem s) t = (if inside (lz_pc s t) then 1 else 0)"
    and "\<And>t u. inside (lz_pc s t) \<Longrightarrow> inside (lz_pc s u) \<Longrightarrow> t = u"
    and "in_turn whole d0 (lz_done s) d" "good d" "\<And>t p. lz_pc s t = L_In p \<Longrightarrow> mid t d p (lz_data s)"
    and "\<And>t r. lz_pc s t = L_Out r \<Longrightarrow> whole t d r (lz_data s)" "lz_data s = d \<or> (\<exists>t. inside (lz_pc s t))"
  shows "steady depth d0 s"
  unfolding steady_def using assms by blast

lemma steadyE:
  assumes "steady depth d0 s"
  obtains d where "lz_flag s" "\<And>t. lz_pc s t \<noteq> L_Init" "\<And>t. lz_pc s t \<noteq> L_Flag" "lz_pc s NULL = L_Idle"
    "\<And>t. depth (lz_sem s) t = (if inside (lz_pc s t) then 1 else 0)"
    "\<And>t u. inside (lz_pc s t) \<Longrightarrow> inside (lz_pc s u) \<Longrightarrow> t = u"
    "in_turn whole d0 (lz_done s) d" "good d" "\<And>t p. lz_pc s t = L_In p \<Longrightarrow> mid t d p (lz_data s)"
    "\<And>t r. lz_pc s t = L_Out r \<Longrightarrow> whole t d r (lz_data s)" "lz_data s = d \<or> (\<exists>t. inside (lz_pc s t))"
proof -
  obtain d where "in_turn whole d0 (lz_done s) d" "good d" "\<And>t p. lz_pc s t = L_In p \<Longrightarrow> mid t d p (lz_data s)"
    "\<And>t r. lz_pc s t = L_Out r \<Longrightarrow> whole t d r (lz_data s)" "lz_data s = d \<or> (\<exists>t. inside (lz_pc s t))"
    using assms unfolding steady_def by blast
  with assms show thesis by (intro that [of d]) (auto simp: steady_def)
qed

lemma steady_outside:
  assumes "steady depth d0 s" "t \<noteq> NULL" "\<not> inside (lz_pc s t)" "pc \<in> {L_Test, L_Obtain}"
  shows "steady depth d0 (lz_move t pc s)"
proof (rule steadyE [OF assms(1)])
  fix d
  assume flag: "lz_flag s" and pcs: "\<And>t. lz_pc s t \<noteq> L_Init" "\<And>t. lz_pc s t \<noteq> L_Flag" "lz_pc s NULL = L_Idle"
    and dep: "\<And>t. depth (lz_sem s) t = (if inside (lz_pc s t) then 1 else 0)"
    and one: "\<And>t u. inside (lz_pc s t) \<Longrightarrow> inside (lz_pc s u) \<Longrightarrow> t = u"
    and d: "in_turn whole d0 (lz_done s) d" "good d" "\<And>t p. lz_pc s t = L_In p \<Longrightarrow> mid t d p (lz_data s)"
      "\<And>t r. lz_pc s t = L_Out r \<Longrightarrow> whole t d r (lz_data s)" "lz_data s = d \<or> (\<exists>t. inside (lz_pc s t))"
  have same: "inside (lz_pc (lz_move t pc s) u) \<longleftrightarrow> inside (lz_pc s u)" for u
    using assms(3,4) by (auto simp: lz_move_def)
  show ?thesis
    by (rule steadyI [of _ _ _ d], unfold same)
      (use assms(2,4) flag pcs dep one d in \<open>auto simp: lz_move_def split: if_splits\<close>)
qed

text \<open>The task inside goes on, or leaves.\<close>

lemma steady_inside:
  assumes st: "steady depth d0 s" and t: "inside (lz_pc s t)" and pc: "inside pc"
    and data: "\<And>d. (\<And>p. lz_pc s t = L_In p \<Longrightarrow> mid t d p (lz_data s)) \<Longrightarrow>
      (case pc of L_In p \<Rightarrow> mid t d p d' | L_Out r \<Rightarrow> whole t d r d' | _ \<Rightarrow> False)"
  shows "steady depth d0 (lz_move t pc (s\<lparr>lz_data := d'\<rparr>))"
proof (rule steadyE [OF st])
  fix d
  assume *: "lz_flag s" "\<And>t. lz_pc s t \<noteq> L_Init" "\<And>t. lz_pc s t \<noteq> L_Flag" "lz_pc s NULL = L_Idle"
      "\<And>t. depth (lz_sem s) t = (if inside (lz_pc s t) then 1 else 0)"
    and one: "\<And>t u. inside (lz_pc s t) \<Longrightarrow> inside (lz_pc s u) \<Longrightarrow> t = u"
    and d: "in_turn whole d0 (lz_done s) d" "good d" "\<And>t p. lz_pc s t = L_In p \<Longrightarrow> mid t d p (lz_data s)"
  have only: "\<not> inside (lz_pc s u)" if "u \<noteq> t" for u using one [of u t] that t by auto
  have "t \<noteq> NULL" using t *(4) by auto
  with * only d data [of d] t pc show ?thesis
    by (intro steadyI [of _ _ _ d])
      (auto simp: lz_move_def split: if_splits intro: exI [of _ t], metis inside_simps(1), metis inside_simps(2))
qed

lemma steady_step:
  assumes laws: "sem_laws X depth shared" and st: "steady depth d0 s" and step: "lazy_step X body start (t, i) s = Some s'"
  shows "steady depth d0 s'"
proof (rule steadyE [OF st])
  fix d
  assume flag: "lz_flag s" and pcs: "\<And>t. lz_pc s t \<noteq> L_Init" "\<And>t. lz_pc s t \<noteq> L_Flag" "lz_pc s NULL = L_Idle"
    and dep: "\<And>t. depth (lz_sem s) t = (if inside (lz_pc s t) then 1 else 0)"
    and one: "\<And>t u. inside (lz_pc s t) \<Longrightarrow> inside (lz_pc s u) \<Longrightarrow> t = u"
    and d: "in_turn whole d0 (lz_done s) d" "good d" "\<And>t p. lz_pc s t = L_In p \<Longrightarrow> mid t d p (lz_data s)"
      "\<And>t r. lz_pc s t = L_Out r \<Longrightarrow> whole t d r (lz_data s)" "lz_data s = d \<or> (\<exists>t. inside (lz_pc s t))"
  show ?thesis
  proof (cases "lz_pc s t")
    case L_Idle
    with step steady_outside [OF st, of t L_Test] show ?thesis by (auto simp: lazy_step_def split: if_splits)
  next
    case L_Test
    moreover from this pcs(3) have "t \<noteq> NULL" by auto
    ultimately show ?thesis using step flag steady_outside [OF st, of t L_Obtain] by (auto simp: lazy_step_def)
  next
    case L_Obtain
    with step obtain z where z: "ObtainSemaphore X t (lz_sem s) = Some z"
      and s': "s' = lz_move t (L_In start) (s\<lparr>lz_sem := z\<rparr>)" by (auto simp: lazy_step_def)
    have ob: "\<And>u. u \<noteq> t \<Longrightarrow> depth (lz_sem s) u = 0" "depth z = (depth (lz_sem s))(t := Suc (depth (lz_sem s) t))"
      using sem_lawsD(2) [OF laws z] by (auto simp: obtains_exclusive_def)
    have none: "\<not> inside (lz_pc s u)" for u
      using ob(1) [of u] dep [of u] L_Obtain by (cases "u = t") (auto split: if_splits)
    have t: "t \<noteq> NULL" using pcs(3) L_Obtain by auto
    have "mid t d start (lz_data s)" using enter [OF d(2) t] d(5) none by simp
    with none flag pcs ob(2) dep d(1,2) t show ?thesis
      unfolding s' by (intro steadyI [of _ _ _ d]) (auto simp: lz_move_def split: if_splits, metis inside_simps(1), metis inside_simps(2))
  next
    case (L_In p)
    with step steady_inside [OF st, of t] onward finish show ?thesis
      by (auto simp: lazy_step_def split: prod.splits sum.splits)
  next
    case (L_Out r)
    then have only: "\<not> inside (lz_pc s u)" if "u \<noteq> t" for u using one [of u t] that by auto
    have s': "s' = lz_move t L_Idle (s\<lparr>lz_sem := ReleaseSemaphore X t (lz_sem s), lz_done := lz_done s @ [(t, r)]\<rparr>)"
      using step L_Out by (auto simp: lazy_step_def)
    have t: "t \<noteq> NULL" "0 < depth (lz_sem s) t" using pcs(3) dep [of t] L_Out by auto
    have "in_turn whole d0 (lz_done s @ [(t, r)]) (lz_data s)" "good (lz_data s)"
      using turn_next [OF d(1) d(4) [OF L_Out]] keeps_good [OF d(2) d(4) [OF L_Out] t(1)] .
    with only flag pcs dep sem_lawsD(6) [OF laws t(2)] L_Out show ?thesis
      unfolding s' by (intro steadyI [of _ _ _ "lz_data s"])
        (auto simp: lz_move_def split: if_splits, metis inside_simps(1), metis inside_simps(2))
  qed (use pcs in simp_all)
qed

lemma steady_run:
  assumes "sem_laws X depth shared"
  shows "steady depth d0 s \<Longrightarrow> lazy_run X body start as s = Some s' \<Longrightarrow> steady depth d0 s'"
proof (induction as arbitrary: s)
  case (Cons a as)
  then show ?case by (cases a) (auto split: option.splits dest: steady_step [OF assms])
qed simp

text \<open>The first task, alone: before it has set the flag nothing has happened yet.\<close>

definition early :: "'s exec_sem \<Rightarrow> ptr \<Rightarrow> 'd \<Rightarrow> ('s, 'd, 'p, 'r) lazy \<Rightarrow> bool" where
  "early X t d0 s \<longleftrightarrow> t \<noteq> NULL \<and>
     \<not> lz_flag s \<and> lz_pc s t \<in> {L_Idle, L_Test, L_Init, L_Flag} \<and> (\<forall>u. u \<noteq> t \<longrightarrow> lz_pc s u = L_Idle) \<and>
     lz_data s = d0 \<and> lz_done s = [] \<and> (lz_pc s t = L_Flag \<longrightarrow> lz_sem s = InitSemaphore X)"

lemma early_step:
  assumes laws: "sem_laws X depth shared" and good: "good d0" and e: "early X t d0 s"
    and step: "lazy_step X body start (t, i) s = Some s'"
  shows "early X t d0 s' \<or> steady depth d0 s'"
proof (cases "lz_pc s t = L_Flag")
  case True
  have s': "s' = lz_move t L_Obtain (s\<lparr>lz_flag := True\<rparr>)" using True step by (auto simp: lazy_step_def)
  have "steady depth d0 s'"
    unfolding s' using e True good sem_lawsD(1) [OF laws] turn_none [of whole d0]
    by (intro steadyI [of _ _ _ d0]) (auto simp: early_def lz_move_def split: if_splits)
  then show ?thesis ..
next
  case False
  with e step show ?thesis by (auto simp: early_def lazy_step_def lz_move_def split: if_splits)
qed

lemma first_alone:
  assumes laws: "sem_laws X depth shared" and good: "good d0"
  shows "early X t d0 s \<or> steady depth d0 s \<Longrightarrow> list_all (\<lambda>a. fst a = t) as \<Longrightarrow>
    lazy_run X body start as s = Some s' \<Longrightarrow> early X t d0 s' \<or> steady depth d0 s'"
proof (induction as arbitrary: s)
  case (Cons a as)
  obtain i s1 where a: "a = (t, i)" and s1: "lazy_step X body start (t, i) s = Some s1" "lazy_run X body start as s1 = Some s'"
    using Cons.prems(2,3) by (cases a) (auto split: option.splits)
  have "early X t d0 s1 \<or> steady depth d0 s1"
    using Cons.prems(1) early_step [OF laws good _ s1(1)] steady_step [OF laws _ s1(1)] by blast
  with Cons.IH s1(2) Cons.prems(2) show ?case by simp
qed simp

lemma lazy_atomic:
  assumes laws: "sem_laws X depth shared" and good: "good d0" and t0: "t0 \<noteq> NULL"
    and first: "list_all (\<lambda>a. fst a = t0) before" "lazy_run X body start before (lazy_zero z d0) = Some s0" "lz_flag s0"
    and run: "lazy_run X body start as s0 = Some s"
  shows "inside (lz_pc s t) \<Longrightarrow> inside (lz_pc s u) \<Longrightarrow> t = u"
    and "(\<And>t. \<not> inside (lz_pc s t)) \<Longrightarrow> in_turn whole d0 (lz_done s) (lz_data s)"
    and "lz_pc s t \<noteq> L_Idle \<Longrightarrow> \<exists>u i. lazy_step X body start (u, i) s \<noteq> None \<and> lz_pc s u \<noteq> L_Idle"
proof -
  have "early X t0 d0 (lazy_zero z d0)" using t0 by (simp add: early_def lazy_zero_def)
  with first_alone [OF laws good _ first(1,2)] have "early X t0 d0 s0 \<or> steady depth d0 s0" by blast
  with first(3) have "steady depth d0 s0" by (auto simp: early_def)
  with steady_run [OF laws] run have st: "steady depth d0 s" by blast
  then show "inside (lz_pc s t) \<Longrightarrow> inside (lz_pc s u) \<Longrightarrow> t = u"
    and "(\<And>t. \<not> inside (lz_pc s t)) \<Longrightarrow> in_turn whole d0 (lz_done s) (lz_data s)"
    unfolding steady_def by blast+
  assume busy: "lz_pc s t \<noteq> L_Idle"
  show "\<exists>u i. lazy_step X body start (u, i) s \<noteq> None \<and> lz_pc s u \<noteq> L_Idle"
  proof (cases "\<exists>u. inside (lz_pc s u)")
    case True
    then obtain u where "inside (lz_pc s u)" ..
    then have "lazy_step X body start (u, undefined) s \<noteq> None" "lz_pc s u \<noteq> L_Idle"
      by (cases "lz_pc s u"; simp add: lazy_step_def split: prod.splits sum.splits)+
    then show ?thesis by blast
  next
    case False
    then have "depth (lz_sem s) v = 0" for v using st by (simp add: steady_def)
    then have "\<exists>z. ObtainSemaphore X t (lz_sem s) = Some z" using sem_lawsD(3) [OF laws, of t "lz_sem s"] by simp
    moreover have "lz_pc s t \<in> {L_Test, L_Obtain}"
      using False busy st by (cases "lz_pc s t") (auto simp: steady_def, metis inside_simps(1), metis inside_simps(2))
    ultimately have "lazy_step X body start (t, undefined) s \<noteq> None" by (auto simp: lazy_step_def)
    with busy show ?thesis by blast
  qed
qed

end

text \<open>Calls one after the other: who they are of and what they return, and the data at the end.\<close>

fun serial :: "('e \<Rightarrow> ptr \<Rightarrow> 'd \<Rightarrow> 'r \<times> 'd) \<Rightarrow> ('e \<times> ptr) list \<Rightarrow> 'd \<Rightarrow> (ptr \<times> 'r) list \<times> 'd" where
  "serial f [] d = ([], d)"
| "serial f ((e, t) # cs) d =
     (let (r, d1) = f e t d; (log, d2) = serial f cs d1 in ((t, r) # log, d2))"

lemma serial_snoc:
  "serial f cs d = (log, d1) \<Longrightarrow> f e t d1 = (r, d2) \<Longrightarrow> serial f (cs @ [(e, t)]) d = (log @ [(t, r)], d2)"
  by (induction f cs d arbitrary: log rule: serial.induct) (auto split: prod.splits)

lemma in_turn_serial:
  assumes "in_turn whole d0 log d" "\<And>t d r d'. whole t d r d' \<Longrightarrow> \<exists>e. f e t d = (r, d')"
  shows "\<exists>cs. serial f cs d0 = (log, d)"
  using assms(1)
proof induction
  case turn_none
  have "serial f [] d0 = ([], d0)" by simp
  then show ?case by blast
next
  case (turn_next log d t r d')
  with assms(2) serial_snoc show ?case by metis
qed

section \<open>The timer's slots\<close>

text \<open>The section of \<open>timer_slot_for_current_task\<close>: the searches, the three calls of exec, and the owner.\<close>

datatype timer_pc = T_Find | T_Port nat | T_Req nat | T_Open nat | T_Own nat

fun timer_body :: "(timer_env, timer_slot list, timer_pc, nat option) section_body" where
  "timer_body env me T_Find ts =
     (let i = c_search (\<lambda>i. ts_owner (aget ts i) = me) 0 TASK_SLOT_MAX in
      if i \<ge> 0 then (Inr (Some (nat i)), ts)
      else
        let j = c_search (\<lambda>j. ts_owner (aget ts j) = NULL) 0 TASK_SLOT_MAX
        in if j \<ge> 0 then (Inl (T_Port (nat j)), ts) else (Inr None, ts))"
| "timer_body env me (T_Port j) ts =
     (if te_port env = NULL then Inr None else Inl (T_Req j), ts[j := (ts ! j)\<lparr>ts_port := te_port env\<rparr>])"
| "timer_body env me (T_Req j) ts =
     (if te_req env = NULL then (Inr None, ts[j := (ts ! j)\<lparr>ts_port := NULL, ts_req := NULL\<rparr>])
      else (Inl (T_Open j), ts[j := (ts ! j)\<lparr>ts_req := te_req env\<rparr>]))"
| "timer_body env me (T_Open j) ts =
     (if te_open env \<noteq> 0 then (Inr None, ts[j := (ts ! j)\<lparr>ts_port := NULL, ts_req := NULL\<rparr>])
      else (Inl (T_Own j), ts))"
| "timer_body env me (T_Own j) ts = (Inr (Some j), ts[j := (ts ! j)\<lparr>ts_owner := me\<rparr>])"

definition timer_whole :: "ptr \<Rightarrow> timer_slot list \<Rightarrow> nat option \<Rightarrow> timer_slot list \<Rightarrow> bool" where
  "timer_whole me ts r ts' \<longleftrightarrow> (\<exists>env. timer_slot_ensure env me ts = (r, ts'))"

text \<open>Slot \<open>j\<close> is the first free one and \<open>me\<close> has none; its fields are as far as place \<open>p\<close> has filled them.\<close>

definition fills :: "ptr \<Rightarrow> timer_slot list \<Rightarrow> nat \<Rightarrow> bool" where
  "fills me ts j \<longleftrightarrow> j < length ts \<and>
     (\<forall>env. timer_slot_ensure env me ts =
        (case open_slot env me (ts ! j) of (ok, s, calls) \<Rightarrow> (if ok then Some j else None, ts[j := s])))"

fun timer_mid :: "ptr \<Rightarrow> timer_slot list \<Rightarrow> timer_pc \<Rightarrow> timer_slot list \<Rightarrow> bool" where
  "timer_mid me ts T_Find ts' \<longleftrightarrow> length ts = 16 \<and> ts' = ts"
| "timer_mid me ts (T_Port j) ts' \<longleftrightarrow> fills me ts j \<and> ts' = ts"
| "timer_mid me ts (T_Req j) ts' \<longleftrightarrow>
     fills me ts j \<and> (\<exists>p. p \<noteq> NULL \<and> ts' = ts[j := (ts ! j)\<lparr>ts_port := p\<rparr>])"
| "timer_mid me ts (T_Open j) ts' \<longleftrightarrow>
     fills me ts j \<and> (\<exists>p q. p \<noteq> NULL \<and> q \<noteq> NULL \<and> ts' = ts[j := (ts ! j)\<lparr>ts_port := p, ts_req := q\<rparr>])"
| "timer_mid me ts (T_Own j) ts' \<longleftrightarrow>
     fills me ts j \<and> (\<exists>p q. p \<noteq> NULL \<and> q \<noteq> NULL \<and> ts' = ts[j := (ts ! j)\<lparr>ts_port := p, ts_req := q\<rparr>])"

lemma timer_find:
  assumes "timer_mid me ts T_Find ts1"
  shows "timer_body env me T_Find ts1 = (Inl p, ts') \<Longrightarrow> timer_mid me ts p ts'"
    and "timer_body env me T_Find ts1 = (Inr r, ts') \<Longrightarrow> timer_whole me ts r ts'"
proof -
  let ?i = "c_search (\<lambda>i. ts_owner (aget ts i) = me) 0 TASK_SLOT_MAX"
  let ?j = "c_search (\<lambda>j. ts_owner (aget ts j) = NULL) 0 TASK_SLOT_MAX"
  have ts1: "ts1 = ts" and len: "length ts = 16" using assms by simp_all
  have "nat ?j < length ts" if "0 \<le> ?j"
    using that len by (cases rule: c_search_cases [of "\<lambda>j. ts_owner (aget ts j) = NULL" 0 TASK_SLOT_MAX]) auto
  then have fills: "fills me ts (nat ?j)" if "\<not> 0 \<le> ?i" "0 \<le> ?j"
    using that by (auto simp: fills_def timer_slot_for_current_task_def Let_def aget_def aset_def split: prod.splits)
  from fills show "timer_body env me T_Find ts1 = (Inl p, ts') \<Longrightarrow> timer_mid me ts p ts'"
    by (auto simp: ts1 Let_def split: if_splits)
  show "timer_body env me T_Find ts1 = (Inr r, ts') \<Longrightarrow> timer_whole me ts r ts'"
    by (auto simp: ts1 timer_whole_def timer_slot_for_current_task_def Let_def split: if_splits)
qed

lemma fills_bound: "fills me ts j \<Longrightarrow> j < length ts"
  by (simp add: fills_def)

lemma slot_upd: "s\<lparr>ts_port := p, ts_req := q, ts_owner := me\<rparr> = s\<lparr>ts_owner := me, ts_port := p, ts_req := q\<rparr>"
  by simp

interpretation sleepl: lazy_section timer_body T_Find "\<lambda>ts. owners_wf (map ts_owner ts)" timer_mid timer_whole
proof (unfold_locales, goal_cases)
  case (1 d t)
  then show ?case by (simp add: owners_wf_def)
next
  case (2 t d p d' i p' d'')
  show ?case
  proof (cases p)
    case T_Find
    with 2 timer_find(1) show ?thesis by blast
  next
    case (T_Req j)
    with 2 show ?thesis by (auto simp: fills_def split: if_splits) blast
  next
    case (T_Open j)
    with 2 show ?thesis by (auto split: if_splits) blast
  qed (use 2 in \<open>auto split: if_splits\<close>)
next
  case (3 t d p d' i r d'')
  have whole: "fills t d j \<Longrightarrow> open_slot env t (d ! j) = (ok, s, calls) \<Longrightarrow>
      timer_whole t d (if ok then Some j else None) (d[j := s])" for j env ok s calls
    by (auto simp: timer_whole_def fills_def intro: exI [of _ env])
  show ?case
  proof (cases p)
    case T_Find
    with 3 timer_find(2) show ?thesis by blast
  next
    case (T_Port j)
    with 3 whole [of j i] show ?thesis by (auto simp: open_slot_def split: if_splits)
  next
    case (T_Req j)
    with 3 obtain q where "q \<noteq> NULL" "d' = d[j := (d ! j)\<lparr>ts_port := q\<rparr>]" "fills t d j" by auto
    with 3 T_Req whole [of j "\<lparr>te_port = q, te_req = NULL, te_open = 0\<rparr>"] show ?thesis
      by (auto simp: open_slot_def dest: fills_bound split: if_splits)
  next
    case (T_Open j)
    with 3 obtain q k where "q \<noteq> NULL" "k \<noteq> NULL" "d' = d[j := (d ! j)\<lparr>ts_port := q, ts_req := k\<rparr>]" "fills t d j" by auto
    with 3 T_Open whole [of j "\<lparr>te_port = q, te_req = k, te_open = te_open i\<rparr>"] show ?thesis
      by (auto simp: open_slot_def dest: fills_bound split: if_splits)
  next
    case (T_Own j)
    with 3 obtain q k where "q \<noteq> NULL" "k \<noteq> NULL" "d' = d[j := (d ! j)\<lparr>ts_port := q, ts_req := k\<rparr>]" "fills t d j" by auto
    with 3 T_Own have "r = Some j" "d'' = d[j := (d ! j)\<lparr>ts_owner := t, ts_port := q, ts_req := k\<rparr>]"
      by (auto simp: fills_bound slot_upd)
    with whole [of j "\<lparr>te_port = q, te_req = k, te_open = 0\<rparr>" True] \<open>q \<noteq> NULL\<close> \<open>k \<noteq> NULL\<close> \<open>fills t d j\<close> show ?thesis
      by (simp add: open_slot_def)
  qed
next
  case (4 d t r d')
  then show ?case using tm.ensure_wf by (auto simp: timer_whole_def)
qed

section \<open>The reply ports and the engine's port\<close>

text \<open>The section of \<open>ensure_reply_port\<close>: the searches, the allocation, the two stores.\<close>

datatype reply_pc = R_Find | R_Alloc nat | R_Owner nat ptr | R_Port nat ptr

fun reply_body :: "(ptr, reply_slot list, reply_pc, ptr) section_body" where
  "reply_body new me R_Find slots =
     (let i = c_search (\<lambda>i. rs_owner (aget slots i) = me) 0 TASK_SLOT_MAX in
      if i \<ge> 0 then (Inr (rs_port (aget slots i)), slots)
      else
        let j = c_search (\<lambda>j. rs_owner (aget slots j) = NULL) 0 TASK_SLOT_MAX
        in if j \<ge> 0 then (Inl (R_Alloc (nat j)), slots) else (Inr NULL, slots))"
| "reply_body new me (R_Alloc j) slots = (if new = NULL then Inr NULL else Inl (R_Owner j new), slots)"
| "reply_body new me (R_Owner j p) slots = (Inl (R_Port j p), slots[j := (slots ! j)\<lparr>rs_owner := me\<rparr>])"
| "reply_body new me (R_Port j p) slots = (Inr p, slots[j := (slots ! j)\<lparr>rs_port := p\<rparr>])"

definition reply_whole :: "ptr \<Rightarrow> reply_slot list \<Rightarrow> ptr \<Rightarrow> reply_slot list \<Rightarrow> bool" where
  "reply_whole me slots r slots' \<longleftrightarrow> (\<exists>p. reply_slot_for p me slots = (r, slots'))"

definition takes :: "ptr \<Rightarrow> reply_slot list \<Rightarrow> nat \<Rightarrow> bool" where
  "takes me slots j \<longleftrightarrow> j < length slots \<and>
     (\<forall>p. reply_slot_for p me slots =
        (if p = NULL then (NULL, slots) else (p, slots[j := \<lparr>rs_owner = me, rs_port = p\<rparr>])))"

fun reply_mid :: "ptr \<Rightarrow> reply_slot list \<Rightarrow> reply_pc \<Rightarrow> reply_slot list \<Rightarrow> bool" where
  "reply_mid me slots R_Find slots' \<longleftrightarrow> length slots = 16 \<and> slots' = slots"
| "reply_mid me slots (R_Alloc j) slots' \<longleftrightarrow> takes me slots j \<and> slots' = slots"
| "reply_mid me slots (R_Owner j p) slots' \<longleftrightarrow> takes me slots j \<and> p \<noteq> NULL \<and> slots' = slots"
| "reply_mid me slots (R_Port j p) slots' \<longleftrightarrow>
     takes me slots j \<and> p \<noteq> NULL \<and> slots' = slots[j := (slots ! j)\<lparr>rs_owner := me\<rparr>]"

lemma reply_slot_upd: "(s :: reply_slot)\<lparr>rs_owner := t, rs_port := p\<rparr> = \<lparr>rs_owner = t, rs_port = p\<rparr>"
  by simp

lemma takes_whole:
  "takes t d j \<Longrightarrow> q \<noteq> NULL \<Longrightarrow> reply_whole t d q (d[j := \<lparr>rs_owner = t, rs_port = q\<rparr>])"
  "takes t d j \<Longrightarrow> reply_whole t d NULL d"
  by (auto simp: reply_whole_def takes_def)

lemma takes_bound: "takes me slots j \<Longrightarrow> j < length slots"
  by (simp add: takes_def)

lemma reply_find:
  assumes "reply_mid me slots R_Find slots1"
  shows "reply_body new me R_Find slots1 = (Inl p, slots') \<Longrightarrow> reply_mid me slots p slots'"
    and "reply_body new me R_Find slots1 = (Inr r, slots') \<Longrightarrow> reply_whole me slots r slots'"
proof -
  let ?i = "c_search (\<lambda>i. rs_owner (aget slots i) = me) 0 TASK_SLOT_MAX"
  let ?j = "c_search (\<lambda>j. rs_owner (aget slots j) = NULL) 0 TASK_SLOT_MAX"
  have s1: "slots1 = slots" and len: "length slots = 16" using assms by simp_all
  have "nat ?j < length slots" if "0 \<le> ?j"
    using that len by (cases rule: c_search_cases [of "\<lambda>j. rs_owner (aget slots j) = NULL" 0 TASK_SLOT_MAX]) auto
  then have takes: "takes me slots (nat ?j)" if "\<not> 0 \<le> ?i" "0 \<le> ?j"
    using that by (auto simp: takes_def reply_slot_for_def Let_def aset_def)
  from takes show "reply_body new me R_Find slots1 = (Inl p, slots') \<Longrightarrow> reply_mid me slots p slots'"
    by (auto simp: s1 Let_def split: if_splits)
  show "reply_body new me R_Find slots1 = (Inr r, slots') \<Longrightarrow> reply_whole me slots r slots'"
    by (auto simp: s1 reply_whole_def reply_slot_for_def Let_def split: if_splits)
qed

interpretation rl: lazy_section reply_body R_Find "\<lambda>slots. owners_wf (map rs_owner slots)" reply_mid reply_whole
proof (unfold_locales, goal_cases)
  case (1 d t)
  then show ?case by (simp add: owners_wf_def)
next
  case (2 t d p d' i p' d'')
  then show ?case
    by (cases p) (auto simp del: reply_body.simps(1) reply_mid.simps(1) dest: reply_find(1) split: if_splits)
next
  case (3 t d p d' i r d'')
  then show ?case
    by (cases p) (auto simp del: reply_body.simps(1) reply_mid.simps(1) simp: takes_whole takes_bound reply_slot_upd
        dest: reply_find(2) split: if_splits)
next
  case (4 d t r d')
  then show ?case using rp.ensure_wf by (auto simp: reply_whole_def)
qed

text \<open>The section of \<open>ensure_engine_port\<close>: the test, \<open>FindPort\<close>, and the read. The data are \<open>g_engine_port\<close>.\<close>

datatype engine_port_pc = F_Test | F_Find | F_Read

fun engine_port_body :: "(ptr, ptr, engine_port_pc, ptr) section_body" where
  "engine_port_body found me F_Test g = (if g = NULL then Inl F_Find else Inl F_Read, g)"
| "engine_port_body found me F_Find g = (Inl F_Read, found)"
| "engine_port_body found me F_Read g = (Inr g, g)"

definition find_once :: "ptr \<Rightarrow> ptr \<Rightarrow> ptr \<Rightarrow> ptr \<times> ptr" where
  "find_once found me g = (let g' = (if g = NULL then found else g) in (g', g'))"

fun engine_port_mid :: "ptr \<Rightarrow> ptr \<Rightarrow> engine_port_pc \<Rightarrow> ptr \<Rightarrow> bool" where
  "engine_port_mid me g F_Test g' \<longleftrightarrow> g' = g"
| "engine_port_mid me g F_Find g' \<longleftrightarrow> g' = g \<and> g = NULL"
| "engine_port_mid me g F_Read g' \<longleftrightarrow> g = NULL \<or> g' = g"

interpretation el: lazy_section engine_port_body F_Test "\<lambda>_. True" engine_port_mid
    "\<lambda>me g r g'. \<exists>found. find_once found me g = (r, g')"
proof (unfold_locales, goal_cases)
  case (2 t d p d' i p' d'')
  then show ?case by (cases p) (auto split: if_splits)
next
  case (3 t d p d' i r d'')
  then show ?case by (cases p) (auto simp: find_once_def)
qed simp_all

section \<open>Properties\<close>

text \<open>
  C14: sleeping tasks do not disturb each other once the timer's semaphore is there. If one task
  begins alone and the others begin to call once it has set the flag, then however the
  steps of their calls of \<open>timer_slot_for_current_task\<close> interleave, never are two tasks
  between \<open>ObtainSemaphore\<close> and \<open>ReleaseSemaphore\<close>; whenever none is, the table and all
  results are those of the calls made one after the other, in the order in which they
  left; and the tasks never all wait.
\<close>

theorem timer_calls_serial:
  assumes "sem_laws X depth shared" "t0 \<noteq> NULL"
    and "list_all (\<lambda>a. fst a = t0) before"
    and "lazy_run X timer_body T_Find before (lazy_zero z g_timer_slots_init) = Some s0" "lz_flag s0"
    and "lazy_run X timer_body T_Find as s0 = Some s"
  shows "(\<forall>t u. inside (lz_pc s t) \<longrightarrow> inside (lz_pc s u) \<longrightarrow> t = u) \<and>
    ((\<forall>t. \<not> inside (lz_pc s t)) \<longrightarrow>
       (\<exists>cs. serial timer_slot_ensure cs g_timer_slots_init = (lz_done s, lz_data s))) \<and>
    ((\<exists>t. lz_pc s t \<noteq> L_Idle) \<longrightarrow>
       (\<exists>u i. lz_pc s u \<noteq> L_Idle \<and> lazy_step X timer_body T_Find (u, i) s \<noteq> None))"
proof -
  note atomic = sleepl.lazy_atomic [OF assms(1) timer_init_wf(1) assms(2-6)]
  show ?thesis
  proof (intro conjI impI allI)
    fix t u
    show "inside (lz_pc s t) \<Longrightarrow> inside (lz_pc s u) \<Longrightarrow> t = u" by (rule atomic(1))
  next
    assume "\<forall>t. \<not> inside (lz_pc s t)"
    then have "in_turn timer_whole g_timer_slots_init (lz_done s) (lz_data s)" by (intro atomic(2)) simp
    then show "\<exists>cs. serial timer_slot_ensure cs g_timer_slots_init = (lz_done s, lz_data s)"
      by (rule in_turn_serial) (simp add: timer_whole_def)
  qed (use atomic(3) in blast)
qed

definition lone_sleeper :: "(ptr \<times> timer_env) list" where
  "lone_sleeper = (let a = (7, \<lparr>te_port = 0x10, te_req = 0x20, te_open = 0\<rparr>) in [a, a, a, a])"

definition two_sleepers :: "(ptr \<times> timer_env) list" where
  "two_sleepers =
     (let a = (7, \<lparr>te_port = 0x10, te_req = 0x20, te_open = 0\<rparr>); b = (9, \<lparr>te_port = 0x30, te_req = 0x40, te_open = 0\<rparr>)
      in [b, a, b, a, a, a, a, a, a, b, b, b, b, b, b, b])"

text \<open>The first task reaches the flag alone; then two tasks sleep, the second one waiting for the first.\<close>

theorem timer_calls_serial_witness:
  "\<exists>s0 s. lazy_run list_sem timer_body T_Find lone_sleeper (lazy_zero ([], True) g_timer_slots_init) = Some s0 \<and>
     lazy_run list_sem timer_body T_Find two_sleepers s0 = Some s \<and> map fst (lz_done s) = [7, 9] \<and>
     (\<exists>cs. serial timer_slot_ensure cs g_timer_slots_init = (lz_done s, lz_data s))"
proof -
  let ?s0 = "\<lparr>lz_flag = True, lz_sem = ([], False), lz_data = g_timer_slots_init, lz_pc = (\<lambda>_. L_Idle)(7 := L_Obtain), lz_done = []\<rparr>"
  have s0: "lazy_run list_sem timer_body T_Find lone_sleeper (lazy_zero ([], True) g_timer_slots_init) = Some ?s0"
    by (simp add: lone_sleeper_def Let_def lazy_step_def lazy_zero_def lz_move_def list_sem_def)
  have "\<exists>s. lazy_run list_sem timer_body T_Find two_sleepers ?s0 = Some s \<and> map fst (lz_done s) = [7, 9] \<and>
      (\<forall>t. \<not> inside (lz_pc s t))"
    by (simp add: two_sleepers_def Let_def lazy_step_def lz_move_def list_sem_def g_timer_slots_init_def
        c_search.simps aget_def)
  then obtain s where s: "lazy_run list_sem timer_body T_Find two_sleepers ?s0 = Some s" "map fst (lz_done s) = [7, 9]"
    "\<forall>t. \<not> inside (lz_pc s t)" by auto
  from timer_calls_serial [OF list_sem_laws _ _ s0 _ s(1)] s0 s show ?thesis
    by (auto simp: lone_sleeper_def Let_def)
qed

text \<open>The same of the reply ports, and of the cached port of the engine.\<close>

theorem reply_calls_serial:
  assumes "sem_laws X depth shared" "t0 \<noteq> NULL"
    and "list_all (\<lambda>a. fst a = t0) before"
    and "lazy_run X reply_body R_Find before (lazy_zero z (g_reply_slots client_zero)) = Some s0" "lz_flag s0"
    and "lazy_run X reply_body R_Find as s0 = Some s" "\<And>t. \<not> inside (lz_pc s t)"
  shows "\<exists>cs. serial reply_slot_for cs (g_reply_slots client_zero) = (lz_done s, lz_data s)"
proof -
  have "owners_wf (map rs_owner (g_reply_slots client_zero))"
    by (simp add: owners_wf_def client_zero_def reply_slot_zero_def)
  from rl.lazy_atomic(2) [OF assms(1) this assms(2-7)] show ?thesis
    by (rule in_turn_serial) (simp add: reply_whole_def)
qed

theorem engine_port_calls_serial:
  assumes "sem_laws X depth shared" "t0 \<noteq> NULL"
    and "list_all (\<lambda>a. fst a = t0) before"
    and "lazy_run X engine_port_body F_Test before (lazy_zero z NULL) = Some s0" "lz_flag s0"
    and "lazy_run X engine_port_body F_Test as s0 = Some s" "\<And>t. \<not> inside (lz_pc s t)"
  shows "\<exists>cs. serial find_once cs NULL = (lz_done s, lz_data s)"
  using el.lazy_atomic(2) [OF assms(1) TrueI assms(2-7)] by (rule in_turn_serial) blast

text \<open>
  C38: the first two sleeps may collide. \<open>osal_timer.c\<close> has no function that initialises its
  semaphore before there are two tasks; when two tasks make their first call at once, one
  initialises the semaphore again while the other holds it, both are in the section, and
  both get slot \<open>0\<close>: the table's only entry has the second task's port and request, and
  the first task's port and request, which it will never use, are lost.
\<close>

theorem first_sleeps_collide:
  assumes "sem_laws X depth shared" "t \<noteq> NULL" "u \<noteq> NULL" "t \<noteq> u" "p \<noteq> NULL" "q \<noteq> NULL" "p' \<noteq> NULL" "q' \<noteq> NULL"
  shows "\<exists>as s. lazy_run X timer_body T_Find as (lazy_zero z g_timer_slots_init) = Some s \<and>
    set as \<subseteq> {(t, \<lparr>te_port = p, te_req = q, te_open = 0\<rparr>), (u, \<lparr>te_port = p', te_req = q', te_open = 0\<rparr>)} \<and>
    lz_pc s t = L_Out (Some 0) \<and> lz_pc s u = L_Out (Some 0) \<and>
    lz_data s = g_timer_slots_init[0 := \<lparr>ts_owner = u, ts_port = p', ts_req = q'\<rparr>]"
proof -
  define a where "a = (t, \<lparr>te_port = p, te_req = q, te_open = 0 :: int32\<rparr>)"
  define b where "b = (u, \<lparr>te_port = p', te_req = q', te_open = 0 :: int32\<rparr>)"
  obtain za zb where z: "ObtainSemaphore X t (InitSemaphore X) = Some za" "ObtainSemaphore X u (InitSemaphore X) = Some zb"
    using sem_lawsD(3) [OF assms(1), of _ "InitSemaphore X"] sem_lawsD(1) [OF assms(1)] by (metis less_irrefl)
  have find: "timer_body e v T_Find g_timer_slots_init = (Inl (T_Port 0), g_timer_slots_init)" if "v \<noteq> NULL" for e v
    using that by (simp add: g_timer_slots_init_def c_search.simps aget_def)
  have zero: "length g_timer_slots_init = 16" "g_timer_slots_init ! 0 = \<lparr>ts_owner = NULL, ts_port = NULL, ts_req = NULL\<rparr>"
    by (simp_all add: g_timer_slots_init_def)
  let ?as = "[a, b, a, b, a, a, a, a, b, b, b, b, a, a, a, a, b, b, b, b]"
  show ?thesis
    by (intro exI [of _ ?as])
      (use assms(2-8) z in \<open>simp add: a_def b_def lazy_step_def lazy_zero_def lz_move_def find zero del: timer_body.simps(1)\<close>)
qed

theorem first_sleeps_collide_witness:
  "\<exists>as s. lazy_run list_sem timer_body T_Find as (lazy_zero ([], True) g_timer_slots_init) = Some s \<and>
    lz_pc s 7 = L_Out (Some 0) \<and> lz_pc s 9 = L_Out (Some 0)"
  using first_sleeps_collide [OF list_sem_laws, where t = 7 and u = 9 and p = 16 and q = 32 and p' = 48 and q' = 64 and z = "([], True)"] by force

end
