(* ===== verification/TaskStream.thy ===== *)
theory TaskStream
  imports Concurrent ByteStream "HOL-Library.Sublist"
begin

text \<open>
  A connection as two tasks see it. \<open>Concurrent\<close> gives an order to the dispatches of all tasks'
  calls, \<open>ByteStream\<close> is about requests served in order; here the two are put together, and
  what is said is about the calls of one writing and one reading task that have returned.
\<close>

section \<open>The calls of a task\<close>


fun served :: "call_event list \<Rightarrow> (ptr \<times> NetstackReq \<times> NetstackReq) list" where
  "served [] = []"
| "served (Lin t q r # es) = (t, q, r) # served es"
| "served (e # es) = served es"


lemma served_append: "served (es @ es') = served es @ served es'"
  by (induction es rule: served.induct) auto





section \<open>The engine of a run\<close>






section \<open>What two tasks see of a connection\<close>















end
