(* ===== verification/Launch.thy ===== *)
theory Launch
  imports Scenario
begin

unbundle bit_operations_syntax

text \<open>
  Starting the engine, step by step. Every function of the library starts the engine if no call has done
  so (\<open>ensure_engine\<close>, \<open>bsdsocket_library.c\<close>), in whichever task calls first. \<open>Engine\<close> takes
  \<open>NetstackEngine_Start\<close> as one step; here any number of tasks are inside it, and each engine process
  they create opens its port and signals \<open>g_launcher_task\<close>, which all of them share.
\<close>

section \<open>The steps\<close>

text \<open>
  Where a task is in \<open>NetstackEngine_Start\<close>, with the signal bits it has allocated; \<open>S_Waiting\<close> has the
  mask \<open>Wait\<close> was called with.
\<close>

datatype start_pc =
    S_Idle | S_Self | S_Bits | S_ReadyMask int int | S_StoppedMask int int | S_NotReady int int | S_Create int int
  | S_Wait int int | S_Waiting int int uint32 | S_Check int int

text \<open>Where an engine process is in \<open>engine_process_main\<close>, up to its loop.\<close>

datatype proc_pc = P_None | P_Open | P_Ready | P_Running | P_Signal bool | P_Loop | P_Gone

record launch =
  la_eng :: engine
  la_pc :: "ptr \<Rightarrow> start_pc"
  la_sig :: "ptr \<Rightarrow> uint32"
  la_proc :: "ptr \<Rightarrow> proc_pc"
  la_done :: "(ptr \<times> int32) list"

definition go :: "ptr \<Rightarrow> start_pc \<Rightarrow> engine \<Rightarrow> launch \<Rightarrow> launch" where
  "go t pc e s = s\<lparr>la_eng := e, la_pc := (la_pc s)(t := pc)\<rparr>"

definition return_start :: "ptr \<Rightarrow> int32 \<Rightarrow> engine \<Rightarrow> launch \<Rightarrow> launch" where
  "return_start t rc e s = s\<lparr>la_eng := e, la_pc := (la_pc s)(t := S_Idle), la_done := la_done s @ [(t, rc)]\<rparr>"

text \<open>One step of task \<open>t\<close>; \<open>env\<close> is what exec answers. \<open>AllocSignal\<close> clears the bits it gives out;
  those that a failing start frees are its own, and their \<open>FreeSignal\<close> is left out.\<close>

definition start_step :: "ptr \<Rightarrow> start_env \<Rightarrow> launch \<Rightarrow> launch option" where
  "start_step t env s =
     (let e = la_eng s in
      case la_pc s t of
        S_Idle \<Rightarrow> Some (if g_engine_task e \<noteq> NULL then return_start t (-1) e s else go t S_Self e s)
      | S_Self \<Rightarrow> Some (go t S_Bits (e\<lparr>g_launcher_task := t\<rparr>) s)
      | S_Bits \<Rightarrow>
          if ready_bit env < 0 \<or> stopped_bit env < 0 then Some (return_start t (-1) e s)
          else Some (go t (S_ReadyMask (ready_bit env) (stopped_bit env)) e
            (s\<lparr>la_sig := (la_sig s)(t := la_sig s t AND NOT (bit_mask (ready_bit env) OR bit_mask (stopped_bit env)))\<rparr>))
      | S_ReadyMask rb sb \<Rightarrow> Some (go t (S_StoppedMask rb sb) (e\<lparr>g_launcher_ready_mask := bit_mask rb\<rparr>) s)
      | S_StoppedMask rb sb \<Rightarrow> Some (go t (S_NotReady rb sb) (e\<lparr>g_launcher_stopped_mask := bit_mask sb\<rparr>) s)
      | S_NotReady rb sb \<Rightarrow> Some (go t (S_Create rb sb) (e\<lparr>g_engine_ready := False\<rparr>) s)
      | S_Create rb sb \<Rightarrow>
          if new_task env = NULL then Some (return_start t (-1) (e\<lparr>g_engine_task := NULL\<rparr>) s)
          else if la_proc s (new_task env) = P_None
          then Some (go t (S_Wait rb sb) (e\<lparr>g_engine_task := new_task env\<rparr>)
            (s\<lparr>la_proc := (la_proc s)(new_task env := P_Open)\<rparr>))
          else None
      | S_Wait rb sb \<Rightarrow> Some (go t (S_Waiting rb sb (g_launcher_ready_mask e)) e s)
      | S_Waiting rb sb m \<Rightarrow>
          if la_sig s t AND m = 0 then None
          else Some (go t (S_Check rb sb) e (s\<lparr>la_sig := (la_sig s)(t := la_sig s t AND NOT m)\<rparr>))
      | S_Check rb sb \<Rightarrow>
          Some (if \<not> g_engine_ready e then return_start t (-1) (e\<lparr>g_engine_task := NULL\<rparr>) s else return_start t 0 e s))"

definition become :: "ptr \<Rightarrow> proc_pc \<Rightarrow> engine \<Rightarrow> launch \<Rightarrow> launch" where
  "become q pc e s = s\<lparr>la_eng := e, la_proc := (la_proc s)(q := pc)\<rparr>"

text \<open>One step of engine process \<open>q\<close>; \<open>port\<close> is the port that exec allocates for it.\<close>

definition proc_step :: "ptr \<Rightarrow> ptr \<Rightarrow> launch \<Rightarrow> launch option" where
  "proc_step q port s =
     (let e = la_eng s in
      case la_proc s q of
        P_Open \<Rightarrow> Some (become q (if port = NULL then P_Signal False else P_Ready) (e\<lparr>g_request_port := port\<rparr>) s)
      | P_Ready \<Rightarrow> Some (become q P_Running (e\<lparr>g_engine_ready := True\<rparr>) s)
      | P_Running \<Rightarrow> Some (become q (P_Signal True) (e\<lparr>g_engine_shutdown := False\<rparr>) s)
      | P_Signal up \<Rightarrow>
          let l = g_launcher_task e
          in Some (become q (if up then P_Loop else P_Gone) e
               (s\<lparr>la_sig := (la_sig s)(l := la_sig s l OR g_launcher_ready_mask e)\<rparr>))
      | _ \<Rightarrow> None)"

datatype launch_act = Task ptr start_env | Proc ptr ptr

fun launch_do :: "launch_act \<Rightarrow> launch \<Rightarrow> launch option" where
  "launch_do (Task t env) s = start_step t env s"
| "launch_do (Proc q port) s = proc_step q port s"

fun launch_run :: "launch_act list \<Rightarrow> launch \<Rightarrow> launch option" where
  "launch_run [] s = Some s"
| "launch_run (a # as) s = (case launch_do a s of None \<Rightarrow> None | Some s' \<Rightarrow> launch_run as s')"

definition launch_zero :: "engine \<Rightarrow> launch" where
  "launch_zero e = \<lparr>la_eng = e, la_pc = \<lambda>_. S_Idle, la_sig = \<lambda>_. 0, la_proc = \<lambda>_. P_None, la_done = []\<rparr>"

lemmas launch_defs = start_step_def proc_step_def go_def become_def return_start_def Let_def

section \<open>Two starts at once\<close>

text \<open>
  A task that waits for a mask, with none of its bits pending, while nobody is inside a start who could
  make it the launcher again and no process is about to signal.
\<close>

definition stranded :: "ptr \<Rightarrow> launch \<Rightarrow> bool" where
  "stranded t s \<longleftrightarrow>
     (\<exists>rb sb m. la_pc s t = S_Waiting rb sb m \<and> la_sig s t AND m = 0) \<and> g_engine_task (la_eng s) \<noteq> NULL \<and>
     (\<forall>u. u \<noteq> t \<longrightarrow> la_pc s u = S_Idle) \<and> (\<forall>q. la_proc s q \<in> {P_None, P_Loop, P_Gone})"

lemma stranded_step: "stranded t s \<Longrightarrow> launch_do a s = Some s' \<Longrightarrow> stranded t s'"
proof (cases a)
  case (Task u env)
  assume "stranded t s" "launch_do a s = Some s'"
  with Task show ?thesis by (cases "u = t") (auto simp: stranded_def launch_defs)
next
  case (Proc q port)
  assume s: "stranded t s" "launch_do a s = Some s'"
  then have "la_proc s q \<in> {P_None, P_Loop, P_Gone}" by (simp add: stranded_def)
  with Proc s(2) show ?thesis by (auto simp: launch_defs)
qed

lemma stranded_run: "stranded t s \<Longrightarrow> launch_run as s = Some s' \<Longrightarrow> stranded t s'"
  by (induction as s rule: launch_run.induct) (auto split: option.splits dest: stranded_step)

text \<open>
  C37: two tasks that start the engine at once: both find no engine, each makes itself the launcher and
  creates a process, and both processes signal the task that stored \<open>g_launcher_task\<close> last. That one
  returns success; there are two engine processes; the other task waits for ever, however the
  run goes on.
\<close>

theorem overlapping_starts_strand_a_task:
  fixes rb sb :: int
  assumes "g_engine_task e = NULL" "t \<noteq> u" "p \<noteq> NULL" "q \<noteq> NULL" "p \<noteq> q" "port \<noteq> NULL"
    and "0 \<le> rb" "rb < 32" "0 \<le> sb"
  shows "\<exists>as s. launch_run as (launch_zero e) = Some s \<and> la_done s = [(u, 0)] \<and>
    la_proc s p = P_Loop \<and> la_proc s q = P_Loop \<and>
    (\<forall>as' s'. launch_run as' s = Some s' \<longrightarrow> (\<exists>rb sb m. la_pc s' t = S_Waiting rb sb m))"
proof -
  let ?a = "Task t \<lparr>self_task = t, ready_bit = rb, stopped_bit = sb, new_task = p, new_port = port\<rparr>"
  let ?b = "Task u \<lparr>self_task = u, ready_bit = rb, stopped_bit = sb, new_task = q, new_port = port\<rparr>"
  let ?as = "[?a, ?b, ?a, ?a, ?a, ?a, ?a, ?b, ?b, ?b, ?b, ?b, ?a, ?b, ?a, ?b,
    Proc p port, Proc p port, Proc p port, Proc p port, Proc q port, Proc q port, Proc q port, Proc q port, ?b, ?b]"
  have m: "bit_mask rb \<noteq> 0" using assms(7,8) by (simp add: bit_mask_def)
  obtain s where s: "launch_run ?as (launch_zero e) = Some s" "la_done s = [(u, 0)]"
    "la_proc s = (\<lambda>_. P_None)(p := P_Loop, q := P_Loop)" "\<forall>v. la_pc s v = (if v = t then S_Waiting rb sb (bit_mask rb) else S_Idle)"
    "la_sig s t = 0" "g_engine_task (la_eng s) = q"
    using assms m by (simp add: launch_zero_def launch_defs fun_upd_twist)
  then have st: "stranded t s" using assms(4) by (simp add: stranded_def)
  have "\<exists>rb sb m. la_pc s' t = S_Waiting rb sb m" if "launch_run as' s = Some s'" for as' s'
    using stranded_run [OF st that] by (auto simp: stranded_def)
  with s assms(5) show ?thesis by (intro exI [of _ ?as] exI [of _ s]) simp
qed

section \<open>One start alone\<close>

text \<open>The globals after the launcher's stores, and as far as the process has gone.\<close>

definition prepared :: "ptr \<Rightarrow> start_env \<Rightarrow> engine \<Rightarrow> engine" where
  "prepared t env e = e\<lparr>g_launcher_task := t, g_launcher_ready_mask := bit_mask (ready_bit env),
     g_launcher_stopped_mask := bit_mask (stopped_bit env), g_engine_ready := False\<rparr>"

fun opened :: "ptr \<Rightarrow> proc_pc \<Rightarrow> engine \<Rightarrow> engine" where
  "opened port P_Open e = e"
| "opened port P_Ready e = e\<lparr>g_request_port := port\<rparr>"
| "opened port P_Running e = e\<lparr>g_request_port := port, g_engine_ready := True\<rparr>"
| "opened port _ e = fst (engine_open e port)"

definition created :: "ptr \<Rightarrow> start_env \<Rightarrow> engine \<Rightarrow> launch \<Rightarrow> bool" where
  "created t env e s \<longleftrightarrow>
     new_task env \<noteq> NULL \<and> la_proc s (new_task env) \<noteq> P_None \<and>
     la_eng s = opened (new_port env) (la_proc s (new_task env)) ((prepared t env e)\<lparr>g_engine_task := new_task env\<rparr>) \<and>
     (la_proc s (new_task env) \<in> {P_Ready, P_Running, P_Signal True, P_Loop} \<longrightarrow> new_port env \<noteq> NULL) \<and>
     (la_proc s (new_task env) \<in> {P_Signal False, P_Gone} \<longrightarrow> new_port env = NULL) \<and>
     (la_sig s t AND bit_mask (ready_bit env) \<noteq> 0 \<longrightarrow> la_proc s (new_task env) \<in> {P_Loop, P_Gone})"

definition with_bits :: "start_env \<Rightarrow> int \<Rightarrow> int \<Rightarrow> bool" where
  "with_bits env rb sb \<longleftrightarrow> rb = ready_bit env \<and> sb = stopped_bit env \<and> 0 \<le> rb \<and> 0 \<le> sb"

definition storing :: "ptr \<Rightarrow> start_env \<Rightarrow> engine \<Rightarrow> int \<Rightarrow> int \<Rightarrow> launch \<Rightarrow> bool" where
  "storing t env e rb sb s \<longleftrightarrow>
     with_bits env rb sb \<and> la_eng s = e \<and> la_proc s (new_task env) = P_None \<and> la_sig s t AND bit_mask rb = 0"

definition during :: "ptr \<Rightarrow> start_env \<Rightarrow> engine \<Rightarrow> launch \<Rightarrow> bool" where
  "during t env e s \<longleftrightarrow>
     (case la_pc s t of
        S_Idle \<Rightarrow> la_eng s = e \<and> la_proc s (new_task env) = P_None
      | S_Self \<Rightarrow> la_eng s = e \<and> la_proc s (new_task env) = P_None
      | S_Bits \<Rightarrow> la_eng s = e\<lparr>g_launcher_task := t\<rparr> \<and> la_proc s (new_task env) = P_None
      | S_ReadyMask rb sb \<Rightarrow> storing t env (e\<lparr>g_launcher_task := t\<rparr>) rb sb s
      | S_StoppedMask rb sb \<Rightarrow> storing t env (e\<lparr>g_launcher_task := t, g_launcher_ready_mask := bit_mask rb\<rparr>) rb sb s
      | S_NotReady rb sb \<Rightarrow> storing t env (e\<lparr>g_launcher_task := t, g_launcher_ready_mask := bit_mask rb,
          g_launcher_stopped_mask := bit_mask sb\<rparr>) rb sb s
      | S_Create rb sb \<Rightarrow> storing t env (prepared t env e) rb sb s
      | S_Wait rb sb \<Rightarrow> with_bits env rb sb \<and> created t env e s
      | S_Waiting rb sb m \<Rightarrow> with_bits env rb sb \<and> m = bit_mask rb \<and> created t env e s
      | S_Check rb sb \<Rightarrow> with_bits env rb sb \<and> created t env e s \<and> la_proc s (new_task env) \<in> {P_Loop, P_Gone})"

definition finished :: "ptr \<Rightarrow> start_env \<Rightarrow> engine \<Rightarrow> int32 \<Rightarrow> launch \<Rightarrow> bool" where
  "finished t env e rc s \<longleftrightarrow> la_proc s (new_task env) \<in> {P_None, P_Loop, P_Gone} \<and>
     (\<exists>calls. NetstackEngine_Start None (env\<lparr>self_task := t\<rparr>) e = (rc, la_eng s, calls))"

definition lone :: "ptr \<Rightarrow> start_env \<Rightarrow> engine \<Rightarrow> launch \<Rightarrow> bool" where
  "lone t env e s \<longleftrightarrow>
     (case la_done s of
        [] \<Rightarrow> during t env e s
      | [(v, rc)] \<Rightarrow> la_pc s t \<noteq> S_Idle \<or> v = t \<and> finished t env e rc s
      | _ \<Rightarrow> True)"

lemma cleared_bit: "(x AND NOT a AND NOT b) AND a = (0 :: uint32)"
  by (rule bit_eqI) (auto simp: bit_simps)

lemma opened_fields [simp]:
  "g_launcher_ready_mask (opened port pc e) = g_launcher_ready_mask e"
  "g_launcher_task (opened port pc e) = g_launcher_task e"
  by (cases pc; simp add: engine_open_def Let_def)+

lemma during_task:
  assumes "during t env e s" "la_done s = []" "start_step t env s = Some s'" "g_engine_task e = NULL"
  shows "lone t env e s'"
  using assms
  by (cases "la_pc s t")
    (auto simp: lone_def during_def storing_def created_def finished_def with_bits_def prepared_def launch_defs
      NetstackEngine_Start_def engine_open_def cleared_bit split: if_splits)

lemma during_proc:
  assumes "during t env e s" "la_done s = []" "proc_step (new_task env) (new_port env) s = Some s'"
  shows "lone t env e s'"
  using assms
  by (cases "la_pc s t"; cases "la_proc s (new_task env)")
    (auto simp: lone_def during_def storing_def created_def with_bits_def prepared_def launch_defs engine_open_def
      split: if_splits)

text \<open>The actions of one launcher and of the process it creates.\<close>

definition alone :: "ptr \<Rightarrow> start_env \<Rightarrow> launch_act \<Rightarrow> bool" where
  "alone t env a \<longleftrightarrow> a = Task t env \<or> a = Proc (new_task env) (new_port env)"

lemma start_step_effect:
  "start_step t env s = Some s' \<Longrightarrow>
   la_done s' = la_done s \<and> la_pc s' t \<noteq> S_Idle \<or> (\<exists>rc. la_done s' = la_done s @ [(t, rc)])"
  by (cases "la_pc s t") (auto simp: launch_defs split: if_splits)

lemma proc_step_effect:
  "proc_step q port s = Some s' \<Longrightarrow>
   la_done s' = la_done s \<and> la_pc s' = la_pc s \<and> la_proc s q \<notin> {P_None, P_Loop, P_Gone}"
  by (cases "la_proc s q") (auto simp: launch_defs)

lemma lone_step:
  assumes "lone t env e s" "alone t env a" "launch_do a s = Some s'" "g_engine_task e = NULL"
  shows "lone t env e s'"
proof (cases "la_done s")
  case Nil
  with assms during_task [of t env e s s'] during_proc [of t env e s s'] show ?thesis
    by (auto simp: lone_def alone_def)
next
  case (Cons d ds)
  have "la_done s' = d # ds \<and> la_pc s' t \<noteq> S_Idle \<or> (\<exists>d' ds'. la_done s' = d # d' # ds')"
    if "a = Task t env"
    using start_step_effect [of t env s s'] that assms(3) Cons by (cases ds) auto
  moreover have "la_done s' = d # ds \<and> la_pc s' t \<noteq> S_Idle \<or> ds \<noteq> []"
    if "a = Proc (new_task env) (new_port env)"
    using proc_step_effect [of "new_task env" "new_port env" s s'] that assms(1,3) Cons
    by (cases ds; cases d) (auto simp: lone_def finished_def)
  moreover have "la_done s' = d # ds" if "a = Proc (new_task env) (new_port env)"
    using proc_step_effect [of "new_task env" "new_port env" s s'] that assms(3) Cons by simp
  ultimately show ?thesis
    using assms(2) by (cases d; cases ds) (auto simp: alone_def lone_def)
qed

lemma lone_run:
  "lone t env e s \<Longrightarrow> g_engine_task e = NULL \<Longrightarrow> list_all (alone t env) as \<Longrightarrow> launch_run as s = Some s' \<Longrightarrow> lone t env e s'"
  by (induction as s rule: launch_run.induct) (auto split: option.splits dest: lone_step)

text \<open>
  C15: a start that no other overlaps is what \<open>Engine\<close> makes of it: however the launcher's steps and those of
  the process it creates interleave, and whatever exec answers, when the launcher has returned, result
  and globals are those of \<open>NetstackEngine_Start\<close> done in one step.
\<close>

theorem lone_start_atomic:
  assumes "g_engine_task e = NULL" "list_all (alone t env) as" "launch_run as (launch_zero e) = Some s"
    and "la_done s = [(t, rc)]" "la_pc s t = S_Idle"
  shows "\<exists>calls. NetstackEngine_Start None (env\<lparr>self_task := t\<rparr>) e = (rc, la_eng s, calls)"
proof -
  have "lone t env e (launch_zero e)" by (simp add: lone_def during_def launch_zero_def)
  from lone_run [OF this assms(1-3)] assms(4,5) show ?thesis by (simp add: lone_def finished_def)
qed

text \<open>The process runs to its loop before the launcher waits.\<close>

definition lone_launch :: "launch_act list" where
  "lone_launch =
     (let a = Task 0x100 boot_env; b = Proc 0x200 0x300 in [a, a, a, a, a, a, a, b, b, b, b, a, a, a])"

lemma lone_launch_run:
  "\<exists>s. launch_run lone_launch (launch_zero engine_init) = Some s \<and> la_done s = [(0x100, 0)] \<and> la_pc s 0x100 = S_Idle \<and>
     g_engine_ready (la_eng s) \<and> g_request_port (la_eng s) = 0x300"
  by (simp add: lone_launch_def launch_zero_def launch_defs boot_env_def engine_init_def bit_mask_def)

theorem lone_start_atomic_witness:
  "\<exists>s calls. launch_run lone_launch (launch_zero engine_init) = Some s \<and> g_engine_ready (la_eng s) \<and>
     NetstackEngine_Start None boot_env engine_init = (0, la_eng s, calls)"
proof -
  obtain s where s: "launch_run lone_launch (launch_zero engine_init) = Some s" "la_done s = [(0x100, 0)]"
    "la_pc s 0x100 = S_Idle" "g_engine_ready (la_eng s)" using lone_launch_run by blast
  have "list_all (alone 0x100 boot_env) lone_launch"
    by (simp add: lone_launch_def alone_def boot_env_def Let_def)
  from lone_start_atomic [OF _ this s(1-3)] s show ?thesis
    by (auto simp: engine_init_def boot_env_def)
qed

theorem overlapping_starts_strand_a_task_witness:
  "\<exists>as s. launch_run as (launch_zero engine_init) = Some s \<and> la_done s = [(0x180, 0)] \<and>
    (\<forall>as' s'. launch_run as' s = Some s' \<longrightarrow> (\<exists>rb sb m. la_pc s' 0x100 = S_Waiting rb sb m))"
  using overlapping_starts_strand_a_task [of engine_init "0x100" "0x180" "0x200" "0x280" "0x300" 16 17]
  by (auto simp: engine_init_def)

end
