(* ===== verification/EchoTest.thy ===== *)
theory EchoTest
  imports ClientSteps
begin

text \<open>
  The repository's end-to-end test, \<open>tests/phase3/test_echo.c\<close>, as a program over the client library: it starts
  the engine, looks for a listener where there is none, sets up a server and a client, reads and accepts too early,
  sends a message in each direction, closes one end and reads end of file on the other, and stops the engine.
  \<open>goto done\<close> is a stage that ends with \<open>True\<close>. What it prints is left out.
\<close>

section \<open>The program\<close>

record echo_vars =
  et_ok :: bool
  et_server :: int32
  et_client :: int32
  et_accepted :: int32
  et_world :: world

text \<open>A variable that a call may have stored to.\<close>

definition stored :: "'a \<Rightarrow> 'a option \<Rightarrow> 'a" where
  "stored old new = (case new of None \<Rightarrow> old | Some x \<Rightarrow> x)"

definition check :: "bool \<Rightarrow> echo_vars \<Rightarrow> echo_vars" where
  "check good s = (if good then s else s\<lparr>et_ok := False\<rparr>)"

definition expect_eq_str :: "uint8 list option \<Rightarrow> int32 \<Rightarrow> uint8 list \<Rightarrow> bool" where
  "expect_eq_str got got_len want = (got_len = int (length want) \<and> take (length want) (stored [] got) = want)"

definition probe_stage :: "ipc_env \<Rightarrow> echo_vars \<Rightarrow> (bool \<times> echo_vars) option" where
  "probe_stage env s =
     do {
       (rv, out, w1) \<leftarrow> netstack_socket env 2 1 0 (et_world s);
       let probe = stored (-1) out;
       if rv \<noteq> 0 then Some (True, s\<lparr>et_ok := False, et_world := w1\<rparr>)
       else do {
         (rv2, w2) \<leftarrow> netstack_connect env probe 65535 w1;
         (rv3, w3) \<leftarrow> netstack_close env probe w2;
         Some (False, check (rv2 = NETSTACK_ECONNREFUSED) (s\<lparr>et_world := w3\<rparr>))
       }
     }"

definition server_stage :: "ipc_env \<Rightarrow> echo_vars \<Rightarrow> (bool \<times> echo_vars) option" where
  "server_stage env s =
     do {
       (rv, out, w1) \<leftarrow> netstack_socket env 2 1 0 (et_world s);
       let server = stored (et_server s) out;
       if rv \<noteq> 0 then Some (True, s\<lparr>et_ok := False, et_server := server, et_world := w1\<rparr>)
       else do {
         (rv2, w2) \<leftarrow> netstack_bind env server 1234 w1;
         if rv2 \<noteq> 0 then Some (True, s\<lparr>et_ok := False, et_server := server, et_world := w2\<rparr>)
         else do {
           (rv3, w3) \<leftarrow> netstack_listen env server 4 w2;
           if rv3 \<noteq> 0 then Some (True, s\<lparr>et_ok := False, et_server := server, et_world := w3\<rparr>)
           else do {
             (rv4, out4, w4) \<leftarrow> netstack_accept env server w3;
             Some (False, check (rv4 = NETSTACK_EAGAIN) (s\<lparr>et_server := server, et_world := w4\<rparr>))
           }
         }
       }
     }"

definition client_stage :: "ipc_env \<Rightarrow> uint8 list \<Rightarrow> echo_vars \<Rightarrow> (bool \<times> echo_vars) option" where
  "client_stage env buf s =
     do {
       (rv, out, w1) \<leftarrow> netstack_socket env 2 1 0 (et_world s);
       let client = stored (et_client s) out;
       if rv \<noteq> 0 then Some (True, s\<lparr>et_ok := False, et_client := client, et_world := w1\<rparr>)
       else do {
         (rv2, w2) \<leftarrow> netstack_connect env client 1234 w1;
         if rv2 \<noteq> 0 then Some (True, s\<lparr>et_ok := False, et_client := client, et_world := w2\<rparr>)
         else do {
           (rv3, out3, w3) \<leftarrow> netstack_accept env (et_server s) w2;
           let accepted = stored (et_accepted s) (map_option fst out3);
           (rv4, buf', w4) \<leftarrow> netstack_recv env accepted (Some buf) 16 w3;
           Some (False, check (rv4 = NETSTACK_EAGAIN) (check (rv3 = NETSTACK_OK \<and> \<not> accepted < 0)
             (s\<lparr>et_client := client, et_accepted := accepted, et_world := w4\<rparr>)))
         }
       }
     }"

text \<open>One message: sent on \<open>a\<close>, read on \<open>b\<close> into a buffer of 64 zero bytes.\<close>

definition message_stage :: "ipc_env \<Rightarrow> uint8 list \<Rightarrow> int32 \<Rightarrow> int32 \<Rightarrow> echo_vars \<Rightarrow> echo_vars option" where
  "message_stage env msg a b s =
     do {
       (sent, w1) \<leftarrow> netstack_send env a msg (int (length msg)) (et_world s);
       (got, rxbuf, w2) \<leftarrow> netstack_recv env b (Some (replicate 64 0)) 63 w1;
       Some (check (expect_eq_str rxbuf got msg) (check (sent = int (length msg)) (s\<lparr>et_world := w2\<rparr>)))
     }"

definition eof_stage :: "ipc_env \<Rightarrow> uint8 list \<Rightarrow> echo_vars \<Rightarrow> echo_vars option" where
  "eof_stage env buf s =
     do {
       (rv1, w1) \<leftarrow> netstack_close env (et_accepted s) (et_world s);
       (rv2, buf', w2) \<leftarrow> netstack_recv env (et_client s) (Some buf) 16 w1;
       Some (check (rv2 = 0) (s\<lparr>et_accepted := -1, et_world := w2\<rparr>))
     }"

definition close_if_open :: "ipc_env \<Rightarrow> int32 \<Rightarrow> world \<Rightarrow> world option" where
  "close_if_open env fd w = (if fd \<ge> 0 then map_option snd (netstack_close env fd w) else Some w)"

text \<open>The label \<open>done\<close>; \<open>reply\<close> is the port exec gives the stop.\<close>

definition done_stage :: "ipc_env \<Rightarrow> ptr \<Rightarrow> echo_vars \<Rightarrow> (int32 \<times> world) option" where
  "done_stage env reply s =
     do {
       w1 \<leftarrow> close_if_open env (et_server s) (et_world s);
       w2 \<leftarrow> close_if_open env (et_client s) w1;
       w3 \<leftarrow> close_if_open env (et_accepted s) w2;
       let c = fst (netstack_client_shutdown (cl w3));
       let e = fst (snd (NetstackEngine_Stop reply (eng w3)));
       Some (if et_ok s then 0 else 20, \<lparr>cl = c, eng = e\<rparr>)
     }"

definition hello :: "uint8 list" where
  "hello = [104, 101, 108, 108, 111, 32, 119, 111, 114, 108, 100, 33]"

definition pong :: "uint8 list" where
  "pong = [112, 111, 110, 103]"

definition echo_stages :: "ipc_env \<Rightarrow> ptr \<Rightarrow> uint8 list \<Rightarrow> world \<Rightarrow> (int32 \<times> world) option" where
  "echo_stages env reply buf w =
     do {
       (j1, s1) \<leftarrow> probe_stage env \<lparr>et_ok = True, et_server = -1, et_client = -1, et_accepted = -1, et_world = w\<rparr>;
       if j1 then done_stage env reply s1
       else do {
         (j2, s2) \<leftarrow> server_stage env s1;
         if j2 then done_stage env reply s2
         else do {
           (j3, s3) \<leftarrow> client_stage env buf s2;
           if j3 then done_stage env reply s3
           else do {
             s4 \<leftarrow> message_stage env hello (et_client s3) (et_accepted s3) s3;
             s5 \<leftarrow> message_stage env pong (et_accepted s4) (et_client s4) s4;
             s6 \<leftarrow> eof_stage env buf s5;
             done_stage env reply s6
           }
         }
       }
     }"

text \<open>\<open>buf\<close> is what the uninitialised buffers on the stack hold.\<close>

definition test_echo :: "start_env \<Rightarrow> ipc_env \<Rightarrow> ptr \<Rightarrow> uint8 list \<Rightarrow> world \<Rightarrow> (int32 \<times> world) option" where
  "test_echo st env reply buf w =
     (case NetstackEngine_Start None st (eng w) of
        (rc, e, calls) \<Rightarrow>
          if rc \<noteq> 0 then Some (20, w\<lparr>eng := e\<rparr>)
          else
            (case netstack_client_init env (cl w) of
               (rc2, c) \<Rightarrow>
                 if rc2 \<noteq> 0 then Some (20, \<lparr>cl = c, eng = fst (snd (NetstackEngine_Stop reply e))\<rparr>)
                 else echo_stages env reply buf \<lparr>cl = c, eng = e\<rparr>))"

section \<open>The stages\<close>

definition listener :: sock where
  "listener = plain_sock\<lparr>s_port := 1234, s_kind := Listening\<rparr>"

definition connected_to :: "int32 option \<Rightarrow> sock" where
  "connected_to p = plain_sock\<lparr>s_kind := Connected, s_peer := p\<rparr>"

text \<open>The sockets once the server has accepted the client.\<close>

definition echo_pair :: socks where
  "echo_pair = [3 \<mapsto> listener, 4 \<mapsto> connected_to (Some 5), 5 \<mapsto> (connected_to (Some 4))\<lparr>s_port := 1234\<rparr>]"

lemmas sock_defs = plain_sock_def listener_def connected_to_def

lemma probe_ok:
  assumes "up env (et_world s) Map.empty"
  obtains w where "probe_stage env s = Some (False, s\<lparr>et_world := w\<rparr>)" "up env w Map.empty"
proof -
  obtain w1 where w1: "netstack_socket env 2 1 0 (et_world s) = Some (0, Some 3, w1)" "up env w1 [3 \<mapsto> plain_sock]"
    by (rule up_socket [OF assms, of 3]) (simp add: free_fd_eval del: upto_rec_numeral)
  have none: "find (\<lambda>i. listener_on 65535 ([3 \<mapsto> plain_sock] i)) all_fds = None"
    by (auto simp: find_None_iff listener_on_def plain_sock_def split: if_splits)
  obtain w2 where w2: "netstack_connect env 3 65535 w1 = Some (NETSTACK_ECONNREFUSED, w2)" "up env w2 [3 \<mapsto> plain_sock]"
    by (rule up_connect_refused [OF w1(2), of 3 plain_sock 65535]) (simp_all only: none, simp_all add: plain_sock_def)
  obtain w3 where w3: "netstack_close env 3 w2 = Some (0, w3)" "up env w3 Map.empty"
    by (rule up_close [OF w2(2), of 3 plain_sock]) (simp_all add: disconnect_def plain_sock_def)
  show thesis by (rule that [of w3]) (simp_all add: probe_stage_def w1(1) w2(1) w3 stored_def check_def)
qed

lemma server_ok:
  assumes "up env (et_world s) Map.empty"
  obtains w where "server_stage env s = Some (False, s\<lparr>et_server := 3, et_world := w\<rparr>)" "up env w [3 \<mapsto> listener]"
proof -
  obtain w1 where w1: "netstack_socket env 2 1 0 (et_world s) = Some (0, Some 3, w1)" "up env w1 [3 \<mapsto> plain_sock]"
    by (rule up_socket [OF assms, of 3]) (simp add: free_fd_eval del: upto_rec_numeral)
  obtain w2 where w2: "netstack_bind env 3 1234 w1 = Some (0, w2)" "up env w2 [3 \<mapsto> plain_sock\<lparr>s_port := 1234\<rparr>]"
    by (rule up_bind [OF w1(2), of 3 plain_sock 1234]) (auto simp: plain_sock_def holds_port_def)
  obtain w3 where w3: "netstack_listen env 3 4 w2 = Some (0, w3)" "up env w3 [3 \<mapsto> listener]"
    by (rule up_listen [OF w2(2), of 3 "plain_sock\<lparr>s_port := 1234\<rparr>" 4]) (simp_all add: sock_defs)
  obtain w4 out where w4: "netstack_accept env 3 w3 = Some (NETSTACK_EAGAIN, out, w4)" "up env w4 [3 \<mapsto> listener]"
    by (rule up_accept_empty [OF w3(2), of 3 listener]) (simp_all add: sock_defs)
  show thesis
    by (rule that [of w4]) (simp_all add: server_stage_def w1(1) w2(1) w3(1) w4 stored_def check_def)
qed

lemma client_ok:
  assumes "up env (et_world s) [3 \<mapsto> listener]" "et_server s = 3"
  obtains w where "client_stage env buf s = Some (False, s\<lparr>et_client := 4, et_accepted := 5, et_world := w\<rparr>)"
    "up env w echo_pair"
proof -
  let ?m = "[3 \<mapsto> listener\<lparr>s_queue := [4]\<rparr>, 4 \<mapsto> connected_to None]"
  obtain w1 where w1: "netstack_socket env 2 1 0 (et_world s) = Some (0, Some 4, w1)"
    "up env w1 [3 \<mapsto> listener, 4 \<mapsto> plain_sock]"
    by (rule up_socket [OF assms(1), of 4]) (simp add: free_fd_eval del: upto_rec_numeral)
  have find: "find (\<lambda>i. listener_on 1234 ([3 \<mapsto> listener, 4 \<mapsto> plain_sock] i)) all_fds = Some 3"
    by (simp add: find_all_fds_eval listener_on_def sock_defs del: upto_rec_numeral)
  obtain w2 where w2: "netstack_connect env 4 1234 w1 = Some (0, w2)" "up env w2 ?m"
  proof (rule up_connect [OF w1(2) _ _ find, of 4 plain_sock listener])
    fix w2
    let ?m' = "[3 \<mapsto> listener, (4 :: int32) \<mapsto> plain_sock, 4 \<mapsto> plain_sock\<lparr>s_kind := Connected, s_peer := None\<rparr>, 3 \<mapsto> listener\<lparr>s_queue := [4]\<rparr>]"
    assume "netstack_connect env 4 1234 w1 = Some (0, w2)" "up env w2 ?m'"
    moreover have "?m' = ?m" by (rule ext) (simp add: connected_to_def)
    ultimately show thesis by (intro that) (simp_all only:)
  qed (simp_all add: sock_defs)
  obtain w3 where w3: "netstack_accept env 3 w2 = Some (0, Some (5, 1234), w3)" "up env w3 echo_pair"
  proof (rule up_accept [OF w2(2), of 3 "listener\<lparr>s_queue := [4]\<rparr>" 4 "[]" 5])
    fix w3
    let ?m' = "attach 4 5 (?m(3 \<mapsto> listener\<lparr>s_queue := [4], s_queue := []\<rparr>,
      5 \<mapsto> \<lparr>s_kind = Connected, s_domain = s_domain (listener\<lparr>s_queue := [4]\<rparr>), s_type = s_type (listener\<lparr>s_queue := [4]\<rparr>),
        s_proto = s_proto (listener\<lparr>s_queue := [4]\<rparr>), s_port = s_port (listener\<lparr>s_queue := [4]\<rparr>), s_queue = [],
        s_peer = Some 4, s_stream = []\<rparr>))"
    assume "netstack_accept env 3 w2 = Some (0, Some (5, s_port (listener\<lparr>s_queue := [4]\<rparr>)), w3)" "up env w3 ?m'"
    moreover have "?m' = echo_pair" by (rule ext) (simp add: echo_pair_def attach_def sock_defs)
    ultimately show thesis by (intro that) (simp_all add: listener_def)
  qed (simp_all add: sock_defs free_fd_eval del: upto_rec_numeral)
  obtain w4 where w4: "netstack_recv env 5 (Some buf) 16 w3 = Some (NETSTACK_EAGAIN, Some buf, w4)" "up env w4 echo_pair"
    by (rule up_recv_nothing [OF w3(2), of 5 "(connected_to (Some 4))\<lparr>s_port := 1234\<rparr>" 16 buf])
      (simp_all add: echo_pair_def sock_defs)
  show thesis
    by (rule that [of w4]) (simp_all add: client_stage_def assms(2) w1(1) w2(1) w3(1) w4 stored_def check_def)
qed

lemma message_ok:
  assumes "up env (et_world s) echo_pair" "(a, b) = (4, 5) \<or> (a, b) = (5, 4)" "msg \<noteq> []" "length msg < 64"
  obtains w where "message_stage env msg a b s = Some (s\<lparr>et_world := w\<rparr>)" "up env w echo_pair"
proof -
  obtain sa sb where e: "echo_pair a = Some sa" "s_peer sa = Some b" "echo_pair b = Some sb" "s_kind sb = Connected"
    "s_stream sb = []"
    using assms(2) by (auto simp: echo_pair_def sock_defs)
  have on: "online env (et_world s)" "sockets (et_world s) = echo_pair" using assms(1) by (simp_all add: up_def)
  obtain w1 w2 where w: "netstack_send env a msg (int (length msg)) (et_world s) = Some (int (length msg), w1)"
    "netstack_recv env b (Some (replicate 64 0)) 63 w1 = Some (int (length msg), Some (blit (replicate 64 0) 0 msg), w2)"
    "up env w2 echo_pair"
    using client_round_trip [OF on(1), of a sa b sb "int (length msg)" msg 63 "replicate 64 0"] e assms(3,4) on(2)
    by (auto simp: up_def)
  have "take (length msg) (blit (replicate 64 0) 0 msg) = msg" using assms(4) by (simp add: blit_def)
  with w show thesis
    by (intro that [of w2]) (simp_all add: message_stage_def expect_eq_str_def stored_def check_def)
qed

lemma eof_ok:
  assumes "up env (et_world s) echo_pair" "et_accepted s = 5" "et_client s = 4"
  obtains w where "eof_stage env buf s = Some (s\<lparr>et_accepted := -1, et_world := w\<rparr>)"
    "up env w [3 \<mapsto> listener, 4 \<mapsto> connected_to None]"
proof -
  let ?m = "[3 \<mapsto> listener, 4 \<mapsto> connected_to None]"
  have "(disconnect (Some 4) echo_pair)(5 := None) = ?m"
    by (rule ext) (simp add: disconnect_def echo_pair_def connected_to_def)
  then obtain w1 where w1: "netstack_close env 5 (et_world s) = Some (0, w1)" "up env w1 ?m"
    by (rule_tac up_close [OF assms(1), of 5 "(connected_to (Some 4))\<lparr>s_port := 1234\<rparr>"])
      (simp_all add: echo_pair_def connected_to_def)
  obtain w2 where w2: "netstack_recv env 4 (Some buf) 16 w1 = Some (0, Some buf, w2)" "up env w2 ?m"
    by (rule up_recv_nothing [OF w1(2), of 4 "connected_to None" 16 buf]) (simp_all add: sock_defs)
  show thesis by (rule that [of w2]) (simp_all add: eof_stage_def assms(2,3) w1(1) w2 check_def)
qed

lemma stop_leaves:
  "g_engine_task (fst (snd (NetstackEngine_Stop reply s))) = NULL"
  "g_fdtable (fst (snd (NetstackEngine_Stop reply s))) = g_fdtable s"
  by (simp_all add: NetstackEngine_Stop_def engine_stops_def stop_finish_def engine_teardown_def split_beta
      drain_port.simps dispatch_request_def dispatch_shutdown_def shutdown_req_def Let_def)

lemma done_ok:
  assumes "up env (et_world s) [3 \<mapsto> listener, 4 \<mapsto> connected_to None]"
    and "et_server s = 3" "et_client s = 4" "et_accepted s = -1" "et_ok s"
  obtains w where "done_stage env reply s = Some (0, w)" "\<not> NetstackEngine_IsRunning (eng w)" "abs_table (g_fdtable (eng w)) = Map.empty"
proof -
  obtain w1 where w1: "netstack_close env 3 (et_world s) = Some (0, w1)" "up env w1 [4 \<mapsto> connected_to None]"
    by (rule up_close [OF assms(1), of 3 listener]) (auto simp: disconnect_def sock_defs fun_upd_twist)
  obtain w2 where w2: "netstack_close env 4 w1 = Some (0, w2)" "up env w2 Map.empty"
    by (rule up_close [OF w1(2), of 4 "connected_to None"]) (auto simp: disconnect_def sock_defs)
  let ?w = "\<lparr>cl = fst (netstack_client_shutdown (cl w2)), eng = fst (snd (NetstackEngine_Stop reply (eng w2)))\<rparr>"
  show thesis
  proof (rule that [of ?w])
    show "done_stage env reply s = Some (0, ?w)"
      by (simp add: done_stage_def close_if_open_def assms(2-5) w1(1) w2(1))
    show "\<not> NetstackEngine_IsRunning (eng ?w)" by (simp add: NetstackEngine_IsRunning_def stop_leaves)
    show "abs_table (g_fdtable (eng ?w)) = Map.empty" using w2(2) by (simp add: stop_leaves up_def sockets_def)
  qed
qed

text \<open>
  C7: the repository's echo test passes. From power-on, if exec has the two signal bits, the task, the
  port and the reply port, the program of \<open>test_echo.c\<close> returns 0: every call in it gives what the test
  wants, the errors it provokes included, both messages arrive byte for byte, and at the end no
  socket is open and no engine runs.
\<close>

theorem test_echo_passes:
  assumes "0 \<le> ready_bit st" "0 \<le> stopped_bit st" "new_task st \<noteq> NULL" "new_port st \<noteq> NULL"
    and "env_find_port env = new_port st" "env_me env \<noteq> NULL" "env_alloc_port env \<noteq> NULL"
  shows "\<exists>w. test_echo st env reply buf \<lparr>cl = client_zero, eng = engine_init\<rparr> = Some (0, w) \<and>
    \<not> NetstackEngine_IsRunning (eng w) \<and> abs_table (g_fdtable (eng w)) = Map.empty"
proof -
  obtain e calls c where start: "NetstackEngine_Start None st engine_init = (0, e, calls)"
    "netstack_client_init env client_zero = (0, c)" "up env \<lparr>cl = c, eng = e\<rparr> Map.empty"
    by (rule started_up [OF assms])
  let ?s0 = "\<lparr>et_ok = True, et_server = -1, et_client = -1, et_accepted = -1, et_world = \<lparr>cl = c, eng = e\<rparr>\<rparr>"
  obtain w1 where s1: "probe_stage env ?s0 = Some (False, ?s0\<lparr>et_world := w1\<rparr>)" "up env w1 Map.empty"
    by (rule probe_ok [of env ?s0]) (simp add: start(3))
  let ?s1 = "?s0\<lparr>et_world := w1\<rparr>"
  obtain w2 where s2: "server_stage env ?s1 = Some (False, ?s1\<lparr>et_server := 3, et_world := w2\<rparr>)" "up env w2 [3 \<mapsto> listener]"
    by (rule server_ok [of env ?s1]) (simp add: s1(2))
  let ?s2 = "?s1\<lparr>et_server := 3, et_world := w2\<rparr>"
  obtain w3 where s3: "client_stage env buf ?s2 = Some (False, ?s2\<lparr>et_client := 4, et_accepted := 5, et_world := w3\<rparr>)"
    "up env w3 echo_pair"
    by (rule client_ok [of env ?s2 buf]) (simp_all add: s2(2))
  let ?s3 = "?s2\<lparr>et_client := 4, et_accepted := 5, et_world := w3\<rparr>"
  obtain w4 where s4: "message_stage env hello 4 5 ?s3 = Some (?s3\<lparr>et_world := w4\<rparr>)" "up env w4 echo_pair"
    by (rule message_ok [of env ?s3 4 5 hello]) (simp_all add: s3(2) hello_def)
  let ?s4 = "?s3\<lparr>et_world := w4\<rparr>"
  obtain w5 where s5: "message_stage env pong 5 4 ?s4 = Some (?s4\<lparr>et_world := w5\<rparr>)" "up env w5 echo_pair"
    by (rule message_ok [of env ?s4 5 4 pong]) (simp_all add: s4(2) pong_def)
  let ?s5 = "?s4\<lparr>et_world := w5\<rparr>"
  obtain w6 where s6: "eof_stage env buf ?s5 = Some (?s5\<lparr>et_accepted := -1, et_world := w6\<rparr>)"
    "up env w6 [3 \<mapsto> listener, 4 \<mapsto> connected_to None]"
    by (rule eof_ok [of env ?s5 buf]) (simp_all add: s5(2))
  obtain w where w: "done_stage env reply (?s5\<lparr>et_accepted := -1, et_world := w6\<rparr>) = Some (0, w)"
    "\<not> NetstackEngine_IsRunning (eng w)" "abs_table (g_fdtable (eng w)) = Map.empty"
    by (rule done_ok [of env "?s5\<lparr>et_accepted := -1, et_world := w6\<rparr>" reply]) (simp_all add: s6(2))
  show ?thesis
    using s1(1) s2(1) s3(1) s4(1) s5(1) s6(1) w
    by (intro exI [of _ w]) (simp add: test_echo_def start(1,2) echo_stages_def)
qed

theorem test_echo_passes_witness:
  "\<exists>w. test_echo boot_env task_env 0x500 (replicate 16 7) \<lparr>cl = client_zero, eng = engine_init\<rparr> = Some (0, w) \<and>
    abs_table (g_fdtable (eng w)) = Map.empty"
  using test_echo_passes [of boot_env task_env "0x500" "replicate 16 7"] by (auto simp: boot_env_def task_env_def)

end
