(* ===== verification/Spec2Isabelle.thy ===== *)
theory Spec2Isabelle
  imports Prelude Fifo Slots Ipc FdTable FdInv SockSpec Engine Lifecycle Pairing ByteStream Client Scenario SocketProps EngineProps ClientProps Bsdsocket CondVar NetDev Registry Atomics Osal Timer Threads Popcount Hypercalls Session Locks Concurrent Typed Vectors Diag Skeletons LinkStubs TrapEmul Monitor LazyInit TaskStream Launch ClientSteps EchoTest
begin

text \<open>
  \<^bold>\<open>A TCP/IP stack for AmigaOS 4: the socket service, its clients and its run-time layer.\<close>

  The program. An engine process (\<open>src/phase2_engine\<close>) owns a table of sockets and serves requests
  that arrive as messages on a port. Applications reach it through a client library
  (\<open>src/phase3_bsdsocket/socket_ipc.c\<close>), which sends one message per call and waits for the reply,
  and through \<open>bsdsocket.library\<close> (\<open>bsdsocket_library.c\<close>), which starts the engine on first use
  and translates socket addresses. Below lies an operating-system layer (\<open>src/phase1_osal\<close>) with
  memory, threads, timers, condition variables and atomic operations for the rump kernel that is
  to replace the loopback table, and beside it the driver interface (\<open>src/phase4_netdev\<close>): a
  lock-free descriptor ring and a registry of drivers.

  \<^bold>\<open>Theories.\<close>
  \<^item> \<open>Prelude\<close>: C integers, arrays, linear search, block copies, ring contents, word lemmas.
  \<^item> \<open>Fifo\<close>: the locale \<open>bounded_fifo\<close> of a queue and \<open>ring_queue\<close> of an array ring, which implies
    it. Interpreted by the listener backlog (\<open>FdInv\<close>), the waiter ring (\<open>CondVar\<close>), the
    descriptor ring (\<open>NetDev\<close>) and the queue of \<open>Monitor\<close>.
  \<^item> \<open>Slots\<close>: the locale \<open>task_slots\<close> of a table with one slot per task. Interpreted by the reply
    ports (\<open>Client\<close>) and the timer requests (\<open>Timer\<close>).
  \<^item> \<open>Ipc\<close>: \<open>struct NetstackReq\<close> and the codes of \<open>include/netstack/netstack_ipc.h\<close>.
  \<^item> \<open>FdTable\<close>: every function of \<open>fdtable.c\<close>; the table is a list of 128 records with the fields of
    \<open>struct fd_entry\<close>. \<open>FdInv\<close>: its well-formedness, kept by every handler.
  \<^item> \<open>SockSpec\<close>: the abstract socket layer (a map from descriptors to sockets with a queue of clients
    and a stream of bytes) and, per handler, that the table implements it.
  \<^item> \<open>Engine\<close>: \<open>engine_main.c\<close> as functions: dispatch, draining the port, the loop, start, stop. The
    locale \<open>socket_handler\<close> is the contract of a handler; each of the eight handlers interprets it.
    \<open>Lifecycle\<close>: start, requests, break and stop as a step relation with the signal bits exec
    handed out. \<open>Typed\<close>: the locale \<open>fitting_handler\<close> of a handler that keeps every integer within 32
    bits, interpreted by all eight.
  \<^item> \<open>Pairing\<close>: symmetry of connections. \<open>ByteStream\<close>: the locale \<open>stream_service\<close> of a service that
    conserves bytes, interpreted by the engine for any two descriptors that are connected to each other and to
    nobody else.
  \<^item> \<open>Client\<close>: \<open>socket_ipc.c\<close>. \<open>Concurrent\<close>: its remote call and the engine's loop taken apart into steps
    that any number of tasks interleave, with the message in the memory both sides write, and that
    a call nothing interrupts is the one step \<open>Client\<close> takes it for.
    \<open>TaskStream\<close>: a connection as a writing and a reading task see it. \<open>Launch\<close>: the start of the engine
    taken apart in the same way, for many launchers. \<open>Scenario\<close>: the concrete echo session that the witnesses use.
    \<open>SocketProps\<close>, \<open>EngineProps\<close>, \<open>ClientProps\<close>: the properties of these parts.
  \<^item> \<open>Bsdsocket\<close>: \<open>bsdsocket_library.c\<close>, library manager and \<open>bs_\<close> functions.
    \<open>ClientSteps\<close>: what each client call does to the sockets while the engine is up. \<open>EchoTest\<close>: the program of
    \<open>tests/phase3/test_echo.c\<close>. \<open>Session\<close>: a whole session through library, client, port, engine and table; it calls the \<open>bs_\<close>
    functions directly. \<open>Vectors\<close>: the library's vector tables, tags and resident module, and the layouts by which
    programs call through the tables.
  \<^item> \<open>CondVar\<close>: the condition variables of \<open>osal_lock.c\<close>, alone and with tasks interleaving.
    \<open>Locks\<close>: its mutexes and reader-writer locks over a semaphore of exec, which is a parameter.
    \<open>Monitor\<close>: both together, under the bounded queue of \<open>tests/phase1/test_cv.c\<close>; its steps are steps of
    the abstract buffer of \<open>BufferSpec\<close>, which \<open>BufferRuns\<close> shows to be neither stuck nor endless.
  \<^item> \<open>Atomics\<close>: \<open>rump_atomics.c\<close> instruction by instruction over load-reserve and
    store-conditional, and the byte swaps.
  \<^item> \<open>LazyInit\<close>: the locale \<open>lazy_section\<close> of a critical section whose semaphore its first user initialises,
    step by step for any number of tasks; interpreted by the sections of \<open>ensure_engine_port\<close>,
    \<open>ensure_reply_port\<close> and \<open>timer_slot_for_current_task\<close>, which \<open>Client\<close> and \<open>Timer\<close> take as one step.
  \<^item> \<open>Osal\<close>, \<open>Timer\<close>, \<open>Threads\<close>: \<open>osal_memory.c\<close>, \<open>osal_timer.c\<close>, \<open>osal_thread.c\<close>, with one book of
    the resources obtained from exec and given back.
  \<^item> \<open>Hypercalls\<close>: boot parameters and entropy of \<open>osal_diag.c\<close>, string and byte routines of
    \<open>rump_link_stubs.c\<close>. \<open>Popcount\<close>: its population count. \<open>LinkStubs\<close>: its stubs that return a value
    or write through a pointer, and those of \<open>rump_kern_globals.c\<close>. \<open>Diag\<close>: trace file, console and
    panic of \<open>osal_diag.c\<close>. \<open>TrapEmul\<close>: the trap handler of \<open>tests/phase2/test_rump_init.c\<close> with
    which the rump kernel runs in user mode, against the processor's definition of the instructions.
  \<^item> \<open>NetDev\<close>: \<open>netdev_ring.c\<close> as functions and load by load. \<open>Registry\<close>: the locale
    \<open>name_registry\<close>, interpreted by \<open>netdev_registry.c\<close>; the reference driver's registration.
    \<open>Skeletons\<close>: the vectors of \<open>reference_driver.c\<close>, and the functions of \<open>mbuf_pool.c\<close>, \<open>engine_init.c\<close>
    and \<open>sana2_bridge.c\<close>, which refuse or do nothing.

  \<^bold>\<open>How code becomes definitions.\<close> A C function is a function from the state it reads, and
  what the operating system answers, to its result, the state it leaves and the calls it makes; definitions
  keep the names of the source. Exec (ports, signals, tasks, semaphores, memory) is not under
  \<open>src\<close>: its answers are arguments (\<open>start_env\<close>, \<open>ipc_env\<close>,
  \<open>bsd_env\<close>, \<open>timer_env\<close>, \<open>thread_env\<close>, \<open>alloc\<close>,
  \<open>exec_sem\<close>) and its calls are recorded (\<open>exec_call\<close>, \<open>os_event\<close>).
  Unsigned integers are words; signed ones are integers whose range the invariants bound. Failures are the
  codes of the source. Loops over arrays are recursive functions that terminate; the polling loops of a timed
  wait and of a join, which may not, are partial functions with \<open>None\<close> for a loop that never
  ends, and a call that waits for a reply that never comes is \<open>None\<close> too. No definition needs
  fuel. The engine's loop runs over the list of wakeups it receives.

  \<^bold>\<open>What is shown.\<close> The engine implements the abstract socket layer for every sequence of
  requests (\<open>engine_implements_sockets\<close>), keeps every index in bounds in every reachable state,
  keeps connections symmetric as long as no queued client is closed, and conserves the byte stream of
  two sockets that are connected to each other and to nobody else, whatever is done to the others. With any number of tasks calling at once, calls take effect one at a time, each returns its own
  reply (\<open>calls_linearizable\<close>) and none waits for ever while the engine is in its loop; two tasks that talk
  over a connection see a pipe (\<open>tasks_see_a_pipe\<close>). What is modelled in one step is so in fact: a call that nothing
  interrupts (\<open>lone_call_atomic\<close>), a start that no other overlaps (\<open>lone_start_atomic\<close>), and the sections under a semaphore that has been initialised
  (\<open>timer_calls_serial\<close>, \<open>reply_calls_serial\<close>, \<open>engine_port_calls_serial\<close>). No signed value the engine computes leaves 32 bits
  (\<open>engine_values_fit\<close>). Every message is answered, shutdown completes its batch, signal bits balance. Each operation has
  its functional behaviour on success and its errors. A whole session from power-on, through library, client,
  port, engine and buffers, delivers its message (\<open>echo_session_works\<close>), and the repository's own end-to-end
  test passes (\<open>test_echo_passes\<close>). The library's expunge is
  put off to the last close, which stops client and engine (\<open>expunge_at_last_close\<close>). Mutexes and reader-writer locks exclude, condition variables forget no sleeping
  task, a bounded queue on both runs to its end under every schedule (\<open>bounded_queue_works\<close>), the descriptor ring hands over in order under every interleaving and across the wrap of its counters,
  atomic operations take effect one at a time, threads and timers leak nothing, the registry is a map, the
  population count counts bits, the trap handler does what the trapped instruction would have done, but for the first read of SPRG0.

  \<^bold>\<open>What the proofs brought to light.\<close> A client closed while it waits in a backlog is
  accepted all the same (\<open>closed_client_accepted\<close>); two sockets can listen on one port; an
  unaccepted client reads end of file; a break leaves messages unanswered and blocks the next start; a client
  blocks on a stale port (\<open>lone_call_atomic\<close>); a signal to a condition variable that is sent late
  wakes the wrong wait and wastes the next signal (\<open>cv_signal_wasted\<close>); a wait inside a mutex
  entered twice keeps the mutex (\<open>nested_wait_keeps_mutex\<close>); readers of the rump kernel exclude
  each other; a descriptor ring of 2\<open>^\<close>30 entries asks for 0 bytes
  (\<open>ring_init_sizes\<close>); the clock goes back when its counter wraps; the interface layout of \<open>netstack.h\<close> is not
  that of the library's table; the exit code of
  the rump kernel is never printed (\<open>exit_code_lost\<close>). With several tasks: first sleeps at once share a timer
  request (\<open>first_sleeps_collide\<close>), starts of the engine at once leave two engines and a task that waits for ever
  (\<open>overlapping_starts_strand_a_task\<close>), and a call that reaches the port of a leaving engine never returns
  (\<open>late_call_never_returns\<close>). A fetch-and-operate that nothing calls takes a load for its store
  (\<open>fetchop_mistakes_load_for_store\<close>).

  \<^bold>\<open>Assumptions.\<close> Semaphores behave as exec documents (\<open>sem_laws\<close>). The interleaved calls of
  \<open>Concurrent\<close> take their two lookups as one step each, which \<open>LazyInit\<close> justifies once their semaphores have been
  initialised. The guard of a condition variable is initialised with it, and the sections under it are one step; the
  registry of drivers has no lock and serves one task at a time. The loads and stores of the descriptor ring
  happen in program order, and a 64-bit counter is read in one piece; the barriers marked in the source for
  this are still empty. The sums of the bounded queue are integers without bound, which for the constants of the
  test are those of C. Memory obtained from exec is not handed out twice.

  \<^bold>\<open>Not modelled.\<close> The empty functions and zero-filled data of the rump kernel's link stubs, its memory
  barriers (inline assembly), and the functions of the callback timers and of the mbuf pool that do nothing hold no
  logic. The messages that functions log on the way are left out of their models; \<open>Diag\<close> has the functions that print
  them. The other test programs are not modelled, but for the bounded queue, the trap handler and the layout named
  above; nor are the declarations of the headers, whose functions are modelled where they are defined.
\<close>

section \<open>The engine implements the abstract socket layer\<close>

text \<open>
  C1: from power-on, whatever requests the engine serves and in whatever order, its replies and
  its sockets are those of the abstract socket layer, in which a socket is a queue of clients
  and a stream of bytes: rings, indices, compaction and slot search never show.
\<close>

theorem engine_implements_sockets:
  "abs_engine (fst (drain_port engine_init rs)) = fst (spec_run (Map.empty, False) rs) \<and>
   snd (drain_port engine_init rs) = map ReplyMsg (snd (spec_run (Map.empty, False) rs))"
  using drain_refines [OF wf_engine_init, of rs] by (simp add: abs_engine_init)

text \<open>
  C5: in every state the launcher and the engine can reach, every index the handlers use is inside
  its array: the backlog and receive indices of each entry, the descriptors queued on a
  listener and the peer of a connected socket.
\<close>

theorem reachable_in_bounds:
  assumes "sys_run a f s" "fd_in_range fd" "e = aget (g_fdtable s) fd"
  shows "int (length (g_fdtable s)) = FDTABLE_MAX \<and>
    int (length (backlog e)) = BACKLOG_MAX \<and> in_bounds (backlog e) (backlog_head e) \<and>
    in_bounds (backlog e) (backlog_tail e) \<and> 0 \<le> backlog_count e \<and> backlog_count e \<le> BACKLOG_MAX \<and>
    int (length (rx e)) = RXBUF_SIZE \<and> 0 \<le> rx_head e \<and> rx_head e \<le> rx_tail e \<and> rx_tail e \<le> RXBUF_SIZE \<and>
    list_all (in_bounds (g_fdtable s)) (pending e) \<and>
    (kind e = FD_SOCKET_CONNECTED \<longrightarrow> peer_fd e = -1 \<or> in_bounds (g_fdtable s) (peer_fd e))"
proof -
  have wf: "fdtable_wf (g_fdtable s)" using run_balance [OF assms(1)] by (simp add: engine_inv_def)
  note e = fdtable_wf_aget [OF wf assms(2), folded assms(3)]
  have len: "int (length (g_fdtable s)) = FDTABLE_MAX" using wf by (simp add: fdtable_wf_def)
  from e have "list_all (in_bounds (g_fdtable s)) (pending e)"
    using len by (auto simp: entry_wf_def fd_in_range_def in_bounds_def list_all_iff)
  with e len show ?thesis
    by (auto simp: entry_wf_def backlog_wf_def rx_wf_def in_bounds_def fd_in_range_def)
qed

theorem reachable_in_bounds_witness:
  "in_bounds (backlog (aget (g_fdtable echo_engine) 3)) (backlog_tail (aget (g_fdtable echo_engine) 3)) \<and>
   rx_tail (aget (g_fdtable echo_engine) 3) \<le> RXBUF_SIZE"
  using reachable_in_bounds [OF sys_run_echo _ refl, of 3] by (simp add: fd_in_range_def)

text \<open>
  C4: connections are symmetric. After any requests in which no client is closed while it still
  waits in a backlog, the peer of a connected socket is a different, connected socket whose
  peer is the first.
\<close>

theorem connections_symmetric:
  assumes "orderly (Map.empty, False) rs" "t = g_fdtable (fst (drain_port engine_init rs))"
    and "fd_valid t fd" "kind (aget t fd) = FD_SOCKET_CONNECTED" "0 \<le> peer_fd (aget t fd)"
  shows "fd_valid t (peer_fd (aget t fd)) \<and>
    kind (aget t (peer_fd (aget t fd))) = FD_SOCKET_CONNECTED \<and>
    peer_fd (aget t (peer_fd (aget t fd))) = fd \<and> peer_fd (aget t fd) \<noteq> fd"
proof -
  have "abs_table t = fst (fst (spec_run (Map.empty, False) rs))"
    using drain_refines(2) [OF wf_engine_init, of rs] assms(2)
    by (simp add: abs_engine_init) (metis abs_engine_def fst_conv)
  then have inv: "paired (conn_of (abs_table t)) (peer_of (abs_table t)) (queue_of (abs_table t))"
    using orderly_paired [of "(Map.empty, False)" rs] assms(1) socks_paired_init
    by (auto intro!: socks_pairedD(2))
  note p = paired_peer [OF inv peer_of_abs [OF assms(3-5)]]
  from peer_of_absD [OF p(2)] p(3) show ?thesis by simp
qed

theorem connections_symmetric_witness:
  "peer_fd (aget (g_fdtable (fst (drain_port engine_init handshake))) 4) = 5 \<and>
   peer_fd (aget (g_fdtable (fst (drain_port engine_init handshake))) 5) = 4"
proof -
  let ?t = "g_fdtable (fst (drain_port engine_init handshake))"
  have "abs_engine (fst (drain_port engine_init handshake)) = (echo_socks, False)"
    using drain_refines(2) [OF wf_engine_init, of handshake] by (simp add: abs_engine_init handshake_run)
  then have "peer_of (abs_table ?t) 4 = Some 5"
    by (simp add: abs_engine_def) (simp add: peer_of_def echo_socks_def)
  note p = peer_of_absD [OF this]
  from connections_symmetric [OF handshake_orderly refl p(1,2)] p(3) show ?thesis by simp
qed

text \<open>
  C2: a connection is a reliable byte stream. Start with a well-formed table in which \<open>a\<close> and \<open>b\<close> are
  connected, each is the other's peer and nobody else's, and neither waits in a backlog. For any
  requests the engine then serves on any sockets, except a close of \<open>a\<close> or of \<open>b\<close>: what was in flight
  towards \<open>b\<close> at the start, followed by what sends on \<open>a\<close> reported as accepted, is what reads on \<open>b\<close>
  returned, followed by what is still in flight; and the two are connected in the same way afterwards.
\<close>

theorem stream_conserved:
  assumes "connected_engine a b s" "list_all (keeps_open a b) rs"
    and "run_all dispatch_request s rs = (s', replies)"
  shows "rx_bytes (aget (g_fdtable s) b) @ concat (map2 (sent_by a) rs replies) =
    concat (map2 (received_by b) rs replies) @ rx_bytes (aget (g_fdtable s') b) \<and>
    connected_engine a b s'"
  using conn.run_conserves [OF assms(1,2)] assms(3) by simp

theorem stream_conserved_witness:
  "\<exists>s' replies. run_all dispatch_request echo_engine [rq_send 4 [1, 2, 3], rq_recv 5 2] = (s', replies) \<and>
     rx_bytes (aget (g_fdtable echo_engine) 5) @
       concat (map2 (sent_by 4) [rq_send 4 [1, 2, 3], rq_recv 5 2] replies) =
     concat (map2 (received_by 5) [rq_send 4 [1, 2, 3], rq_recv 5 2] replies) @
       rx_bytes (aget (g_fdtable s') 5)"
proof -
  let ?rs = "[rq_send 4 [1, 2, 3], rq_recv 5 2]"
  have "list_all (keeps_open 4 5) ?rs" by (simp add: keeps_open_def rq_defs)
  moreover obtain s' replies where "run_all dispatch_request echo_engine ?rs = (s', replies)" by fastforce
  ultimately show ?thesis using stream_conserved [OF echo_connected, of ?rs s' replies] by blast
qed

end
